(* ===== verification/Prelude.thy ===== *)
theory Prelude
  imports Main "HOL-Library.Word" "HOL-Library.Monad_Syntax"
begin

text \<open>
  What every component shares. Machine integers are 32-bit words (\<open>u32\<close>); C's signed
  comparisons read them with \<open>sint\<close>, pointer and \<open>unsigned\<close> comparisons use the order of
  the words. A pointer into one of the kernel's static tables is the table's index or
  \<open>None\<close> for the code's NULL; a function of the code that can go wrong returns an option, and
  \<open>None\<close> says that the code has no defined continuation: it followed a NULL pointer or it
  never leaves a loop. In the do-notation a line \<open>i \<leftarrow> p\<close> with a pointer \<open>p\<close> is
  therefore the C dereference of \<open>p\<close>.

  The second half holds the theory of linked structures the kernel is made of: NULL-terminated
  chains, and doubly linked circular queues that are named by their tail.
\<close>

unbundle bit_operations_syntax

named_theorems rep_simps "rewrite rules for the representation predicates"
named_theorems frame_simps "what an operation leaves unchanged"

type_synonym u32 = "32 word"
type_synonym ptr = "nat option"

definition FALSE :: u32 where "FALSE = 0"
definition TRUE :: u32 where "TRUE = 1"

text \<open>C's \<open>int\<close> division and remainder truncate towards zero.\<close>

definition cdiv :: "u32 \<Rightarrow> u32 \<Rightarrow> u32" where
  "cdiv a b = word_of_int (sgn (sint a) * sgn (sint b) * (\<bar>sint a\<bar> div \<bar>sint b\<bar>))"

definition cmod :: "u32 \<Rightarrow> u32 \<Rightarrow> u32" where
  "cmod a b = a - b * cdiv a b"

lemma cdiv_pos: "0 \<le> sint a \<Longrightarrow> 0 < sint b \<Longrightarrow> cdiv a b = word_of_int (sint a div sint b)"
  by (cases "sint a = 0") (simp_all add: cdiv_def)

lemma cmod_pos:
  assumes "0 \<le> sint a" "0 < sint b"
  shows "cmod a b = word_of_int (sint a mod sint b)"
proof -
  have q: "word_of_int (sint a - sint b * q) = a - b * word_of_int q" for q
    by simp
  have "sint a mod sint b = sint a - sint b * (sint a div sint b)" by (rule minus_mult_div_eq_mod [symmetric])
  then show ?thesis unfolding cmod_def cdiv_pos [OF assms] using q by (simp only:)
qed

lemma sint_small: "unat (a :: u32) < 2147483648 \<Longrightarrow> sint a = int (unat a)"
proof -
  assume "unat a < 2147483648"
  then have "int (unat a) < 2147483648" by linarith
  then have u: "uint a < 2147483648" by simp
  have "- (2 ^ 31) \<le> uint a" by (rule order_trans [OF _ uint_nonnegative]) simp
  with u have "signed_take_bit 31 (uint a) = uint a" by (intro signed_take_bit_int_eq_self) auto
  then show ?thesis by (simp add: sint_uint)
qed

lemma sint_pred: "- 2147483648 < sint (v :: u32) \<Longrightarrow> sint (v - 1) = sint v - 1"
  using sint_lt [of v] by (simp add: sint_word_ariths signed_take_bit_int_eq_self)

lemma cmod_small:
  "unat a < 2147483648 \<Longrightarrow> 0 < n \<Longrightarrow> n < 2147483648 \<Longrightarrow> unat (cmod a (of_nat n)) = unat a mod n"
proof -
  assume a: "unat a < 2147483648" and n: "0 < n" "n < 2147483648"
  then have un: "unat (of_nat n :: u32) = n" by (simp add: unat_of_nat)
  have "sint a mod sint (of_nat n :: u32) = int (unat a mod n)"
    using sint_small [OF a] sint_small [of "of_nat n"] n un by (simp only: zmod_int)
  moreover have "0 \<le> sint a" "0 < sint (of_nat n :: u32)"
    using sint_small [OF a] sint_small [of "of_nat n"] n un by simp_all
  ultimately have "cmod a (of_nat n) = of_nat (unat a mod n)" using cmod_pos [of a "of_nat n"] by (simp only: of_int_of_nat_eq)
  then show ?thesis using n mod_less_divisor [OF n(1), of "unat a"] by (simp add: unat_of_nat)
qed

lemma fun_upd_Nil: "(\<lambda>_. [])(a := []) = (\<lambda>_. [])"
  by auto

section \<open>Chains\<close>

text \<open>\<open>chain nxt p xs q\<close>: from \<open>p\<close>, following \<open>nxt\<close>, one meets \<open>xs\<close> and then has the pointer \<open>q\<close>.\<close>

fun chain :: "(nat \<Rightarrow> ptr) \<Rightarrow> ptr \<Rightarrow> nat list \<Rightarrow> ptr \<Rightarrow> bool" where
  "chain nxt p [] q \<longleftrightarrow> p = q"
| "chain nxt p (x # xs) q \<longleftrightarrow> p = Some x \<and> chain nxt (nxt x) xs q"

lemma chain_append [rep_simps]:
  "chain nxt p (xs @ ys) q \<longleftrightarrow> (\<exists>r. chain nxt p xs r \<and> chain nxt r ys q)"
  by (induction xs arbitrary: p) auto

lemma chain_upd: "a \<notin> set xs \<Longrightarrow> chain (nxt(a := v)) p xs q = chain nxt p xs q"
  by (induction xs arbitrary: p) auto

lemma chain_cong: "(\<And>x. x \<in> set xs \<Longrightarrow> f x = g x) \<Longrightarrow> chain f p xs q = chain g p xs q"
  by (induction xs arbitrary: p) auto

lemma chain_Null: "chain nxt None xs q \<longleftrightarrow> xs = [] \<and> q = None"
  by (cases xs) auto

lemma chain_det: "chain nxt p xs None \<Longrightarrow> chain nxt p ys None \<Longrightarrow> xs = ys"
proof (induction xs arbitrary: p ys)
  case Nil
  then show ?case by (simp add: chain_Null)
next
  case (Cons x xs)
  then show ?case by (cases ys) auto
qed

section \<open>Circular queues\<close>

text \<open>
  \<open>links nxt prv xs\<close>: each element points forward to its successor in \<open>xs\<close> and the
  successor points back. A circular queue with the elements \<open>xs\<close> (head first) is closed
  when its last element, the tail, is linked to the head; an empty queue has tail NULL.
\<close>

fun links :: "(nat \<Rightarrow> ptr) \<Rightarrow> (nat \<Rightarrow> ptr) \<Rightarrow> nat list \<Rightarrow> bool" where
  "links nxt prv (x # y # zs) \<longleftrightarrow> nxt x = Some y \<and> prv y = Some x \<and> links nxt prv (y # zs)"
| "links nxt prv _ \<longleftrightarrow> True"

definition ring :: "(nat \<Rightarrow> ptr) \<Rightarrow> (nat \<Rightarrow> ptr) \<Rightarrow> ptr \<Rightarrow> nat list \<Rightarrow> bool" where
  "ring nxt prv tp xs \<longleftrightarrow>
     (if xs = [] then tp = None
      else tp = Some (last xs) \<and> distinct xs \<and> links nxt prv (last xs # xs))"

lemma links_append:
  "links nxt prv (xs @ a # ys) \<longleftrightarrow> links nxt prv (xs @ [a]) \<and> links nxt prv (a # ys)"
proof (induction xs)
  case Nil
  then show ?case by simp
next
  case (Cons x xs)
  then show ?case by (cases xs) simp_all
qed

lemma links_snoc2:
  "links nxt prv (xs @ [a, b]) \<longleftrightarrow> links nxt prv (xs @ [a]) \<and> nxt a = Some b \<and> prv b = Some a"
  using links_append [of nxt prv xs a "[b]"] by simp

lemma links_cong:
  "\<lbrakk>\<And>x. x \<in> set (butlast xs) \<Longrightarrow> f x = f' x; \<And>x. x \<in> set (tl xs) \<Longrightarrow> g x = g' x\<rbrakk>
   \<Longrightarrow> links f g xs = links f' g' xs"
proof (induction f g xs rule: links.induct)
  case (1 nxt prv x y zs)
  then have "links nxt prv (y # zs) = links f' g' (y # zs)"
    by (intro "1.IH") (auto split: if_splits dest: in_set_butlastD)
  with "1.prems" show ?case by auto
qed auto

lemma ring_Nil [simp]: "ring nxt prv tp [] \<longleftrightarrow> tp = None"
  by (simp add: ring_def)

lemma ring_None [simp]: "ring nxt prv None xs \<longleftrightarrow> xs = []"
  by (simp add: ring_def)

lemma ring_distinct: "ring nxt prv tp xs \<Longrightarrow> distinct xs"
  by (auto simp: ring_def split: if_splits)

lemma ring_cong:
  "\<lbrakk>\<And>x. x \<in> set xs \<Longrightarrow> f x = f' x; \<And>x. x \<in> set xs \<Longrightarrow> g x = g' x\<rbrakk>
   \<Longrightarrow> ring f g tp xs = ring f' g' tp xs"
proof -
  assume f: "\<And>x. x \<in> set xs \<Longrightarrow> f x = f' x" and g: "\<And>x. x \<in> set xs \<Longrightarrow> g x = g' x"
  have "xs \<noteq> [] \<Longrightarrow> links f g (last xs # xs) = links f' g' (last xs # xs)"
    by (rule links_cong) (auto simp: f g dest: in_set_butlastD)
  then show ?thesis by (auto simp: ring_def)
qed

lemma ring_upd:
  "a \<notin> set xs \<Longrightarrow> ring (nxt(a := v)) prv tp xs = ring nxt prv tp xs"
  "a \<notin> set xs \<Longrightarrow> ring nxt (prv(a := v)) tp xs = ring nxt prv tp xs"
  by (rule ring_cong; auto)+

lemma last_notin_butlast: "distinct xs \<Longrightarrow> xs \<noteq> [] \<Longrightarrow> last xs \<notin> set (butlast xs)"
  by (cases xs rule: rev_exhaust) auto

text \<open>A queue is the same ring wherever one starts to read it.\<close>

definition cycle :: "(nat \<Rightarrow> ptr) \<Rightarrow> (nat \<Rightarrow> ptr) \<Rightarrow> nat list \<Rightarrow> bool" where
  "cycle nxt prv xs \<longleftrightarrow> xs = [] \<or> links nxt prv (last xs # xs)"

lemma ring_cycle:
  "ring nxt prv tp xs \<longleftrightarrow>
     tp = (if xs = [] then None else Some (last xs)) \<and> distinct xs \<and> cycle nxt prv xs"
  by (auto simp: ring_def cycle_def)

lemma cycle_Cons: "cycle nxt prv (x # xs) \<longleftrightarrow> links nxt prv (x # xs @ [x])"
proof (cases xs rule: rev_exhaust)
  case (snoc ys y)
  have "links nxt prv (x # (ys @ [y]) @ [x]) \<longleftrightarrow>
        links nxt prv ((x # ys) @ [y]) \<and> nxt y = Some x \<and> prv x = Some y"
    using links_snoc2 [of nxt prv "x # ys" y x] by simp
  with snoc show ?thesis by (auto simp: cycle_def)
qed (auto simp: cycle_def)

lemma cycle_rotate: "cycle nxt prv (xs @ ys) \<longleftrightarrow> cycle nxt prv (ys @ xs)"
proof (cases "xs = [] \<or> ys = []")
  case False
  then obtain x xs' y ys' where eq: "xs = x # xs'" "ys = y # ys'" by (auto simp: neq_Nil_conv)
  have "links nxt prv (x # (xs' @ y # ys') @ [x]) \<longleftrightarrow>
        links nxt prv (x # xs' @ [y]) \<and> links nxt prv (y # ys' @ [x])"
    using links_append [of nxt prv "x # xs'" y "ys' @ [x]"] by simp
  moreover have "links nxt prv (y # (ys' @ x # xs') @ [y]) \<longleftrightarrow>
        links nxt prv (y # ys' @ [x]) \<and> links nxt prv (x # xs' @ [y])"
    using links_append [of nxt prv "y # ys'" x "xs' @ [y]"] by simp
  ultimately show ?thesis by (auto simp: eq cycle_Cons)
qed auto

text \<open>Taking an element out of a cycle links its two neighbours.\<close>

lemma cycle_unlink:
  assumes c: "cycle nxt prv (p # xs)" and d: "distinct (p # xs)" and ne: "xs \<noteq> []"
  shows "nxt p = Some (hd xs)" and "prv p = Some (last xs)"
    and "cycle (nxt(last xs := Some (hd xs))) (prv(hd xs := Some (last xs))) xs"
proof -
  obtain h zs where xs: "xs = h # zs" using ne by (auto simp: neq_Nil_conv)
  show n: "nxt p = Some (hd xs)" using c by (simp add: xs cycle_Cons)
  show "prv p = Some (last xs)" using c by (simp add: cycle_def xs split: if_splits)
  have l: "links nxt prv xs" using c by (simp add: xs cycle_def)
  have "links (nxt(last xs := Some (hd xs))) (prv(hd xs := Some (last xs))) xs = links nxt prv xs"
  proof (rule links_cong)
    fix x assume "x \<in> set (butlast xs)"
    moreover have "last xs \<notin> set (butlast xs)"
      using d ne by (intro last_notin_butlast) auto
    ultimately show "(nxt(last xs := Some (hd xs))) x = nxt x" by auto
  next
    fix x assume "x \<in> set (tl xs)"
    with d show "(prv(hd xs := Some (last xs))) x = prv x" by (auto simp: xs)
  qed
  with l show "cycle (nxt(last xs := Some (hd xs))) (prv(hd xs := Some (last xs))) xs"
    by (simp add: cycle_def xs)
qed

lemma cycle_single: "cycle nxt prv [p] \<longleftrightarrow> nxt p = Some p \<and> prv p = Some p"
  by (simp add: cycle_def)

text \<open>Inserting an element between the tail and the head.\<close>

lemma cycle_insert:
  assumes c: "cycle nxt prv xs" and d: "distinct xs" and p: "p \<notin> set xs" and ne: "xs \<noteq> []"
  shows "cycle (nxt(p := Some (hd xs), last xs := Some p)) (prv(p := Some (last xs), hd xs := Some p))
           (xs @ [p])"
proof -
  obtain h zs where xs: "xs = h # zs" using ne by (auto simp: neq_Nil_conv)
  let ?n = "nxt(p := Some (hd xs), last xs := Some p)" and ?v = "prv(p := Some (last xs), hd xs := Some p)"
  have lp: "last xs \<noteq> p" using p ne by (metis last_in_set)
  have hp: "h \<noteq> p" using p by (auto simp: xs)
  have "links ?n ?v xs = links nxt prv xs"
  proof (rule links_cong)
    fix x assume x: "x \<in> set (butlast xs)"
    moreover have "last xs \<notin> set (butlast xs)"
      using d ne by (intro last_notin_butlast) auto
    ultimately show "?n x = nxt x" using p in_set_butlastD [OF x] by auto
  next
    fix x assume "x \<in> set (tl xs)"
    with d p show "?v x = prv x" by (auto simp: xs)
  qed
  moreover have "links nxt prv xs" using c by (simp add: xs cycle_def)
  ultimately have l: "links ?n ?v xs" by simp
  have "?n (last xs) = Some p" by simp
  moreover have "?v p = Some (last xs)" using hp by (simp add: xs)
  moreover have "xs @ [p] = butlast xs @ [last xs, p]" using ne by simp
  ultimately have l2: "links ?n ?v (xs @ [p])"
    using l links_snoc2 [of ?n ?v "butlast xs" "last xs" p] ne append_butlast_last_id [OF ne] by metis
  have "?n p = Some h" using lp by (auto simp: xs)
  moreover have "?v h = Some p" by (simp add: xs)
  ultimately show ?thesis using l2 by (simp add: cycle_def xs)
qed

text \<open>The same facts for a queue named by its tail.\<close>

lemma ring_first: "ring nxt prv (Some p) [p] \<longleftrightarrow> nxt p = Some p \<and> prv p = Some p"
  by (simp add: ring_cycle cycle_single)

lemma ring_insert:
  assumes r: "ring nxt prv (Some t) xs" and p: "p \<notin> set xs"
  shows "nxt t = Some (hd xs)"
    and "ring (nxt(p := nxt t, t := Some p)) (prv(p := Some t, hd xs := Some p)) (Some p) (xs @ [p])"
proof -
  have ne: "xs \<noteq> []" and t: "t = last xs" and d: "distinct xs" and c: "cycle nxt prv xs"
    using r by (auto simp: ring_cycle split: if_splits)
  have "links nxt prv (last xs # xs)" using c ne by (simp add: cycle_def)
  then show n: "nxt t = Some (hd xs)" using ne by (cases xs) (auto simp: t)
  show "ring (nxt(p := nxt t, t := Some p)) (prv(p := Some t, hd xs := Some p)) (Some p) (xs @ [p])"
    using cycle_insert [OF c d p ne] d p by (simp add: ring_cycle t n [unfolded t])
qed

text \<open>\<open>ring_unlink\<close> is the pointer surgery of every removal: \<open>a\<close> and \<open>b\<close> are the neighbours.\<close>

lemma ring_unlink:
  assumes r: "ring nxt prv (Some t) (xs @ p # ys)" and ne: "xs @ ys \<noteq> []"
  shows "nxt p = Some (hd (ys @ xs))" (is ?A) and "prv p = Some (last (ys @ xs))" (is ?B)
    and "ring (nxt(last (ys @ xs) := Some (hd (ys @ xs)))) (prv(hd (ys @ xs) := Some (last (ys @ xs))))
           (Some (if t = p then last (ys @ xs) else t)) (xs @ ys)" (is ?C)
proof -
  have t: "t = last (xs @ p # ys)" and d: "distinct (xs @ p # ys)" and c: "cycle nxt prv (xs @ p # ys)"
    using r by (auto simp: ring_cycle)
  have c': "cycle nxt prv (p # ys @ xs)" using c cycle_rotate [of nxt prv xs "p # ys"] by simp
  have d': "distinct (p # ys @ xs)" and ne': "ys @ xs \<noteq> []" using d ne by auto
  note u = cycle_unlink [OF c' d' ne']
  show ?A by (rule u(1))
  show ?B by (rule u(2))
  have "(if t = p then last (ys @ xs) else t) = last (xs @ ys)"
    using d ne by (cases ys rule: rev_cases) (auto simp: t)
  then show ?C using u(3) d' ne cycle_rotate [of _ _ xs ys] by (auto simp: ring_cycle)
qed

lemma ring_hd: "ring nxt prv (Some t) xs \<Longrightarrow> nxt t = Some (hd xs)"
  by (cases xs) (auto simp: ring_def)

end
