(* ===== verification/Types.thy ===== *)
theory Types
  imports Prelude
begin

text \<open>
  The data of \<^verbatim>\<open>h/types.h\<close> and the constants and macros of \<^verbatim>\<open>h/const.h\<close>. A struct is a record
  with the struct's field names. The register array \<open>s_reg[31]\<close> of a processor state is
  indexed by the names the header gives its elements (\<open>s_v0\<close> is \<open>s_reg[1]\<close>, and so on);
  \<open>all_regs\<close> lists them in the order of their indices. Pointers to pcbs, semaphore
  descriptors and delay descriptors are table indices (\<open>ptr\<close>); every other pointer is the
  32-bit address it is in the code, since system calls pass it through registers.
\<close>

section \<open>Processor states\<close>

datatype reg = R_at | R_v0 | R_v1 | R_a0 | R_a1 | R_a2 | R_a3
  | R_t0 | R_t1 | R_t2 | R_t3 | R_t4 | R_t5 | R_t6 | R_t7
  | R_s0 | R_s1 | R_s2 | R_s3 | R_s4 | R_s5 | R_s6 | R_s7
  | R_t8 | R_t9 | R_gp | R_sp | R_fp | R_ra | R_HI | R_LO

definition STATEREGNUM :: nat where "STATEREGNUM = 31"

definition all_regs :: "reg list" where
  "all_regs = [R_at, R_v0, R_v1, R_a0, R_a1, R_a2, R_a3,
     R_t0, R_t1, R_t2, R_t3, R_t4, R_t5, R_t6, R_t7,
     R_s0, R_s1, R_s2, R_s3, R_s4, R_s5, R_s6, R_s7,
     R_t8, R_t9, R_gp, R_sp, R_fp, R_ra, R_HI, R_LO]"

lemma set_all_regs: "set all_regs = UNIV"
proof -
  have "r \<in> set all_regs" for r by (cases r) (simp_all add: all_regs_def)
  then show ?thesis by auto
qed

lemma all_regs_STATEREGNUM: "length all_regs = STATEREGNUM \<and> distinct all_regs"
  by (simp add: all_regs_def STATEREGNUM_def)

instantiation reg :: enum
begin

definition enum_reg :: "reg list" where
  "enum_reg = all_regs"

definition enum_all_reg :: "(reg \<Rightarrow> bool) \<Rightarrow> bool" where
  "enum_all_reg P \<longleftrightarrow> list_all P all_regs"

definition enum_ex_reg :: "(reg \<Rightarrow> bool) \<Rightarrow> bool" where
  "enum_ex_reg P \<longleftrightarrow> list_ex P all_regs"

instance
proof
  show "(UNIV :: reg set) = set enum_class.enum" by (simp add: enum_reg_def set_all_regs)
  show "distinct (enum_class.enum :: reg list)" by (simp add: enum_reg_def all_regs_STATEREGNUM)
  show "enum_class.enum_all P \<longleftrightarrow> Ball UNIV P" for P :: "reg \<Rightarrow> bool"
    by (simp add: enum_all_reg_def list_all_iff set_all_regs)
  show "enum_class.enum_ex P \<longleftrightarrow> Bex UNIV P" for P :: "reg \<Rightarrow> bool"
    by (simp add: enum_ex_reg_def list_ex_iff set_all_regs)
qed

end

record state_t =
  s_entryHI :: u32
  s_cause :: u32
  s_status :: u32
  s_pc :: u32
  s_reg :: "reg \<Rightarrow> u32"

definition set_reg :: "reg \<Rightarrow> u32 \<Rightarrow> state_t \<Rightarrow> state_t" where
  "set_reg r v st = st\<lparr>s_reg := (s_reg st)(r := v)\<rparr>"

record context_t =
  c_stackPtr :: u32
  c_status :: u32
  c_pc :: u32

record pte_t =
  EntryHi :: u32
  EntryLo :: u32

text \<open>
  \<open>support_t\<close> without its three \<open>int\<close> areas: the two exception stacks and \<open>delaySem\<close> are
  memory words at fixed offsets from the structure's address (below).
\<close>

record support_t =
  sup_asid :: u32
  sup_exceptState :: "nat \<Rightarrow> state_t"
  sup_exceptContext :: "nat \<Rightarrow> context_t"
  sup_privatePgTbl :: "nat \<Rightarrow> pte_t"

text \<open>\<open>matchingPgTableEntry\<close> points at an entry of a page table: the support structure's
  address and the index in its table.\<close>

record swapPoolFrame_t =
  sw_ASID :: u32
  sw_VPN :: u32
  matchingPgTableEntry :: "(u32 \<times> nat) option"

record device_t =
  d_status :: u32
  d_command :: u32
  d_data0 :: u32
  d_data1 :: u32

text \<open>The terminal names of the same four registers.\<close>

abbreviation t_recv_status :: "device_t \<Rightarrow> u32" where "t_recv_status \<equiv> d_status"
abbreviation t_transm_status :: "device_t \<Rightarrow> u32" where "t_transm_status \<equiv> d_data0"
abbreviation t_recv_command_update :: "(u32 \<Rightarrow> u32) \<Rightarrow> device_t \<Rightarrow> device_t" where
  "t_recv_command_update \<equiv> d_command_update"
abbreviation t_transm_command_update :: "(u32 \<Rightarrow> u32) \<Rightarrow> device_t \<Rightarrow> device_t" where
  "t_transm_command_update \<equiv> d_data1_update"

section \<open>Kernel tables\<close>

record pcb_t =
  p_next :: ptr
  p_prev :: ptr
  p_prnt :: ptr
  p_child :: ptr
  p_next_sib :: ptr
  p_prev_sib :: ptr
  p_s :: state_t
  p_time :: u32
  p_semAdd :: u32
  p_supportStruct :: u32

record semd_t =
  s_next :: ptr
  s_semAdd :: u32
  s_procQ :: ptr

record delayd_t =
  d_next :: ptr
  d_wakeTime :: u32
  d_supStruct :: u32

section \<open>Constants\<close>

definition NULL :: u32 where "NULL = 0xFFFFFFFF"
definition MAXPROC :: nat where "MAXPROC = 20"
definition WORDLEN :: u32 where "WORDLEN = 4"
definition PAGESIZE :: u32 where "PAGESIZE = 4096"
definition BLOCKSIZE :: u32 where "BLOCKSIZE = PAGESIZE"
definition BIOSDATAPAGE :: u32 where "BIOSDATAPAGE = 0x0FFFF000"
definition PASSUPVECTOR :: u32 where "PASSUPVECTOR = 0x0FFFF900"
definition RAMBASEADDR :: u32 where "RAMBASEADDR = 0x10000000"
definition RAMBASESIZE :: u32 where "RAMBASESIZE = 0x10000004"
definition TODLOADDR :: u32 where "TODLOADDR = 0x1000001C"
definition INTERVALTMR :: u32 where "INTERVALTMR = 0x10000020"
definition TIMESCALEADDR :: u32 where "TIMESCALEADDR = 0x10000024"
definition RAMSTART :: u32 where "RAMSTART = 0x20000000"
definition INT_DEV_REG :: u32 where "INT_DEV_REG = 0x10000040"
definition KUSEG :: u32 where "KUSEG = 0x80000000"

definition DEVINTNUM :: nat where "DEVINTNUM = 5"
definition DEVPERINT :: nat where "DEVPERINT = 8"
definition ACK :: u32 where "ACK = 1"
definition READY :: u32 where "READY = 1"
definition DISKINT :: u32 where "DISKINT = 3"
definition FLASHINT :: u32 where "FLASHINT = 4"
definition PRNTINT :: u32 where "PRNTINT = 6"
definition TERMINT :: u32 where "TERMINT = 7"

definition PGFAULTEXCEPT :: nat where "PGFAULTEXCEPT = 0"
definition GENERALEXCEPT :: nat where "GENERALEXCEPT = 1"
definition CLOCKINTERVAL :: u32 where "CLOCKINTERVAL = 100000"

definition EXECCODEBITS :: u32 where "EXECCODEBITS = 0x7C"
definition IPBITS :: u32 where "IPBITS = 0xFF00"
definition IECBITON :: u32 where "IECBITON = 1"
definition KUPBITON :: u32 where "KUPBITON = 8"
definition KUPBITOFF :: u32 where "KUPBITOFF = 0xFFFFFFF7"
definition IEPBITON :: u32 where "IEPBITON = 4"
definition TEBITON :: u32 where "TEBITON = 0x08000000"

section \<open>Constants of the support level\<close>

definition VPN_SHIFT :: nat where "VPN_SHIFT = 12"
definition VPN_MASK :: u32 where "VPN_MASK = 0x000FFFFF"
definition SWAP_POOL_SIZE :: nat where "SWAP_POOL_SIZE = 32"
definition SWAP_POOL_START :: u32 where "SWAP_POOL_START = 0x20020000 + BLOCKSIZE * 16"
definition PAGE_TABLE_SIZE :: nat where "PAGE_TABLE_SIZE = 32"
definition ASID_SHIFT :: nat where "ASID_SHIFT = 6"
definition UPROC_NUM :: nat where "UPROC_NUM = 1"
definition UPROC_STACK_AREA :: u32 where "UPROC_STACK_AREA = 0xBFFFF000"
definition LAST_USER_PAGE :: u32 where "LAST_USER_PAGE = 0x8001E000"
definition TLB_STACK_AREA :: u32 where "TLB_STACK_AREA = 499"
definition GEN_EXC_STACK_AREA :: u32 where "GEN_EXC_STACK_AREA = 499"
definition DBITON :: u32 where "DBITON = 0x00000400"
definition VBITON :: u32 where "VBITON = 0x00000200"
definition GBITOFF :: u32 where "GBITOFF = 0xFFFFFEFF"
definition VBITOFF :: u32 where "VBITOFF = 0xFFFFFDFF"
definition PFN_MASK :: u32 where "PFN_MASK = 0xFFFFF000"
definition UPROCSTARTADDR :: u32 where "UPROCSTARTADDR = 0x800000B0"
definition UPROCSTACK :: u32 where "UPROCSTACK = 0xC0000000"
definition STARTVPN :: u32 where "STARTVPN = 0x80000"
definition UPROC_STACK_VPN :: u32 where "UPROC_STACK_VPN = 0xBFFFF"
definition NEW_LINE :: u32 where "NEW_LINE = 10"
definition STR_MIN :: u32 where "STR_MIN = 0"
definition STR_MAX :: u32 where "STR_MAX = 128"
definition STATUS_CHAR_MASK :: u32 where "STATUS_CHAR_MASK = 0x000000FF"
definition CHAR_TRANSMITTED :: u32 where "CHAR_TRANSMITTED = 5"
definition CHAR_RECIEVED :: u32 where "CHAR_RECIEVED = 5"
definition TRANSMIT_COMMAND :: u32 where "TRANSMIT_COMMAND = 2"
definition RECEIVE_COMMAND :: u32 where "RECEIVE_COMMAND = 2"
definition RECEIVE_CHAR_MASK :: u32 where "RECEIVE_CHAR_MASK = 0x0000FF00"
definition FLASHWRITE :: u32 where "FLASHWRITE = 3"
definition FLASHREAD :: u32 where "FLASHREAD = 2"
definition TRANS_COMMAND_SHIFT :: nat where "TRANS_COMMAND_SHIFT = 8"
definition RECEIVE_COMMAND_SHIFT :: nat where "RECEIVE_COMMAND_SHIFT = 8"
definition COMMAND_SHIFT :: nat where "COMMAND_SHIFT = 8"
definition PRINTCHR :: u32 where "PRINTCHR = 2"
definition DISK_DMA_BUFFER_BASE_ADDR :: u32 where "DISK_DMA_BUFFER_BASE_ADDR = 0x20020000"
definition FLASK_DMA_BUFFER_BASE_ADDR :: u32 where "FLASK_DMA_BUFFER_BASE_ADDR = 0x20020000 + BLOCKSIZE * 8"
definition READBLK_DSK :: u32 where "READBLK_DSK = 3"
definition WRITEBLK_DSK :: u32 where "WRITEBLK_DSK = 4"
definition SEEKCYL :: u32 where "SEEKCYL = 2"
definition SECTNUM_SHIFT :: nat where "SECTNUM_SHIFT = 8"
definition CYLNUM_SHIFT :: nat where "CYLNUM_SHIFT = 8"
definition HEADNUM_SHIFT :: nat where "HEADNUM_SHIFT = 16"
definition READBLK_FLASH :: u32 where "READBLK_FLASH = 2"
definition WRITEBLK_FLASH :: u32 where "WRITEBLK_FLASH = 3"
definition BLOCKNUM_SHIFT :: nat where "BLOCKNUM_SHIFT = 8"
definition RESERVED_DISK_NO :: u32 where "RESERVED_DISK_NO = 0"
definition TERMINATETHREAD :: u32 where "TERMINATETHREAD = 2"
definition PASSERN :: u32 where "PASSERN = 3"
definition VERHO :: u32 where "VERHO = 4"
definition IOWAIT :: u32 where "IOWAIT = 5"
definition SUPPORTGET :: u32 where "SUPPORTGET = 8"
definition TLB_MOD :: u32 where "TLB_MOD = 1"
definition SYS :: u32 where "SYS = 8"

section \<open>Macros\<close>

definition devAddrBase :: "u32 \<Rightarrow> u32 \<Rightarrow> u32" where
  "devAddrBase intLineNo devNo = 0x10000054 + ((intLineNo - 3) * 0x80) + (devNo * 0x10)"

definition CauseExcCode :: "u32 \<Rightarrow> u32" where
  "CauseExcCode Cause = drop_bit 2 (EXECCODEBITS AND Cause)"

definition intDevBitMap :: "u32 \<Rightarrow> u32" where
  "intDevBitMap intLine = INT_DEV_REG + (4 * (intLine - 3))"

definition devSemIdx :: "u32 \<Rightarrow> u32 \<Rightarrow> u32 \<Rightarrow> u32" where
  "devSemIdx intLineNo devNo termRead = (intLineNo - 3) * 8 + termRead * 8 + devNo"

lemmas const_defs = NULL_def MAXPROC_def WORDLEN_def PAGESIZE_def BLOCKSIZE_def BIOSDATAPAGE_def
  PASSUPVECTOR_def RAMBASEADDR_def RAMBASESIZE_def TODLOADDR_def INTERVALTMR_def TIMESCALEADDR_def
  RAMSTART_def INT_DEV_REG_def KUSEG_def DEVINTNUM_def DEVPERINT_def ACK_def READY_def
  DISKINT_def FLASHINT_def PRNTINT_def TERMINT_def PGFAULTEXCEPT_def GENERALEXCEPT_def
  CLOCKINTERVAL_def EXECCODEBITS_def IPBITS_def IECBITON_def KUPBITON_def KUPBITOFF_def
  IEPBITON_def TEBITON_def TRUE_def FALSE_def

lemmas support_const_defs = VPN_SHIFT_def VPN_MASK_def SWAP_POOL_SIZE_def SWAP_POOL_START_def
  PAGE_TABLE_SIZE_def ASID_SHIFT_def UPROC_NUM_def UPROC_STACK_AREA_def LAST_USER_PAGE_def
  TLB_STACK_AREA_def GEN_EXC_STACK_AREA_def DBITON_def VBITON_def GBITOFF_def VBITOFF_def PFN_MASK_def
  UPROCSTARTADDR_def UPROCSTACK_def STARTVPN_def UPROC_STACK_VPN_def NEW_LINE_def STR_MIN_def
  STR_MAX_def STATUS_CHAR_MASK_def CHAR_TRANSMITTED_def CHAR_RECIEVED_def TRANSMIT_COMMAND_def
  RECEIVE_COMMAND_def RECEIVE_CHAR_MASK_def FLASHWRITE_def FLASHREAD_def TRANS_COMMAND_SHIFT_def
  RECEIVE_COMMAND_SHIFT_def COMMAND_SHIFT_def PRINTCHR_def DISK_DMA_BUFFER_BASE_ADDR_def
  FLASK_DMA_BUFFER_BASE_ADDR_def READBLK_DSK_def WRITEBLK_DSK_def SEEKCYL_def SECTNUM_SHIFT_def
  CYLNUM_SHIFT_def HEADNUM_SHIFT_def READBLK_FLASH_def WRITEBLK_FLASH_def BLOCKNUM_SHIFT_def
  RESERVED_DISK_NO_def TERMINATETHREAD_def PASSERN_def VERHO_def IOWAIT_def SUPPORTGET_def TLB_MOD_def
  SYS_def

lemma s_reg_set_reg [simp]: "s_reg (set_reg r v st) = (s_reg st)(r := v)"
  by (simp add: set_reg_def)

lemma set_reg_other [simp]:
  "s_entryHI (set_reg r v st) = s_entryHI st" "s_cause (set_reg r v st) = s_cause st"
  "s_status (set_reg r v st) = s_status st" "s_pc (set_reg r v st) = s_pc st"
  by (simp_all add: set_reg_def)

end
