(* ===== verification/Interfaces.thy ===== *)
theory Interfaces
  imports Prelude
begin

text \<open>
  The contracts the components rely on. \<open>fifo\<close> is the contract of a queue of pcbs, met by
  the process queues of \<^verbatim>\<open>pcb.c\<close> and by the queue of the processes blocked on one semaphore
  in \<^verbatim>\<open>asl.c\<close>. \<open>sorted_walk\<close> is the contract of the search through a list that ends in a
  sentinel, met by the active semaphore list and by the list of sleeping processes. \<open>send_loop\<close> is the
  contract of the loops that send a string to a device character by character, met by the printer and the terminal.
  Each client lemma is proved here once and used through the interpretations.
\<close>

section \<open>Runs over a queue interface\<close>

fun put_all :: "(nat \<Rightarrow> 's \<Rightarrow> 's option) \<Rightarrow> nat list \<Rightarrow> 's \<Rightarrow> 's option" where
  "put_all put [] s = Some s"
| "put_all put (p # ps) s = do { s \<leftarrow> put p s; put_all put ps s }"

fun get_n :: "('s \<Rightarrow> (ptr \<times> 's) option) \<Rightarrow> nat \<Rightarrow> 's \<Rightarrow> (ptr list \<times> 's) option" where
  "get_n get 0 s = Some ([], s)"
| "get_n get (Suc n) s = do { (r, s) \<leftarrow> get s; (rs, s) \<leftarrow> get_n get n s; Some (r # rs, s) }"

text \<open>\<open>n\<close> turns of round robin: take the head and put it back at the end.\<close>

fun turns :: "(nat \<Rightarrow> 's \<Rightarrow> 's option) \<Rightarrow> ('s \<Rightarrow> (ptr \<times> 's) option) \<Rightarrow> nat \<Rightarrow> 's \<Rightarrow> (nat list \<times> 's) option" where
  "turns put get 0 s = Some ([], s)"
| "turns put get (Suc n) s = do {
     (r, s) \<leftarrow> get s; p \<leftarrow> r; s \<leftarrow> put p s; (ps, s) \<leftarrow> turns put get n s; Some (p # ps, s) }"

section \<open>First in, first out\<close>

text \<open>\<open>rep s F xs\<close>: in state \<open>s\<close> the queue holds \<open>xs\<close>, and the pcbs of \<open>F\<close> may be put into it.\<close>

locale fifo =
  fixes rep :: "'s \<Rightarrow> nat set \<Rightarrow> nat list \<Rightarrow> bool"
    and put :: "nat \<Rightarrow> 's \<Rightarrow> 's option"
    and get :: "'s \<Rightarrow> (ptr \<times> 's) option"
  assumes put_law: "rep s F xs \<Longrightarrow> p \<in> F \<Longrightarrow> \<exists>s'. put p s = Some s' \<and> rep s' (F - {p}) (xs @ [p])"
    and get_empty: "rep s F [] \<Longrightarrow> get s = Some (None, s)"
    and get_law: "rep s F (x # xs) \<Longrightarrow> \<exists>s'. get s = Some (Some x, s') \<and> rep s' (insert x F) xs"
begin

lemma put_all_rep:
  "rep s F xs \<Longrightarrow> distinct ps \<Longrightarrow> set ps \<subseteq> F \<Longrightarrow>
   \<exists>s'. put_all put ps s = Some s' \<and> rep s' (F - set ps) (xs @ ps)"
proof (induction ps arbitrary: s F xs)
  case (Cons p ps)
  then obtain s1 where s1: "put p s = Some s1" "rep s1 (F - {p}) (xs @ [p])"
    using put_law [of s F xs p] by auto
  have "set ps \<subseteq> F - {p}" using Cons.prems by auto
  then obtain s2 where "put_all put ps s1 = Some s2" "rep s2 (F - {p} - set ps) ((xs @ [p]) @ ps)"
    using Cons.IH [OF s1(2)] Cons.prems by auto
  moreover have "F - {p} - set ps = F - set (p # ps)" by auto
  ultimately show ?case using s1(1) by auto
qed simp

lemma get_n_rep:
  "rep s F (xs @ ys) \<Longrightarrow>
   \<exists>s'. get_n get (length xs) s = Some (map Some xs, s') \<and> rep s' (F \<union> set xs) ys"
proof (induction xs arbitrary: s F)
  case (Cons x xs)
  then obtain s1 where "get s = Some (Some x, s1)" "rep s1 (insert x F) (xs @ ys)"
    using get_law [of s F x "xs @ ys"] by auto
  with Cons.IH [of s1 "insert x F"] show ?case by auto
qed simp

lemma first_in_first_out:
  assumes "rep s F []" "distinct ps" "set ps \<subseteq> F"
  shows "\<exists>s' s''. put_all put ps s = Some s' \<and> get_n get (length ps) s' = Some (map Some ps, s'') \<and>
           get s'' = Some (None, s'')"
proof -
  obtain s' where s': "put_all put ps s = Some s'" "rep s' (F - set ps) (ps @ [])"
    using put_all_rep [OF assms] by auto
  obtain s'' where "get_n get (length ps) s' = Some (map Some ps, s'')" "rep s'' (F - set ps \<union> set ps) []"
    using get_n_rep [OF s'(2)] by auto
  with s'(1) get_empty show ?thesis by blast
qed

lemma turns_rep:
  assumes "rep s F (xs @ ys)"
  shows "\<exists>s' F'. turns put get (length xs) s = Some (xs, s') \<and> rep s' F' (ys @ xs)"
  using assms
proof (induction xs arbitrary: s F ys)
  case (Cons x xs)
  then obtain s1 where s1: "get s = Some (Some x, s1)" "rep s1 (insert x F) (xs @ ys)"
    using get_law [of s F x "xs @ ys"] by auto
  obtain s2 where s2: "put x s1 = Some s2" "rep s2 (insert x F - {x}) (xs @ (ys @ [x]))"
    using put_law [OF s1(2), of x] by auto
  show ?case using Cons.IH [OF s2(2)] s1(1) s2(1) by auto
qed auto

text \<open>A full round serves every element once, in order, and restores the queue.\<close>

lemma full_round: "rep s F xs \<Longrightarrow> \<exists>s' F'. turns put get (length xs) s = Some (xs, s') \<and> rep s' F' xs"
  using turns_rep [of s F xs "[]"] by simp

end

section \<open>Searching a sorted list with a sentinel\<close>

text \<open>
  \<open>walk k x s\<close> moves from \<open>x\<close> along \<open>nxt\<close> while the next key is not the sentinel's and is
  below \<open>k\<close> in the order \<open>lt\<close>.
\<close>

locale sorted_walk =
  fixes nxt :: "'s \<Rightarrow> nat \<Rightarrow> ptr" and key :: "'s \<Rightarrow> nat \<Rightarrow> 'k" and lt :: "'k \<Rightarrow> 'k \<Rightarrow> bool" and stop :: "'s \<Rightarrow> 'k"
    and walk :: "'k \<Rightarrow> nat \<Rightarrow> 's \<Rightarrow> nat option"
  assumes walk_unfold: "walk k x s =
    do { n \<leftarrow> nxt s x; if key s n \<noteq> stop s \<and> lt (key s n) k then walk k n s else Some x }"
begin

lemma walk_stops:
  "nxt s x = Some n \<Longrightarrow> \<not> (key s n \<noteq> stop s \<and> lt (key s n) k) \<Longrightarrow> walk k x s = Some x"
  by (subst walk_unfold) auto

lemma walk_passes:
  assumes "chain (nxt s) (nxt s x) (as @ [n]) q"
    and "\<forall>a\<in>set as. key s a \<noteq> stop s \<and> lt (key s a) k" and "\<not> (key s n \<noteq> stop s \<and> lt (key s n) k)"
  shows "walk k x s = Some (last (x # as))"
  using assms
proof (induction as arbitrary: x)
  case Nil
  then show ?case by (simp add: walk_stops)
next
  case (Cons a as)
  then have "walk k x s = walk k a s" by (subst walk_unfold) auto
  also have "\<dots> = Some (last (a # as))" using Cons by (intro Cons.IH) auto
  finally show ?case by simp
qed

text \<open>The search ends at the last node below \<open>k\<close>, whatever the sentinel's key is.\<close>

lemma walk_finds:
  assumes c: "chain (nxt s) (nxt s x) (ds @ [t]) q" and st: "key s t = stop s"
    and ns: "stop s \<notin> key s ` set ds"
  shows "walk k x s = Some (last (x # takeWhile (\<lambda>d. lt (key s d) k) ds))"
proof -
  let ?as = "takeWhile (\<lambda>d. lt (key s d) k) ds" and ?bs = "dropWhile (\<lambda>d. lt (key s d) k) ds"
  obtain n rest where split: "?bs @ [t] = n # rest" by (cases "?bs @ [t]") auto
  have ds: "ds @ [t] = (?as @ [n]) @ rest" using split by (metis append.assoc append_Cons append_Nil takeWhile_dropWhile_id)
  from c have "\<exists>r. chain (nxt s) (nxt s x) (?as @ [n]) r"
    unfolding ds by (auto simp: chain_append)
  moreover have "\<forall>a\<in>set ?as. key s a \<noteq> stop s \<and> lt (key s a) k"
    using ns by (metis image_eqI set_takeWhileD)
  moreover have "\<not> (key s n \<noteq> stop s \<and> lt (key s n) k)"
  proof (cases ?bs)
    case Nil
    have "n = t" using split unfolding Nil by simp
    then show ?thesis using st by simp
  next
    case (Cons b bs)
    have "n = b" using split unfolding Cons by simp
    moreover have "\<not> lt (key s b) k" using Cons by (metis dropWhile_eq_Cons_conv)
    ultimately show ?thesis by simp
  qed
  ultimately show ?thesis using walk_passes by blast
qed

end
section \<open>Sending a string to a device\<close>

text \<open>
  \<open>loop i st s\<close> sends the characters from \<open>i\<close> on, until the length is reached or a status is not
  \<open>good\<close>; \<open>st\<close> is the last status. It is met by the loops of the printer and of the terminal.
\<close>

locale send_loop =
  fixes send :: "u32 \<Rightarrow> 's \<Rightarrow> (u32 \<times> 's) option" and good :: "u32 \<Rightarrow> bool" and len :: "'s \<Rightarrow> u32"
    and failed :: "u32 \<Rightarrow> 's \<Rightarrow> 's" and loop :: "u32 \<Rightarrow> u32 option \<Rightarrow> 's \<Rightarrow> (u32 \<times> u32 option \<times> 's) option"
  assumes loop_unfold: "loop i st s =
    (if sint i < sint (len s)
     then do { (r, s) \<leftarrow> send i s; if good r then loop (i + 1) (Some r) s else Some (i, Some r, failed r s) }
     else Some (i, st, s))"
begin

text \<open>The invariant \<open>I k\<close> holds before character \<open>k\<close>; a character that fails leads to \<open>E\<close>.\<close>

lemma loop_ends:
  assumes step: "\<And>k s. I k s \<Longrightarrow> k < n \<Longrightarrow> \<exists>r s'. send (of_nat k) s = Some (r, s') \<and> (if good r then I (Suc k) s' else E k s')"
    and len: "\<And>k s. I k s \<Longrightarrow> len s = of_nat n" and n: "n < 2147483648"
  shows "I k s \<Longrightarrow> k \<le> n \<Longrightarrow> (k = n \<longrightarrow> (\<exists>r. st = Some r \<and> good r)) \<Longrightarrow>
    \<exists>j r s'. k \<le> j \<and> j \<le> n \<and> (if j = n then good r \<and> I n s' \<and> loop (of_nat k) st s = Some (of_nat n, Some r, s')
      else \<not> good r \<and> E j s' \<and> loop (of_nat k) st s = Some (of_nat j, Some r, failed r s'))"
proof (induction "n - k" arbitrary: k s st)
  case 0
  then have "k = n" by simp
  then show ?case using 0 len by (intro exI [of _ n]) (auto simp: loop_unfold)
next
  case (Suc m)
  then have k: "k < n" by simp
  have small: "sint (of_nat k :: u32) = int k" "sint (of_nat n :: u32) = int n"
    using sint_small [of "of_nat k"] sint_small [of "of_nat n"] n k by (simp_all add: unat_of_nat)
  from step [OF Suc.prems(1) k] obtain r s1 where
    s1: "send (of_nat k) s = Some (r, s1)" "if good r then I (Suc k) s1 else E k s1" by blast
  have l: "loop (of_nat k) st s = (if good r then loop (of_nat (Suc k)) (Some r) s1 else Some (of_nat k, Some r, failed r s1))"
    using s1(1) k small len [OF Suc.prems(1)] by (subst loop_unfold) (simp add: add.commute)
  show ?case
  proof (cases "good r")
    case True
    have "m = n - Suc k" using Suc.hyps(2) by simp
    from Suc.hyps(1) [OF this, of s1 "Some r"] obtain j r' s' where "Suc k \<le> j" "j \<le> n"
      "if j = n then good r' \<and> I n s' \<and> loop (of_nat (Suc k)) (Some r) s1 = Some (of_nat n, Some r', s')
       else \<not> good r' \<and> E j s' \<and> loop (of_nat (Suc k)) (Some r) s1 = Some (of_nat j, Some r', failed r' s')"
      using s1(2) True k by auto
    then show ?thesis using l True by (intro exI [of _ j] exI [of _ r'] exI [of _ s']) auto
  next
    case False
    then show ?thesis using l s1(2) k by (intro exI [of _ k] exI [of _ r] exI [of _ s1]) auto
  qed
qed

end

end
