(* ===== verification/Pcb.thy ===== *)
theory Pcb
  imports Types Interfaces
begin

text \<open>
  \<^verbatim>\<open>phase1/pcb.c\<close>: the table of process control blocks, its free list, the process queues and
  the process trees. The memory the module works on is the record \<open>pcbmem\<close>; later components
  extend it, so every operation here also runs on their states. A tail pointer passed by
  address (\<open>pcb_PTR *tp\<close>) is passed by value and returned. The representation predicates
  \<open>pcbFree\<close>, \<open>procQ\<close> and \<open>children\<close> say which list of pcbs a pointer structure stands for,
  and \<open>qframe\<close> and \<open>tframe\<close> which pcbs an operation may touch.
\<close>

section \<open>The module's memory\<close>

record pcbmem =
  pcbs :: "nat \<Rightarrow> pcb_t"
  pcbFree_h :: ptr

definition upd_pcb :: "nat \<Rightarrow> (pcb_t \<Rightarrow> pcb_t) \<Rightarrow> 'a pcbmem_scheme \<Rightarrow> 'a pcbmem_scheme" where
  "upd_pcb i f s = s\<lparr>pcbs := (pcbs s)(i := f (pcbs s i))\<rparr>"

section \<open>Allocation\<close>

definition freePcb :: "ptr \<Rightarrow> 'a pcbmem_scheme \<Rightarrow> 'a pcbmem_scheme option" where
  "freePcb p s = do {
     i \<leftarrow> p;
     let s = upd_pcb i (p_next_update (\<lambda>_. pcbFree_h s)) s;
     Some (s\<lparr>pcbFree_h := p\<rparr>)
   }"

definition allocPcb :: "'a pcbmem_scheme \<Rightarrow> (ptr \<times> 'a pcbmem_scheme) option" where
  "allocPcb s =
     (if pcbFree_h s = None then Some (None, s)
      else do {
        a \<leftarrow> pcbFree_h s;
        let s = s\<lparr>pcbFree_h := p_next (pcbs s a)\<rparr>;
        let s = upd_pcb a (\<lambda>p. p\<lparr>p_child := None, p_next := None, p_prev := None, p_prnt := None,
                 p_next_sib := None, p_prev_sib := None\<rparr>) s;
        let s = upd_pcb a (\<lambda>p. p\<lparr>p_s := (p_s p)\<lparr>s_entryHI := 0, s_cause := 0, s_status := 0, s_pc := 0\<rparr>\<rparr>) s;
        let s = fold (\<lambda>r. upd_pcb a (\<lambda>p. p\<lparr>p_s := set_reg r 0 (p_s p)\<rparr>)) all_regs s;
        let s = upd_pcb a (\<lambda>p. p\<lparr>p_time := 0, p_semAdd := NULL, p_supportStruct := NULL\<rparr>) s;
        Some (Some a, s)
      })"

definition initPcbs :: "'a pcbmem_scheme \<Rightarrow> 'a pcbmem_scheme" where
  "initPcbs s =
     (let s = s\<lparr>pcbFree_h := Some 0\<rparr>;
          s = fold (\<lambda>i. upd_pcb i (p_next_update (\<lambda>_. Some (i + 1)))) [0..<MAXPROC - 1] s
      in upd_pcb (MAXPROC - 1) (p_next_update (\<lambda>_. None)) s)"

section \<open>Process queues\<close>

definition mkEmptyProcQ :: ptr where
  "mkEmptyProcQ = None"

definition emptyProcQ :: "ptr \<Rightarrow> bool" where
  "emptyProcQ tp \<longleftrightarrow> tp = None"

definition insertProcQ :: "ptr \<Rightarrow> ptr \<Rightarrow> 'a pcbmem_scheme \<Rightarrow> (ptr \<times> 'a pcbmem_scheme) option" where
  "insertProcQ tp p s =
     (if emptyProcQ tp then do {
        i \<leftarrow> p;
        let s = upd_pcb i (p_next_update (\<lambda>_. p)) s;
        let s = upd_pcb i (p_prev_update (\<lambda>_. p)) s;
        Some (p, s)
      } else do {
        i \<leftarrow> p;
        t \<leftarrow> tp;
        let s = upd_pcb i (p_next_update (\<lambda>_. p_next (pcbs s t))) s;
        let s = upd_pcb i (p_prev_update (\<lambda>_. tp)) s;
        h \<leftarrow> p_next (pcbs s t);
        let s = upd_pcb h (p_prev_update (\<lambda>_. p)) s;
        let s = upd_pcb t (p_next_update (\<lambda>_. p)) s;
        Some (p, s)
      })"

definition removeProcQ :: "ptr \<Rightarrow> 'a pcbmem_scheme \<Rightarrow> (ptr \<times> ptr \<times> 'a pcbmem_scheme) option" where
  "removeProcQ tp s =
     (if tp = None then Some (None, tp, s)
      else do {
        t \<leftarrow> tp;
        let rm = p_next (pcbs s t);
        r \<leftarrow> rm;
        let s = upd_pcb t (p_next_update (\<lambda>_. p_next (pcbs s r))) s;
        n \<leftarrow> p_next (pcbs s r);
        let s = upd_pcb n (p_prev_update (\<lambda>_. tp)) s;
        let tp = (if rm = tp then None else tp);
        Some (rm, tp, s)
      })"

text \<open>The search loop of \<open>outProcQ\<close>.\<close>

partial_function (option) q_find :: "ptr \<Rightarrow> ptr \<Rightarrow> nat \<Rightarrow> 'a pcbmem_scheme \<Rightarrow> nat option" where
  "q_find tp p traverse s =
     (if Some traverse \<noteq> p \<and> p_next (pcbs s traverse) \<noteq> tp
      then do { traverse \<leftarrow> p_next (pcbs s traverse); q_find tp p traverse s }
      else Some traverse)"

definition outProcQ :: "ptr \<Rightarrow> ptr \<Rightarrow> 'a pcbmem_scheme \<Rightarrow> (ptr \<times> ptr \<times> 'a pcbmem_scheme) option" where
  "outProcQ tp p s =
     (if tp = None then Some (None, tp, s)
      else do {
        t \<leftarrow> tp;
        traverse \<leftarrow> q_find tp p t s;
        if Some traverse \<noteq> p then Some (None, tp, s)
        else do {
          i \<leftarrow> p;
          let next = p_next (pcbs s i);
          let prev = p_prev (pcbs s i);
          n \<leftarrow> next;
          let s = upd_pcb n (p_prev_update (\<lambda>_. prev)) s;
          v \<leftarrow> prev;
          let s = upd_pcb v (p_next_update (\<lambda>_. next)) s;
          let tp = (if tp = p
                    then (let tp = p_prev (pcbs s i) in if tp = p then None else tp)
                    else tp);
          let s = upd_pcb i (p_prev_update (\<lambda>_. None)) s;
          let s = upd_pcb i (p_next_update (\<lambda>_. None)) s;
          Some (p, tp, s)
        }
      })"

definition headProcQ :: "ptr \<Rightarrow> 'a pcbmem_scheme \<Rightarrow> ptr option" where
  "headProcQ tp s = (case tp of None \<Rightarrow> Some None | Some t \<Rightarrow> Some (p_next (pcbs s t)))"

section \<open>Process trees\<close>

definition emptyChild :: "ptr \<Rightarrow> 'a pcbmem_scheme \<Rightarrow> bool option" where
  "emptyChild p s = do { i \<leftarrow> p; Some (p_child (pcbs s i) = None) }"

definition insertChild :: "ptr \<Rightarrow> ptr \<Rightarrow> 'a pcbmem_scheme \<Rightarrow> 'a pcbmem_scheme option" where
  "insertChild prnt p s = do {
     r \<leftarrow> prnt;
     if emptyProcQ (p_child (pcbs s r)) then do {
       let s = upd_pcb r (p_child_update (\<lambda>_. p)) s;
       i \<leftarrow> p;
       let s = upd_pcb i (p_next_sib_update (\<lambda>_. p)) s;
       let s = upd_pcb i (p_prev_sib_update (\<lambda>_. p)) s;
       Some (upd_pcb i (p_prnt_update (\<lambda>_. prnt)) s)
     } else do {
       i \<leftarrow> p;
       t \<leftarrow> p_child (pcbs s r);
       let s = upd_pcb i (p_next_sib_update (\<lambda>_. p_next_sib (pcbs s t))) s;
       let s = upd_pcb i (p_prev_sib_update (\<lambda>_. p_child (pcbs s r))) s;
       h \<leftarrow> p_next_sib (pcbs s t);
       let s = upd_pcb h (p_prev_sib_update (\<lambda>_. p)) s;
       let s = upd_pcb t (p_next_sib_update (\<lambda>_. p)) s;
       let s = upd_pcb r (p_child_update (\<lambda>_. p)) s;
       Some (upd_pcb i (p_prnt_update (\<lambda>_. prnt)) s)
     }
   }"

definition removeChild :: "ptr \<Rightarrow> 'a pcbmem_scheme \<Rightarrow> (ptr \<times> 'a pcbmem_scheme) option" where
  "removeChild p s = do {
     i \<leftarrow> p;
     if p_child (pcbs s i) = None then Some (None, s)
     else do {
       t \<leftarrow> p_child (pcbs s i);
       let rm = p_next_sib (pcbs s t);
       r \<leftarrow> rm;
       let s = upd_pcb t (p_next_sib_update (\<lambda>_. p_next_sib (pcbs s r))) s;
       n \<leftarrow> p_next_sib (pcbs s r);
       let s = upd_pcb n (p_prev_sib_update (\<lambda>_. p_child (pcbs s i))) s;
       let s = (if rm = p_child (pcbs s i) then upd_pcb i (p_child_update (\<lambda>_. None)) s else s);
       Some (rm, upd_pcb r (p_prnt_update (\<lambda>_. None)) s)
     }
   }"

text \<open>The search loop of \<open>outChild\<close>.\<close>

partial_function (option) sib_find :: "ptr \<Rightarrow> ptr \<Rightarrow> nat \<Rightarrow> 'a pcbmem_scheme \<Rightarrow> nat option" where
  "sib_find tp p traverse s =
     (if Some traverse \<noteq> p \<and> p_next_sib (pcbs s traverse) \<noteq> tp
      then do { traverse \<leftarrow> p_next_sib (pcbs s traverse); sib_find tp p traverse s }
      else Some traverse)"

definition outChild :: "ptr \<Rightarrow> 'a pcbmem_scheme \<Rightarrow> (ptr \<times> 'a pcbmem_scheme) option" where
  "outChild p s = do {
     i \<leftarrow> p;
     let prnt = p_prnt (pcbs s i);
     if prnt = None then Some (None, s)
     else do {
       r \<leftarrow> prnt;
       if p_child (pcbs s r) = None then Some (None, s)
       else do {
         t \<leftarrow> p_child (pcbs s r);
         traverse \<leftarrow> sib_find (p_child (pcbs s r)) p t s;
         if Some traverse \<noteq> p then Some (None, s)
         else do {
           let next = p_next_sib (pcbs s i);
           let prev = p_prev_sib (pcbs s i);
           n \<leftarrow> next;
           let s = upd_pcb n (p_prev_sib_update (\<lambda>_. prev)) s;
           v \<leftarrow> prev;
           let s = upd_pcb v (p_next_sib_update (\<lambda>_. next)) s;
           let s = (if p_child (pcbs s r) = p
                    then (let s = upd_pcb r (p_child_update (\<lambda>_. p_prev_sib (pcbs s i))) s
                          in if p_child (pcbs s r) = p
                             then upd_pcb r (p_child_update (\<lambda>_. None)) s else s)
                    else s);
           let s = upd_pcb i (p_prev_sib_update (\<lambda>_. None)) s;
           let s = upd_pcb i (p_next_sib_update (\<lambda>_. None)) s;
           Some (p, upd_pcb i (p_prnt_update (\<lambda>_. None)) s)
         }
       }
     }
   }"

section \<open>The queue fields as a pair of pointer functions\<close>

abbreviation pnext :: "'a pcbmem_scheme \<Rightarrow> nat \<Rightarrow> ptr" where "pnext s i \<equiv> p_next (pcbs s i)"
abbreviation pprev :: "'a pcbmem_scheme \<Rightarrow> nat \<Rightarrow> ptr" where "pprev s i \<equiv> p_prev (pcbs s i)"
abbreviation pchild :: "'a pcbmem_scheme \<Rightarrow> nat \<Rightarrow> ptr" where "pchild s i \<equiv> p_child (pcbs s i)"
abbreviation pprnt :: "'a pcbmem_scheme \<Rightarrow> nat \<Rightarrow> ptr" where "pprnt s i \<equiv> p_prnt (pcbs s i)"
abbreviation snext :: "'a pcbmem_scheme \<Rightarrow> nat \<Rightarrow> ptr" where "snext s i \<equiv> p_next_sib (pcbs s i)"
abbreviation sprev :: "'a pcbmem_scheme \<Rightarrow> nat \<Rightarrow> ptr" where "sprev s i \<equiv> p_prev_sib (pcbs s i)"

text \<open>
  \<open>setq n v s\<close> is \<open>s\<close> with the queue fields of every pcb replaced. Each assignment of the
  code to such a field is an update of one of the two functions, so a queue operation
  evaluates to a \<open>setq\<close> whose functions the lemmas on rings speak about.
\<close>

definition setq :: "(nat \<Rightarrow> ptr) \<Rightarrow> (nat \<Rightarrow> ptr) \<Rightarrow> 'a pcbmem_scheme \<Rightarrow> 'a pcbmem_scheme" where
  "setq n v s = s\<lparr>pcbs := (\<lambda>i. (pcbs s i)\<lparr>p_next := n i, p_prev := v i\<rparr>)\<rparr>"

definition sett :: "(nat \<Rightarrow> ptr) \<Rightarrow> (nat \<Rightarrow> ptr) \<Rightarrow> (nat \<Rightarrow> ptr) \<Rightarrow> (nat \<Rightarrow> ptr) \<Rightarrow> 'a pcbmem_scheme \<Rightarrow> 'a pcbmem_scheme" where
  "sett c r n v s = s\<lparr>pcbs := (\<lambda>i. (pcbs s i)\<lparr>p_prnt := r i, p_child := c i, p_next_sib := n i, p_prev_sib := v i\<rparr>)\<rparr>"

named_theorems link_calc "evaluation of the pointer assignments"

lemma setq_id: "setq (pnext s) (pprev s) s = s"
  by (simp add: setq_def)

lemma setq_next [link_calc]: "upd_pcb i (p_next_update f) (setq n v s) = setq (n(i := f (n i))) v s"
  by (simp add: setq_def upd_pcb_def fun_eq_iff)

lemma setq_prev [link_calc]: "upd_pcb i (p_prev_update f) (setq n v s) = setq n (v(i := f (v i))) s"
  by (simp add: setq_def upd_pcb_def fun_eq_iff)

lemma setq_sel [link_calc]:
  "pcbs (setq n v s) i = (pcbs s i)\<lparr>p_next := n i, p_prev := v i\<rparr>"
  "pcbFree_h (setq n v s) = pcbFree_h s"
  by (simp_all add: setq_def)

lemma setq_setq [link_calc]: "setq n v (setq n' v' s) = setq n v s"
  by (simp add: setq_def)

lemma sett_id: "sett (pchild s) (pprnt s) (snext s) (sprev s) s = s"
  by (simp add: sett_def)

lemma sett_upd [link_calc]:
  "upd_pcb i (p_child_update f) (sett c r n v s) = sett (c(i := f (c i))) r n v s"
  "upd_pcb i (p_prnt_update f) (sett c r n v s) = sett c (r(i := f (r i))) n v s"
  "upd_pcb i (p_next_sib_update f) (sett c r n v s) = sett c r (n(i := f (n i))) v s"
  "upd_pcb i (p_prev_sib_update f) (sett c r n v s) = sett c r n (v(i := f (v i))) s"
  by (simp_all add: sett_def upd_pcb_def fun_eq_iff)

lemma sett_sel [link_calc]:
  "pcbs (sett c r n v s) i = (pcbs s i)\<lparr>p_prnt := r i, p_child := c i, p_next_sib := n i, p_prev_sib := v i\<rparr>"
  "pcbFree_h (sett c r n v s) = pcbFree_h s"
  by (simp_all add: sett_def)

lemma sett_sett [link_calc]: "sett c r n v (sett c' r' n' v' s) = sett c r n v s"
  by (simp add: sett_def)

lemma upd_pcb_sel [link_calc]:
  "pcbs (upd_pcb i f s) j = (if j = i then f (pcbs s i) else pcbs s j)"
  "pcbFree_h (upd_pcb i f s) = pcbFree_h s"
  by (simp_all add: upd_pcb_def)

section \<open>Representation\<close>

definition procQ :: "'a pcbmem_scheme \<Rightarrow> ptr \<Rightarrow> nat list \<Rightarrow> bool" where
  "procQ s tp xs \<longleftrightarrow> ring (pnext s) (pprev s) tp xs"

definition pcbFree :: "'a pcbmem_scheme \<Rightarrow> nat list \<Rightarrow> bool" where
  "pcbFree s xs \<longleftrightarrow> chain (pnext s) (pcbFree_h s) xs None \<and> distinct xs"

definition children :: "'a pcbmem_scheme \<Rightarrow> nat \<Rightarrow> nat list \<Rightarrow> bool" where
  "children s p xs \<longleftrightarrow> ring (snext s) (sprev s) (p_child (pcbs s p)) xs \<and>
     (\<forall>c\<in>set xs. p_prnt (pcbs s c) = Some p)"

text \<open>\<open>qframe A s s'\<close>: from \<open>s\<close> to \<open>s'\<close> only queue fields of the pcbs in \<open>A\<close> have changed.\<close>

definition qframe :: "nat set \<Rightarrow> 'a pcbmem_scheme \<Rightarrow> 'a pcbmem_scheme \<Rightarrow> bool" where
  "qframe A s s' \<longleftrightarrow>
     (\<exists>n v. s' = setq n v s \<and> (\<forall>i. i \<notin> A \<longrightarrow> n i = pnext s i \<and> v i = pprev s i))"

text \<open>
  \<open>tframe C A s s'\<close>: only \<open>p_child\<close> of the pcbs in \<open>C\<close> and the sibling and parent fields of the
  pcbs in \<open>A\<close> have changed.
\<close>

definition tframe :: "nat set \<Rightarrow> nat set \<Rightarrow> 'a pcbmem_scheme \<Rightarrow> 'a pcbmem_scheme \<Rightarrow> bool" where
  "tframe C A s s' \<longleftrightarrow>
     (\<exists>c r n v. s' = sett c r n v s \<and> (\<forall>i. i \<notin> C \<longrightarrow> c i = pchild s i) \<and>
        (\<forall>i. i \<notin> A \<longrightarrow> r i = pprnt s i \<and> n i = snext s i \<and> v i = sprev s i))"

lemma qframe_setq: "(\<And>i. i \<notin> A \<Longrightarrow> n i = pnext s i \<and> v i = pprev s i) \<Longrightarrow> qframe A s (setq n v s)"
  by (auto simp: qframe_def)

lemma qframe_refl [intro, simp]: "qframe A s s"
  unfolding qframe_def by (rule exI [of _ "pnext s"], rule exI [of _ "pprev s"]) (simp add: setq_id)

lemma qframe_trans: "qframe A s s' \<Longrightarrow> qframe B s' s'' \<Longrightarrow> qframe (A \<union> B) s s''"
  by (fastforce simp: qframe_def link_calc)

lemma qframe_mono: "qframe A s s' \<Longrightarrow> A \<subseteq> B \<Longrightarrow> qframe B s s'"
  by (fastforce simp: qframe_def)

lemma qframe_pcb [frame_simps]:
  assumes "qframe A s s'"
  shows "p_prnt (pcbs s' i) = p_prnt (pcbs s i)" "p_child (pcbs s' i) = p_child (pcbs s i)"
    "snext s' i = snext s i" "sprev s' i = sprev s i" "p_s (pcbs s' i) = p_s (pcbs s i)"
    "p_time (pcbs s' i) = p_time (pcbs s i)" "p_semAdd (pcbs s' i) = p_semAdd (pcbs s i)"
    "p_supportStruct (pcbs s' i) = p_supportStruct (pcbs s i)" "pcbFree_h s' = pcbFree_h s"
    "more s' = more s"
  using assms by (auto simp: qframe_def setq_def)

lemma qframe_links [frame_simps]:
  "qframe A s s' \<Longrightarrow> i \<notin> A \<Longrightarrow> pnext s' i = pnext s i"
  "qframe A s s' \<Longrightarrow> i \<notin> A \<Longrightarrow> pprev s' i = pprev s i"
  by (auto simp: qframe_def link_calc)

lemma qframe_disjoint:
  "\<lbrakk>qframe A s s'; A \<inter> set xs = {}; x \<in> set xs\<rbrakk> \<Longrightarrow> pnext s' x = pnext s x \<and> pprev s' x = pprev s x"
  by (meson disjoint_iff qframe_links)

lemma qframe_procQ [frame_simps]: "qframe A s s' \<Longrightarrow> A \<inter> set xs = {} \<Longrightarrow> procQ s' tp xs = procQ s tp xs"
  unfolding procQ_def by (rule ring_cong) (simp_all add: qframe_disjoint)

lemma qframe_children [frame_simps]: "qframe A s s' \<Longrightarrow> children s' p xs = children s p xs"
  by (simp add: children_def frame_simps)

lemma qframe_pcbFree [frame_simps]: "qframe A s s' \<Longrightarrow> A \<inter> set xs = {} \<Longrightarrow> pcbFree s' xs = pcbFree s xs"
  unfolding pcbFree_def
  by (subst chain_cong [of xs "pnext s'" "pnext s"]) (simp_all add: qframe_disjoint qframe_pcb)

lemma tframe_sett:
  "\<lbrakk>\<And>i. i \<notin> C \<Longrightarrow> c i = pchild s i; \<And>i. i \<notin> A \<Longrightarrow> r i = pprnt s i \<and> n i = snext s i \<and> v i = sprev s i\<rbrakk>
   \<Longrightarrow> tframe C A s (sett c r n v s)"
  unfolding tframe_def by blast

lemma tframe_refl [intro, simp]: "tframe C A s s"
  using tframe_sett [of C "pchild s" s A "pprnt s" "snext s" "sprev s"] by (simp add: sett_id)

lemma tframe_mono: "tframe C A s s' \<Longrightarrow> C \<subseteq> C' \<Longrightarrow> A \<subseteq> A' \<Longrightarrow> tframe C' A' s s'"
  unfolding tframe_def by (elim exE conjE, intro exI conjI) (assumption, auto)

lemma tframe_pcb [frame_simps]:
  assumes "tframe C A s s'"
  shows "pnext s' i = pnext s i" "pprev s' i = pprev s i" "p_s (pcbs s' i) = p_s (pcbs s i)"
    "p_time (pcbs s' i) = p_time (pcbs s i)" "p_semAdd (pcbs s' i) = p_semAdd (pcbs s i)"
    "p_supportStruct (pcbs s' i) = p_supportStruct (pcbs s i)" "pcbFree_h s' = pcbFree_h s"
    "more s' = more s"
  using assms by (auto simp: tframe_def sett_def)

lemma tframe_links [frame_simps]:
  "tframe C A s s' \<Longrightarrow> i \<notin> C \<Longrightarrow> pchild s' i = pchild s i"
  "tframe C A s s' \<Longrightarrow> i \<notin> A \<Longrightarrow> pprnt s' i = pprnt s i"
  "tframe C A s s' \<Longrightarrow> i \<notin> A \<Longrightarrow> snext s' i = snext s i"
  "tframe C A s s' \<Longrightarrow> i \<notin> A \<Longrightarrow> sprev s' i = sprev s i"
  by (auto simp: tframe_def link_calc)

lemma tframe_procQ [frame_simps]: "tframe C A s s' \<Longrightarrow> procQ s' tp xs = procQ s tp xs"
  by (simp add: procQ_def frame_simps)

lemma tframe_pcbFree [frame_simps]: "tframe C A s s' \<Longrightarrow> pcbFree s' xs = pcbFree s xs"
  by (simp add: pcbFree_def frame_simps)

lemma tframe_children [frame_simps]:
  assumes "tframe C A s s'" "p \<notin> C" "A \<inter> set xs = {}"
  shows "children s' p xs = children s p xs"
proof -
  have out: "x \<in> set xs \<Longrightarrow> x \<notin> A" for x using assms(3) by auto
  have "ring (snext s') (sprev s') (pchild s p) xs = ring (snext s) (sprev s) (pchild s p) xs"
    using assms(1) out by (intro ring_cong) (simp_all add: tframe_links)
  then show ?thesis using assms out by (auto simp: children_def tframe_links)
qed

lemma procQ_setq [link_calc]: "procQ (setq n v s) tp xs = ring n v tp xs"
  by (simp add: procQ_def setq_sel)

lemma procQ_distinct: "procQ s tp xs \<Longrightarrow> distinct xs"
  by (simp add: procQ_def ring_distinct)

lemma procQ_None [simp]: "procQ s None xs \<longleftrightarrow> xs = []"
  by (simp add: procQ_def)

lemma procQ_Nil [simp]: "procQ s tp [] \<longleftrightarrow> tp = None"
  by (simp add: procQ_def)

lemma procQ_tail: "procQ s (Some t) xs \<Longrightarrow> xs \<noteq> [] \<and> t = last xs"
  by (auto simp: procQ_def ring_def split: if_splits)

section \<open>Process queues: every operation on every branch\<close>

lemma q_find_links:
  assumes "links (pnext s) v (x # ys)" and "ys \<noteq> []" and "last ys \<notin> set (butlast ys)"
  shows "q_find (Some (last ys)) (Some p) x s =
    Some (if p \<in> set (x # butlast ys) then p else last (x # butlast ys))"
  using assms
proof (induction ys arbitrary: x)
  case (Cons y ys)
  show ?case
  proof (cases "ys = []")
    case True
    with Cons.prems show ?thesis by (subst q_find.simps) auto
  next
    case False
    with Cons.prems have "pnext s x = Some y" and "y \<noteq> last ys"
      by (cases ys; auto)+
    moreover have "q_find (Some (last ys)) (Some p) y s =
        Some (if p \<in> set (y # butlast ys) then p else last (y # butlast ys))"
      using Cons.prems False by (intro Cons.IH) auto
    ultimately show ?thesis using False by (subst q_find.simps) auto
  qed
qed simp

lemma q_find_ring:
  assumes "procQ s (Some t) xs"
  shows "\<exists>x. q_find (Some t) (Some p) t s = Some x \<and> (x = p \<longleftrightarrow> p \<in> set xs)"
proof -
  have t: "t = last xs" and ne: "xs \<noteq> []" and d: "distinct xs" and l: "links (pnext s) (pprev s) (t # xs)"
    using assms by (auto simp: procQ_def ring_def split: if_splits)
  have n: "last xs \<notin> set (butlast xs)" using d ne by (rule last_notin_butlast)
  have eq: "set (t # butlast xs) = set xs"
    using ne append_butlast_last_id [OF ne] by (metis t rotate1.simps(2) set_rotate1)
  define y where "y = last (t # butlast xs)"
  have "y \<in> set xs" using last_in_set [of "t # butlast xs"] unfolding eq y_def by blast
  moreover have "q_find (Some t) (Some p) t s = Some (if p \<in> set xs then p else y)"
    using q_find_links [OF l ne n, of p] unfolding eq t [symmetric] y_def .
  ultimately show ?thesis by auto
qed

lemma insertProcQ_spec:
  assumes q: "procQ s tp xs" and p: "p \<notin> set xs"
  shows "\<exists>s'. insertProcQ tp (Some p) s = Some (Some p, s') \<and> procQ s' (Some p) (xs @ [p]) \<and>
              qframe (insert p (set xs)) s s'"
proof -
  let ?n = "pnext s" and ?v = "pprev s"
  show ?thesis
  proof (cases tp)
    case None
    with q have "xs = []" by simp
    have "insertProcQ None (Some p) (setq ?n ?v s) = Some (Some p, setq (?n(p := Some p)) (?v(p := Some p)) s)"
      by (simp add: insertProcQ_def emptyProcQ_def link_calc)
    moreover have "procQ (setq (?n(p := Some p)) (?v(p := Some p)) s) (Some p) [p]"
      by (simp add: link_calc ring_first)
    moreover have "qframe {p} s (setq (?n(p := Some p)) (?v(p := Some p)) s)"
      by (rule qframe_setq) simp
    ultimately show ?thesis using None \<open>xs = []\<close> by (simp add: setq_id)
  next
    case (Some t)
    have ne: "xs \<noteq> []" and t: "t = last xs" using q procQ_tail Some by auto
    with p have tp: "t \<noteq> p" and "hd xs \<noteq> p" by auto
    have nt: "?n t = Some (hd xs)" using ring_hd [of ?n ?v t xs] q Some by (simp add: procQ_def)
    let ?n' = "?n(p := ?n t, t := Some p)" and ?v' = "?v(p := Some t, hd xs := Some p)"
    have "insertProcQ tp (Some p) (setq ?n ?v s) = Some (Some p, setq ?n' ?v' s)"
      using tp nt by (simp add: insertProcQ_def emptyProcQ_def link_calc Some)
    moreover have "procQ (setq ?n' ?v' s) (Some p) (xs @ [p])"
      using ring_insert(2) [OF q [unfolded procQ_def Some] p] by (simp add: link_calc)
    moreover have "qframe (insert p (set xs)) s (setq ?n' ?v' s)"
      using ne by (intro qframe_setq) (auto simp: t)
    ultimately show ?thesis by (simp add: setq_id)
  qed
qed

lemma removeProcQ_Nil: "procQ s tp [] \<Longrightarrow> removeProcQ tp s = Some (None, None, s)"
  by (simp add: removeProcQ_def)

lemma removeProcQ_Cons:
  assumes q: "procQ s tp (x # xs)"
  shows "\<exists>tp' s'. removeProcQ tp s = Some (Some x, tp', s') \<and> procQ s' tp' xs \<and> qframe (set (x # xs)) s s'"
proof -
  let ?n = "pnext s" and ?v = "pprev s"
  from q obtain t where tp: "tp = Some t" by (cases tp) auto
  have t: "t = last (x # xs)" using q procQ_tail tp by blast
  have nt: "?n t = Some x" using ring_hd [of ?n ?v t "x # xs"] q tp by (simp add: procQ_def)
  show ?thesis
  proof (cases "xs = []")
    case True
    then have "t = x" using t by simp
    with nt True q tp have "?n x = Some x" by simp
    have eq: "removeProcQ tp (setq ?n ?v s) = Some (Some x, None, setq ?n (?v(x := Some x)) s)"
      using nt \<open>t = x\<close> by (simp add: removeProcQ_def Let_def link_calc fun_upd_idem tp)
    have "qframe (set (x # xs)) s (setq ?n (?v(x := Some x)) s)" by (rule qframe_setq) simp
    then show ?thesis using eq True by (auto simp: setq_id)
  next
    case False
    have r: "ring ?n ?v (Some t) ([] @ x # xs)" using q tp by (simp add: procQ_def)
    note u = ring_unlink [OF r, simplified, OF False]
    have tx: "t = last xs" "t \<noteq> x" using procQ_distinct [OF q] False by (auto simp: t)
    let ?n' = "?n(t := Some (hd xs))" and ?v' = "?v(hd xs := Some t)"
    have eq: "removeProcQ tp (setq ?n ?v s) = Some (Some x, Some t, setq ?n' ?v' s)"
      using nt tx(2) u(1) by (simp add: removeProcQ_def Let_def link_calc fun_upd_idem tp)
    have "procQ (setq ?n' ?v' s) (Some t) xs"
      using u(3) tx by (simp add: link_calc)
    moreover have "qframe (set (x # xs)) s (setq ?n' ?v' s)"
      using False by (intro qframe_setq) (auto simp: tx)
    ultimately show ?thesis using eq by (auto simp: setq_id)
  qed
qed

lemma headProcQ_spec: "procQ s tp xs \<Longrightarrow> headProcQ tp s = Some (if xs = [] then None else Some (hd xs))"
  by (cases tp) (auto simp: headProcQ_def procQ_def dest: ring_hd)

lemma outProcQ_absent:
  assumes q: "procQ s tp xs" and p: "p \<notin> set xs"
  shows "outProcQ tp (Some p) s = Some (None, tp, s)"
proof (cases tp)
  case (Some t)
  obtain x where "q_find (Some t) (Some p) t s = Some x" "x \<noteq> p"
    using q_find_ring [of s t xs p] q p Some by auto
  then show ?thesis by (simp add: outProcQ_def Some)
qed (simp add: outProcQ_def)

lemma outProcQ_present:
  assumes q: "procQ s tp xs" and p: "p \<in> set xs"
  shows "\<exists>tp' s'. outProcQ tp (Some p) s = Some (Some p, tp', s') \<and> procQ s' tp' (remove1 p xs) \<and>
                  pnext s' p = None \<and> pprev s' p = None \<and> qframe (set xs) s s'"
proof -
  let ?n = "pnext s" and ?v = "pprev s"
  from q p obtain t where tp: "tp = Some t" by (cases tp) auto
  have t: "t = last xs" using q procQ_tail tp by blast
  have f: "q_find (Some t) (Some p) t (setq ?n ?v s) = Some p"
    using q_find_ring [of s t xs p] q p tp by (auto simp: setq_id)
  obtain as bs where xs: "xs = as @ p # bs" using p by (auto simp: in_set_conv_decomp)
  have d: "distinct xs" using procQ_distinct [OF q] .
  then have rm: "remove1 p xs = as @ bs" by (auto simp: xs remove1_append)
  show ?thesis
  proof (cases "as @ bs = []")
    case True
    with q tp xs have pp: "?n p = Some p" "?v p = Some p" "t = p"
      by (auto simp: procQ_def ring_def)
    have "outProcQ tp (Some p) (setq ?n ?v s) = Some (Some p, None, setq (?n(p := None)) (?v(p := None)) s)"
      using f pp by (simp add: outProcQ_def Let_def link_calc tp)
    moreover have "qframe (set xs) s (setq (?n(p := None)) (?v(p := None)) s)"
      using p by (intro qframe_setq) auto
    ultimately show ?thesis using True by (auto simp: setq_id rm link_calc)
  next
    case False
    let ?l = "last (bs @ as)" and ?h = "hd (bs @ as)"
    have r: "ring ?n ?v (Some t) (as @ p # bs)" using q tp xs by (simp add: procQ_def)
    note u = ring_unlink [OF r False]
    have lh: "?l \<in> set xs" "?h \<in> set xs" "?l \<noteq> p" "?h \<noteq> p"
      using d False xs last_in_set [of "bs @ as"] hd_in_set [of "bs @ as"] by auto
    let ?n' = "?n(?l := Some ?h, p := None)" and ?v' = "?v(?h := Some ?l, p := None)"
    let ?tp = "Some (if t = p then ?l else t)"
    have "outProcQ tp (Some p) (setq ?n ?v s) = Some (Some p, ?tp, setq ?n' ?v' s)"
      using f u(1,2) lh(3,4) by (simp add: outProcQ_def Let_def link_calc tp)
    moreover have "procQ (setq ?n' ?v' s) ?tp (as @ bs)"
      using u(3) d xs by (simp add: link_calc ring_upd)
    moreover have "qframe (set xs) s (setq ?n' ?v' s)"
      using lh p by (intro qframe_setq) auto
    ultimately show ?thesis by (auto simp: setq_id rm link_calc)
  qed
qed

section \<open>Process trees: every operation on every branch\<close>

lemma sib_find_links:
  assumes "links (snext s) v (x # ys)" and "ys \<noteq> []" and "last ys \<notin> set (butlast ys)"
  shows "sib_find (Some (last ys)) (Some p) x s =
    Some (if p \<in> set (x # butlast ys) then p else last (x # butlast ys))"
  using assms
proof (induction ys arbitrary: x)
  case (Cons y ys)
  show ?case
  proof (cases "ys = []")
    case True
    with Cons.prems show ?thesis by (subst sib_find.simps) auto
  next
    case False
    with Cons.prems have "snext s x = Some y" and "y \<noteq> last ys"
      by (cases ys; auto)+
    moreover have "sib_find (Some (last ys)) (Some p) y s =
        Some (if p \<in> set (y # butlast ys) then p else last (y # butlast ys))"
      using Cons.prems False by (intro Cons.IH) auto
    ultimately show ?thesis using False by (subst sib_find.simps) auto
  qed
qed simp

lemma sib_find_ring:
  assumes r: "ring (snext s) (sprev s) (Some t) xs" and p: "p \<in> set xs"
  shows "sib_find (Some t) (Some p) t s = Some p"
proof -
  have t: "t = last xs" and ne: "xs \<noteq> []" and d: "distinct xs" and l: "links (snext s) (sprev s) (t # xs)"
    using r by (auto simp: ring_def split: if_splits)
  have n: "last xs \<notin> set (butlast xs)" using d ne by (rule last_notin_butlast)
  have eq: "set (t # butlast xs) = set xs"
    using ne append_butlast_last_id [OF ne] by (metis t rotate1.simps(2) set_rotate1)
  show ?thesis using sib_find_links [OF l ne n, of p] p unfolding eq t [symmetric] by simp
qed

lemma children_distinct: "children s p xs \<Longrightarrow> distinct xs"
  by (auto simp: children_def dest: ring_distinct)

lemma children_sett [link_calc]:
  "children (sett c r n v s) p xs \<longleftrightarrow> ring n v (c p) xs \<and> (\<forall>x\<in>set xs. r x = Some p)"
  by (simp add: children_def link_calc)

lemma emptyChild_spec: "children s p xs \<Longrightarrow> emptyChild (Some p) s = Some (xs = [])"
  by (auto simp: emptyChild_def children_def ring_def split: if_splits)

lemma insertChild_spec:
  assumes c: "children s r xs" and p: "p \<notin> set xs"
  shows "\<exists>s'. insertChild (Some r) (Some p) s = Some s' \<and> children s' r (xs @ [p]) \<and>
              tframe {r} (insert p (set xs)) s s'"
proof -
  let ?c = "pchild s" and ?r = "pprnt s" and ?n = "snext s" and ?v = "sprev s"
  have rg: "ring ?n ?v (?c r) xs" and pr: "\<forall>x\<in>set xs. ?r x = Some r" using c by (auto simp: children_def)
  show ?thesis
  proof (cases "?c r")
    case None
    with rg have "xs = []" by simp
    let ?s' = "sett (?c(r := Some p)) (?r(p := Some r)) (?n(p := Some p)) (?v(p := Some p)) s"
    have "insertChild (Some r) (Some p) (sett ?c ?r ?n ?v s) = Some ?s'"
      using None by (simp add: insertChild_def emptyProcQ_def Let_def link_calc)
    moreover have "children ?s' r [p]" by (simp add: link_calc ring_first)
    moreover have "tframe {r} {p} s ?s'" by (rule tframe_sett) simp_all
    ultimately show ?thesis using \<open>xs = []\<close> by (simp add: sett_id)
  next
    case (Some t)
    have ne: "xs \<noteq> []" and t: "t = last xs" using rg Some by (auto simp: ring_def split: if_splits)
    with p have tp: "t \<noteq> p" and hp: "hd xs \<noteq> p" by auto
    have rg': "ring ?n ?v (Some t) xs" using rg Some by simp
    have nt: "?n t = Some (hd xs)" using ring_hd [OF rg'] .
    let ?s' = "sett (?c(r := Some p)) (?r(p := Some r)) (?n(p := ?n t, t := Some p))
                 (?v(p := Some t, hd xs := Some p)) s"
    have "insertChild (Some r) (Some p) (sett ?c ?r ?n ?v s) = Some ?s'"
      using tp nt Some by (simp add: insertChild_def emptyProcQ_def Let_def link_calc)
    moreover have "children ?s' r (xs @ [p])"
      using ring_insert(2) [OF rg' p] pr by (simp add: link_calc)
    moreover have "tframe {r} (insert p (set xs)) s ?s'"
      using ne by (intro tframe_sett) (auto simp: t)
    ultimately show ?thesis by (simp add: sett_id)
  qed
qed

lemma removeChild_Nil: "children s r [] \<Longrightarrow> removeChild (Some r) s = Some (None, s)"
  by (simp add: removeChild_def children_def)

lemma removeChild_Cons:
  assumes c: "children s r (x # xs)"
  shows "\<exists>s'. removeChild (Some r) s = Some (Some x, s') \<and> children s' r xs \<and> pprnt s' x = None \<and>
              tframe {r} (set (x # xs)) s s'"
proof -
  let ?c = "pchild s" and ?r = "pprnt s" and ?n = "snext s" and ?v = "sprev s"
  from c obtain t where t: "?c r = Some t" and rg: "ring ?n ?v (Some t) (x # xs)"
    by (auto simp: children_def ring_def)
  have pr: "\<forall>y\<in>set xs. ?r y = Some r" using c by (auto simp: children_def)
  have tl: "t = last (x # xs)" using rg by (auto simp: ring_def)
  have nt: "?n t = Some x" using ring_hd [OF rg] by simp
  have d: "x \<notin> set xs" using ring_distinct [OF rg] by simp
  show ?thesis
  proof (cases "xs = []")
    case True
    then have "t = x" using tl by simp
    then have nx: "?n x = Some x" and cx: "?c r = Some x" using nt t by simp_all
    let ?s' = "sett (?c(r := None)) (?r(x := None)) (?n(x := Some x)) (?v(x := Some x)) s"
    have "removeChild (Some r) (sett ?c ?r ?n ?v s) = Some (Some x, ?s')"
      using nx cx by (auto simp: removeChild_def Let_def link_calc)
    moreover have "children ?s' r []" by (simp add: link_calc)
    moreover have "tframe {r} {x} s ?s'" by (rule tframe_sett) simp_all
    ultimately show ?thesis using True by (auto simp add: sett_id link_calc)
  next
    case False
    note u = ring_unlink [of ?n ?v t "[]" x xs, simplified, OF rg False]
    have tx: "t = last xs" "t \<noteq> x" using d False by (auto simp: tl)
    let ?s' = "sett ?c (?r(x := None)) (?n(t := Some (hd xs))) (?v(hd xs := Some t)) s"
    have "removeChild (Some r) (sett ?c ?r ?n ?v s) = Some (Some x, ?s')"
      using nt tx(2) u(1) t by (auto simp: removeChild_def Let_def link_calc)
    moreover have "ring (?n(t := Some (hd xs))) (?v(hd xs := Some t)) (Some t) xs"
      using u(3) tx(2) unfolding tx(1) [symmetric] by simp
    then have "children ?s' r xs" using t pr d by (auto simp: link_calc)
    moreover have "tframe {r} (set (x # xs)) s ?s'"
      using False by (intro tframe_sett) (auto simp: tx)
    ultimately show ?thesis by (simp add: sett_id link_calc)
  qed
qed

lemma outChild_orphan: "pprnt s p = None \<Longrightarrow> outChild (Some p) s = Some (None, s)"
  by (simp add: outChild_def)

lemma outChild_present:
  assumes c: "children s r xs" and p: "p \<in> set xs"
  shows "\<exists>s'. outChild (Some p) s = Some (Some p, s') \<and> children s' r (remove1 p xs) \<and> pprnt s' p = None \<and>
              tframe {r} (set xs) s s'"
proof -
  let ?c = "pchild s" and ?r = "pprnt s" and ?n = "snext s" and ?v = "sprev s"
  from c p obtain t where t: "?c r = Some t" and rg: "ring ?n ?v (Some t) xs"
    by (auto simp: children_def ring_def split: if_splits)
  have pr: "\<forall>y\<in>set xs. ?r y = Some r" using c by (auto simp: children_def)
  have tl: "t = last xs" using rg by (auto simp: ring_def split: if_splits)
  have f: "sib_find (Some t) (Some p) t (sett ?c ?r ?n ?v s) = Some p"
    using sib_find_ring [OF rg p] by (simp add: sett_id)
  obtain as bs where xs: "xs = as @ p # bs" using p by (auto simp: in_set_conv_decomp)
  have d: "distinct xs" using ring_distinct [OF rg] .
  then have rm: "remove1 p xs = as @ bs" by (auto simp: xs remove1_append)
  show ?thesis
  proof (cases "as @ bs = []")
    case True
    with rg xs have pp: "?n p = Some p" "?v p = Some p" "t = p" by (auto simp: ring_def)
    let ?s' = "sett (?c(r := None)) (?r(p := None)) (?n(p := None)) (?v(p := None)) s"
    have "outChild (Some p) (sett ?c ?r ?n ?v s) = Some (Some p, ?s')"
      using f pp pr p t by (auto simp: outChild_def Let_def link_calc)
    moreover have "children ?s' r []" by (simp add: link_calc)
    moreover have "tframe {r} (set xs) s ?s'" using p by (intro tframe_sett) auto
    ultimately show ?thesis using True by (auto simp: sett_id rm link_calc)
  next
    case False
    define l h where lh_def: "l = last (bs @ as)" "h = hd (bs @ as)"
    have rg': "ring ?n ?v (Some t) (as @ p # bs)" using rg xs by simp
    note u = ring_unlink [OF rg' False, folded lh_def]
    have lh: "l \<in> set xs" "h \<in> set xs" "l \<noteq> p" "h \<noteq> p"
      using d False xs last_in_set [of "bs @ as"] hd_in_set [of "bs @ as"] by (auto simp: lh_def)
    let ?n' = "?n(l := Some h, p := None)" and ?v' = "?v(h := Some l, p := None)"
    let ?t = "if t = p then l else t"
    let ?s' = "sett (?c(r := Some ?t)) (?r(p := None)) ?n' ?v' s"
    have "outChild (Some p) (sett ?c ?r ?n ?v s) = Some (Some p, ?s')"
      using f u(1,2) lh(3,4) pr p t
      by (cases "t = p") (auto simp: outChild_def Let_def link_calc fun_upd_idem)
    moreover have "children ?s' r (as @ bs)"
      using u(3) d xs pr by (auto simp: link_calc ring_upd)
    moreover have "tframe {r} (set xs) s ?s'" using lh p by (intro tframe_sett) auto
    ultimately show ?thesis by (auto simp: sett_id rm link_calc)
  qed
qed

section \<open>Allocation: every operation on every branch\<close>

text \<open>\<open>pframe A s s'\<close>: only pcbs of \<open>A\<close> and the head of the free list have changed.\<close>

definition pframe :: "nat set \<Rightarrow> 'a pcbmem_scheme \<Rightarrow> 'a pcbmem_scheme \<Rightarrow> bool" where
  "pframe A s s' \<longleftrightarrow> (\<forall>i. i \<notin> A \<longrightarrow> pcbs s' i = pcbs s i) \<and> more s' = more s"

lemma pframe_procQ [frame_simps]: "pframe A s s' \<Longrightarrow> A \<inter> set xs = {} \<Longrightarrow> procQ s' tp xs = procQ s tp xs"
  unfolding procQ_def by (rule ring_cong) (auto simp: pframe_def disjoint_iff)

lemma pframe_children [frame_simps]:
  assumes "pframe A s s'" "p \<notin> A" "A \<inter> set xs = {}"
  shows "children s' p xs = children s p xs"
proof -
  have eq: "x \<in> set xs \<Longrightarrow> pcbs s' x = pcbs s x" for x using assms by (auto simp: pframe_def)
  have "ring (snext s') (sprev s') (pchild s p) xs = ring (snext s) (sprev s) (pchild s p) xs"
    by (rule ring_cong) (simp_all add: eq)
  with assms eq show ?thesis by (auto simp: children_def pframe_def)
qed

definition fresh_pcb :: pcb_t where
  "fresh_pcb = \<lparr>p_next = None, p_prev = None, p_prnt = None, p_child = None, p_next_sib = None,
     p_prev_sib = None, p_s = \<lparr>s_entryHI = 0, s_cause = 0, s_status = 0, s_pc = 0, s_reg = (\<lambda>_. 0)\<rparr>,
     p_time = 0, p_semAdd = NULL, p_supportStruct = NULL\<rparr>"

lemma freePcb_spec:
  assumes f: "pcbFree s fl" and p: "p \<notin> set fl"
  shows "\<exists>s'. freePcb (Some p) s = Some s' \<and> pcbFree s' (p # fl) \<and> pframe {p} s s'"
proof -
  let ?s' = "(upd_pcb p (p_next_update (\<lambda>_. pcbFree_h s)) s)\<lparr>pcbFree_h := Some p\<rparr>"
  have "chain (pnext ?s') (pcbFree_h s) fl None = chain (pnext s) (pcbFree_h s) fl None"
    using p by (intro chain_cong) (auto simp: upd_pcb_def)
  then have "pcbFree ?s' (p # fl)" using f p by (simp add: pcbFree_def upd_pcb_def)
  moreover have "pframe {p} s ?s'" by (simp add: pframe_def upd_pcb_def)
  ultimately show ?thesis by (auto simp: freePcb_def)
qed

lemma allocPcb_empty: "pcbFree s [] \<Longrightarrow> allocPcb s = Some (None, s)"
  by (simp add: allocPcb_def pcbFree_def)

lemma fold_upd_pcb:
  "fold (\<lambda>r. upd_pcb a (f r)) rs s = upd_pcb a (fold f rs) s"
  by (induction rs arbitrary: s) (auto simp: upd_pcb_def fun_eq_iff)

lemma fold_clear_regs:
  "fold (\<lambda>r p. p\<lparr>p_s := set_reg r 0 (p_s p)\<rparr>) rs p =
     p\<lparr>p_s := (p_s p)\<lparr>s_reg := (\<lambda>r. if r \<in> set rs then 0 else s_reg (p_s p) r)\<rparr>\<rparr>"
  by (induction rs arbitrary: p) (auto simp: set_reg_def fun_eq_iff intro!: pcb_t.equality state_t.equality)

lemma clear_pcb:
  "p\<lparr>p_child := None, p_next := None, p_prev := None, p_prnt := None, p_next_sib := None, p_prev_sib := None,
     p_s := st\<lparr>s_entryHI := 0, s_cause := 0, s_status := 0, s_pc := 0, s_reg := (\<lambda>r. 0)\<rparr>,
     p_time := 0, p_semAdd := NULL, p_supportStruct := NULL\<rparr> = fresh_pcb" for p :: pcb_t and st :: state_t
  by (simp add: fresh_pcb_def)

lemma allocPcb_eval:
  assumes "pcbFree_h s = Some a"
  shows "allocPcb s = Some (Some a, (upd_pcb a (\<lambda>_. fresh_pcb) s)\<lparr>pcbFree_h := pnext s a\<rparr>)"
  using assms
  by (simp add: allocPcb_def Let_def fold_upd_pcb fold_clear_regs set_all_regs upd_pcb_def clear_pcb)

lemma allocPcb_spec:
  assumes f: "pcbFree s (a # fl)"
  shows "\<exists>s'. allocPcb s = Some (Some a, s') \<and> pcbFree s' fl \<and> pcbs s' a = fresh_pcb \<and> pframe {a} s s'"
proof -
  let ?s' = "(upd_pcb a (\<lambda>_. fresh_pcb) s)\<lparr>pcbFree_h := pnext s a\<rparr>"
  have a: "pcbFree_h s = Some a" "a \<notin> set fl" using f by (auto simp: pcbFree_def)
  have "chain (pnext ?s') (pnext s a) fl None = chain (pnext s) (pnext s a) fl None"
    using a by (intro chain_cong) (auto simp: upd_pcb_def)
  then have "pcbFree ?s' fl" using f by (simp add: pcbFree_def upd_pcb_def)
  moreover have "pframe {a} s ?s'" "pcbs ?s' a = fresh_pcb" by (simp_all add: pframe_def upd_pcb_def)
  ultimately show ?thesis using allocPcb_eval [OF a(1)] by blast
qed

lemma initPcbs_links:
  assumes "n \<le> m"
  shows "pnext (fold (\<lambda>i. upd_pcb i (p_next_update (\<lambda>_. Some (i + 1)))) [0..<n] s) =
     (\<lambda>i. if i < n then Some (i + 1) else pnext s i)"
  by (induction n) (auto simp: upd_pcb_def fun_eq_iff less_Suc_eq)

lemma chain_upt:
  "i \<le> n \<Longrightarrow> (\<And>j. i \<le> j \<Longrightarrow> j < n \<Longrightarrow> nxt j = (if j + 1 = n then None else Some (j + 1))) \<Longrightarrow>
   chain nxt (if i = n then None else Some i) [i..<n] None"
proof (induction "n - i" arbitrary: i)
  case (Suc k)
  then have "i < n" by simp
  then have "[i..<n] = i # [i + 1..<n]" by (simp add: upt_conv_Cons)
  moreover have "chain nxt (if i + 1 = n then None else Some (i + 1)) [i + 1..<n] None"
    using Suc \<open>i < n\<close> by (intro Suc.hyps) auto
  ultimately show ?case using Suc.prems \<open>i < n\<close> by auto
qed simp

lemma initPcbs_spec: "pcbFree (initPcbs s) [0..<MAXPROC]"
proof -
  have n: "pnext (initPcbs s) = (\<lambda>i. if i < 19 then Some (i + 1) else if i = 19 then None else pnext s i)"
    using initPcbs_links [of 19 19 "s\<lparr>pcbFree_h := Some 0\<rparr>"]
    by (auto simp: initPcbs_def Let_def MAXPROC_def upd_pcb_def fun_eq_iff)
  have h: "pcbFree_h (fold (\<lambda>i. upd_pcb i (f i)) xs s') = pcbFree_h s'" for f xs and s' :: "'a pcbmem_scheme"
    by (induction xs arbitrary: s') (auto simp: upd_pcb_def)
  have "chain (pnext (initPcbs s)) (Some 0) [0..<20] None"
  proof -
    have "chain (pnext (initPcbs s)) (if 0 = (20::nat) then None else Some 0) [0..<20] None"
      by (rule chain_upt) (auto simp: fun_cong [OF n])
    then show ?thesis by simp
  qed
  moreover have "pcbFree_h (initPcbs s) = Some 0"
    by (simp add: initPcbs_def Let_def h upd_pcb_sel)
  ultimately show ?thesis by (simp add: pcbFree_def MAXPROC_def)
qed

section \<open>The queue contract\<close>

definition queue_rep :: "ptr \<times> 'a pcbmem_scheme \<Rightarrow> nat set \<Rightarrow> nat list \<Rightarrow> bool" where
  "queue_rep q F xs \<longleftrightarrow> procQ (snd q) (fst q) xs \<and> F \<inter> set xs = {}"

definition queue_put :: "nat \<Rightarrow> ptr \<times> 'a pcbmem_scheme \<Rightarrow> (ptr \<times> 'a pcbmem_scheme) option" where
  "queue_put p q = insertProcQ (fst q) (Some p) (snd q)"

definition queue_get :: "ptr \<times> 'a pcbmem_scheme \<Rightarrow> (ptr \<times> ptr \<times> 'a pcbmem_scheme) option" where
  "queue_get q = removeProcQ (fst q) (snd q)"

lemmas queue_defs = queue_rep_def queue_put_def queue_get_def

interpretation pq: fifo queue_rep queue_put queue_get
proof
  fix q :: "ptr \<times> 'a pcbmem_scheme" and F xs p
  assume r: "queue_rep q F xs" and p: "p \<in> F"
  then have "p \<notin> set xs" by (auto simp: queue_rep_def)
  then obtain s' where "insertProcQ (fst q) (Some p) (snd q) = Some (Some p, s')" "procQ s' (Some p) (xs @ [p])"
    using insertProcQ_spec [of "snd q" "fst q" xs p] r by (auto simp: queue_rep_def)
  then show "\<exists>q'. queue_put p q = Some q' \<and> queue_rep q' (F - {p}) (xs @ [p])"
    using r by (auto simp: queue_defs)
next
  fix q :: "ptr \<times> 'a pcbmem_scheme" and F
  assume "queue_rep q F []"
  then show "queue_get q = Some (None, q)"
    using removeProcQ_Nil [of "snd q" "fst q"] by (cases q) (simp add: queue_defs)
next
  fix q :: "ptr \<times> 'a pcbmem_scheme" and F x xs
  assume r: "queue_rep q F (x # xs)"
  then obtain tp' s' where "removeProcQ (fst q) (snd q) = Some (Some x, tp', s')" "procQ s' tp' xs"
    using removeProcQ_Cons [of "snd q" "fst q" x xs] by (auto simp: queue_rep_def)
  moreover have "x \<notin> set xs" using r procQ_distinct by (fastforce simp: queue_rep_def)
  ultimately show "\<exists>q'. queue_get q = Some (Some x, q') \<and> queue_rep q' (insert x F) xs"
    using r by (auto simp: queue_defs)
qed

end
