(* ===== verification/Asl.thy ===== *)
theory Asl
  imports Pcb
begin

text \<open>
  \<^verbatim>\<open>phase1/asl.c\<close>: the active semaphore list. Descriptors live in the table \<open>semds\<close>
  (\<open>semdTable\<close>, 22 entries); \<open>semdTable_addr\<close> is the address the linker gives that table,
  which the code uses as a value: the tail dummy's key is the address of the table's last
  entry. The representation predicate \<open>asl s h ds t fl Q\<close> says that the list is the head
  dummy \<open>h\<close>, the descriptors \<open>ds\<close> in increasing order of their semaphore addresses and the
  tail dummy \<open>t\<close>, that \<open>fl\<close> are the free descriptors, and that \<open>Q a\<close> is the queue of the pcbs
  blocked on the semaphore at address \<open>a\<close>.
\<close>

section \<open>The module's memory and operations\<close>

record aslmem = pcbmem +
  semds :: "nat \<Rightarrow> semd_t"
  semdFree_h :: ptr
  semd_h :: ptr
  semdTable_addr :: u32

definition upd_semd :: "nat \<Rightarrow> (semd_t \<Rightarrow> semd_t) \<Rightarrow> 'a aslmem_scheme \<Rightarrow> 'a aslmem_scheme" where
  "upd_semd i f s = s\<lparr>semds := (semds s)(i := f (semds s i))\<rparr>"

text \<open>The address of \<open>semdTable[MAXPROC + 1]\<close>; a descriptor is three words long.\<close>

definition lastSemd :: "'a aslmem_scheme \<Rightarrow> u32" where
  "lastSemd s = semdTable_addr s + of_nat (12 * (MAXPROC + 1))"

definition freeSemd :: "ptr \<Rightarrow> 'a aslmem_scheme \<Rightarrow> 'a aslmem_scheme option" where
  "freeSemd p s = do {
     i \<leftarrow> p;
     let s = upd_semd i (s_procQ_update (\<lambda>_. None)) s;
     let s = upd_semd i (s_next_update (\<lambda>_. semdFree_h s)) s;
     Some (s\<lparr>semdFree_h := p\<rparr>)
   }"

definition allocSemd :: "u32 \<Rightarrow> 'a aslmem_scheme \<Rightarrow> (ptr \<times> 'a aslmem_scheme) option" where
  "allocSemd semAdd s =
     (if semdFree_h s = None then Some (None, s)
      else do {
        i \<leftarrow> semdFree_h s;
        let s = s\<lparr>semdFree_h := s_next (semds s i)\<rparr>;
        let s = upd_semd i (s_next_update (\<lambda>_. None)) s;
        let s = upd_semd i (s_semAdd_update (\<lambda>_. semAdd)) s;
        let s = upd_semd i (s_procQ_update (\<lambda>_. mkEmptyProcQ)) s;
        Some (Some i, s)
      })"

definition initASL :: "'a aslmem_scheme \<Rightarrow> 'a aslmem_scheme option" where
  "initASL s = do {
     let s = s\<lparr>semdFree_h := Some 0\<rparr>;
     let s = fold (\<lambda>i. upd_semd i (s_next_update (\<lambda>_. Some (i + 1)))) [0..<MAXPROC + 1] s;
     let s = upd_semd (MAXPROC + 1) (s_next_update (\<lambda>_. None)) s;
     (headDummy, s) \<leftarrow> allocSemd 0 s;
     (tailDummy, s) \<leftarrow> allocSemd (lastSemd s) s;
     let s = s\<lparr>semd_h := tailDummy\<rparr>;
     h \<leftarrow> headDummy;
     let s = upd_semd h (s_next_update (\<lambda>_. semd_h s)) s;
     Some (s\<lparr>semd_h := headDummy\<rparr>)
   }"

text \<open>The loop of \<open>traverseASL\<close>.\<close>

partial_function (option) traverse_from :: "u32 \<Rightarrow> nat \<Rightarrow> 'a aslmem_scheme \<Rightarrow> nat option" where
  "traverse_from semAdd traverse s = do {
     n \<leftarrow> s_next (semds s traverse);
     if s_semAdd (semds s n) \<noteq> lastSemd s \<and> s_semAdd (semds s n) < semAdd
     then traverse_from semAdd n s else Some traverse
   }"

definition traverseASL :: "u32 \<Rightarrow> 'a aslmem_scheme \<Rightarrow> nat option" where
  "traverseASL semAdd s = do { traverse \<leftarrow> semd_h s; traverse_from semAdd traverse s }"

definition insertBlocked :: "u32 \<Rightarrow> ptr \<Rightarrow> 'a aslmem_scheme \<Rightarrow> (u32 \<times> 'a aslmem_scheme) option" where
  "insertBlocked semAdd p s = do {
     predecessor \<leftarrow> traverseASL semAdd s;
     n \<leftarrow> s_next (semds s predecessor);
     (failed, s) \<leftarrow>
       (if s_semAdd (semds s n) \<noteq> semAdd then do {
          (newSem, s) \<leftarrow> allocSemd semAdd s;
          if newSem = None then Some (True, s)
          else do {
            m \<leftarrow> newSem;
            let s = upd_semd m (s_next_update (\<lambda>_. s_next (semds s predecessor))) s;
            let s = upd_semd predecessor (s_next_update (\<lambda>_. newSem)) s;
            Some (False, s)
          }
        } else Some (False, s));
     if failed then Some (TRUE, s)
     else do {
       d \<leftarrow> s_next (semds s predecessor);
       (tp, s) \<leftarrow> insertProcQ (s_procQ (semds s d)) p s;
       let s = upd_semd d (s_procQ_update (\<lambda>_. tp)) s;
       i \<leftarrow> p;
       let s = upd_pcb i (p_semAdd_update (\<lambda>_. semAdd)) s;
       Some (FALSE, s)
     }
   }"

definition removeBlocked :: "u32 \<Rightarrow> 'a aslmem_scheme \<Rightarrow> (ptr \<times> 'a aslmem_scheme) option" where
  "removeBlocked semAdd s = do {
     predecessor \<leftarrow> traverseASL semAdd s;
     d \<leftarrow> s_next (semds s predecessor);
     if s_semAdd (semds s d) \<noteq> semAdd then Some (None, s)
     else do {
       (resultPcb, tp, s) \<leftarrow> removeProcQ (s_procQ (semds s d)) s;
       let s = upd_semd d (s_procQ_update (\<lambda>_. tp)) s;
       if resultPcb = None then Some (None, s)
       else do {
         r \<leftarrow> resultPcb;
         let s = upd_pcb r (p_semAdd_update (\<lambda>_. NULL)) s;
         if emptyProcQ (s_procQ (semds s d)) then do {
           let toBeFreeSem = s_next (semds s predecessor);
           let s = upd_semd predecessor (s_next_update (\<lambda>_. s_next (semds s d))) s;
           s \<leftarrow> freeSemd toBeFreeSem s;
           Some (resultPcb, s)
         } else Some (resultPcb, s)
       }
     }
   }"

definition outBlocked :: "ptr \<Rightarrow> 'a aslmem_scheme \<Rightarrow> (ptr \<times> 'a aslmem_scheme) option" where
  "outBlocked p s = do {
     i \<leftarrow> p;
     let semAdd = p_semAdd (pcbs s i);
     predecessor \<leftarrow> traverseASL semAdd s;
     d \<leftarrow> s_next (semds s predecessor);
     if s_semAdd (semds s d) \<noteq> semAdd \<or> emptyProcQ (s_procQ (semds s d)) then Some (None, s)
     else do {
       (r, tp, s) \<leftarrow> outProcQ (s_procQ (semds s d)) p s;
       Some (r, upd_semd d (s_procQ_update (\<lambda>_. tp)) s)
     }
   }"

definition headBlocked :: "u32 \<Rightarrow> 'a aslmem_scheme \<Rightarrow> ptr option" where
  "headBlocked semAdd s = do {
     predecessor \<leftarrow> traverseASL semAdd s;
     d \<leftarrow> s_next (semds s predecessor);
     if s_semAdd (semds s d) \<noteq> semAdd \<or> emptyProcQ (s_procQ (semds s d)) then Some None
     else do { t \<leftarrow> s_procQ (semds s d); Some (p_next (pcbs s t)) }
   }"

section \<open>Representation\<close>

abbreviation sn :: "'a aslmem_scheme \<Rightarrow> nat \<Rightarrow> ptr" where "sn s d \<equiv> s_next (semds s d)"
abbreviation skey :: "'a aslmem_scheme \<Rightarrow> nat \<Rightarrow> u32" where "skey s d \<equiv> s_semAdd (semds s d)"
abbreviation spq :: "'a aslmem_scheme \<Rightarrow> nat \<Rightarrow> ptr" where "spq s d \<equiv> s_procQ (semds s d)"

definition asl :: "'a aslmem_scheme \<Rightarrow> nat \<Rightarrow> nat list \<Rightarrow> nat \<Rightarrow> nat list \<Rightarrow> (u32 \<Rightarrow> nat list) \<Rightarrow> bool" where
  "asl s h ds t fl Q \<longleftrightarrow>
     chain (sn s) (semd_h s) (h # ds @ [t]) None \<and>
     chain (sn s) (semdFree_h s) fl None \<and>
     distinct (h # t # ds @ fl) \<and> set (h # t # ds @ fl) = {0..<MAXPROC + 2} \<and>
     skey s t = lastSemd s \<and> lastSemd s \<notin> skey s ` set ds \<and> sorted_wrt (<) (map (skey s) ds) \<and>
     (\<forall>d\<in>set ds. procQ s (spq s d) (Q (skey s d))) \<and>
     (\<forall>a. a \<notin> skey s ` set ds \<longrightarrow> Q a = []) \<and>
     (\<forall>a. \<forall>p\<in>set (Q a). p_semAdd (pcbs s p) = a)"

text \<open>
  \<open>bframe A P s s'\<close>: outside the list itself, only queue fields of the pcbs in \<open>A\<close> and
  \<open>p_semAdd\<close> of the pcbs in \<open>P\<close> have changed.
\<close>

definition bframe :: "nat set \<Rightarrow> nat set \<Rightarrow> 'a aslmem_scheme \<Rightarrow> 'a aslmem_scheme \<Rightarrow> bool" where
  "bframe A P s s' \<longleftrightarrow>
     (\<forall>i. pprnt s' i = pprnt s i \<and> pchild s' i = pchild s i \<and> snext s' i = snext s i \<and> sprev s' i = sprev s i \<and>
          p_s (pcbs s' i) = p_s (pcbs s i) \<and> p_time (pcbs s' i) = p_time (pcbs s i) \<and>
          p_supportStruct (pcbs s' i) = p_supportStruct (pcbs s i)) \<and>
     (\<forall>i. i \<notin> A \<longrightarrow> pnext s' i = pnext s i \<and> pprev s' i = pprev s i) \<and>
     (\<forall>i. i \<notin> P \<longrightarrow> p_semAdd (pcbs s' i) = p_semAdd (pcbs s i)) \<and>
     pcbFree_h s' = pcbFree_h s \<and> semdTable_addr s' = semdTable_addr s \<and> aslmem.more s' = aslmem.more s"

lemma bframe_fields [frame_simps]:
  assumes "bframe A P s s'"
  shows "pprnt s' i = pprnt s i" "pchild s' i = pchild s i" "snext s' i = snext s i" "sprev s' i = sprev s i"
    "p_s (pcbs s' i) = p_s (pcbs s i)" "p_time (pcbs s' i) = p_time (pcbs s i)"
    "p_supportStruct (pcbs s' i) = p_supportStruct (pcbs s i)" "pcbFree_h s' = pcbFree_h s"
    "semdTable_addr s' = semdTable_addr s" "aslmem.more s' = aslmem.more s" "lastSemd s' = lastSemd s"
  using assms by (auto simp: bframe_def lastSemd_def)

lemma bframe_links [frame_simps]:
  "bframe A P s s' \<Longrightarrow> i \<notin> A \<Longrightarrow> pnext s' i = pnext s i"
  "bframe A P s s' \<Longrightarrow> i \<notin> A \<Longrightarrow> pprev s' i = pprev s i"
  "bframe A P s s' \<Longrightarrow> i \<notin> P \<Longrightarrow> p_semAdd (pcbs s' i) = p_semAdd (pcbs s i)"
  by (auto simp: bframe_def)

lemma bframe_refl [intro, simp]: "bframe A P s s"
  by (simp add: bframe_def)

lemma bframe_mono: "bframe A P s s' \<Longrightarrow> A \<subseteq> B \<Longrightarrow> P \<subseteq> R \<Longrightarrow> bframe B R s s'"
  by (auto simp: bframe_def)

lemma bframe_procQ [frame_simps]: "bframe A P s s' \<Longrightarrow> A \<inter> set xs = {} \<Longrightarrow> procQ s' tp xs = procQ s tp xs"
  unfolding procQ_def by (rule ring_cong) (auto simp: bframe_def disjoint_iff)

lemma bframe_pcbFree [frame_simps]:
  assumes "bframe A P s s'" "A \<inter> set xs = {}"
  shows "pcbFree s' xs = pcbFree s xs"
proof -
  have "chain (pnext s') (pcbFree_h s) xs None = chain (pnext s) (pcbFree_h s) xs None"
    using assms by (intro chain_cong) (auto simp: bframe_def disjoint_iff)
  then show ?thesis using assms by (simp add: pcbFree_def bframe_fields)
qed

lemma bframe_children [frame_simps]: "bframe A P s s' \<Longrightarrow> children s' p xs = children s p xs"
  by (simp add: children_def bframe_fields)

interpretation aw: sorted_walk "\<lambda>s d. s_next (semds s d)" "\<lambda>s d. s_semAdd (semds s d)" "(<)" lastSemd traverse_from
  by unfold_locales (rule traverse_from.simps)

section \<open>Searching the list\<close>

lemma chain_insert:
  assumes "chain nxt p (as @ x # rest) q" "distinct (as @ x # rest)" "m \<notin> set (as @ x # rest)"
  shows "chain (nxt(m := nxt x, x := Some m)) p (as @ x # m # rest) q"
proof -
  obtain r where r: "chain nxt p as r" "r = Some x" "chain nxt (nxt x) rest q"
    using assms(1) by (auto simp: chain_append)
  have "x \<noteq> m" using assms(3) by auto
  moreover have "chain (nxt(m := nxt x, x := Some m)) p as r" using r(1) assms by (simp add: chain_upd)
  moreover have "chain (nxt(m := nxt x, x := Some m)) (nxt x) rest q" using r(3) assms by (simp add: chain_upd)
  ultimately show ?thesis using r(2) by (auto simp: chain_append)
qed

lemma chain_delete:
  assumes "chain nxt p (as @ x # d # rest) q" "distinct (as @ x # d # rest)"
  shows "chain (nxt(x := nxt d)) p (as @ x # rest) q"
proof -
  obtain r where r: "chain nxt p as r" "r = Some x" "chain nxt (nxt d) rest q"
    using assms(1) by (auto simp: chain_append)
  moreover have "chain (nxt(x := nxt d)) p as r" using r(1) assms by (simp add: chain_upd)
  moreover have "chain (nxt(x := nxt d)) (nxt d) rest q" using r(3) assms by (simp add: chain_upd)
  ultimately show ?thesis by (auto simp: chain_append)
qed

lemma chain_at: "chain nxt p (as @ x # y # rest) q \<Longrightarrow> nxt x = Some y"
  by (auto simp: chain_append)

text \<open>
  What the search returns: the node \<open>pre\<close> before the place of \<open>a\<close>. The list \<open>h # ds @ [t]\<close> is
  cut there into \<open>us @ pre # vs @ [t]\<close>.
\<close>

lemma asl_traverse:
  assumes A: "asl s h ds t fl Q"
  obtains us pre vs where "h # ds = us @ pre # vs" "traverseASL a s = Some pre"
    "sn s pre = Some (hd (vs @ [t]))" "\<forall>d\<in>set (tl (us @ [pre])). skey s d < a" "\<forall>d\<in>set vs. a \<le> skey s d"
proof -
  let ?as = "takeWhile (\<lambda>d. skey s d < a) ds" and ?bs = "dropWhile (\<lambda>d. skey s d < a) ds"
  let ?pre = "last (h # ?as)" and ?us = "butlast (h # ?as)"
  have ch: "chain (sn s) (semd_h s) (h # ds @ [t]) None" and so: "sorted_wrt (<) (map (skey s) ds)"
    and k: "skey s t = lastSemd s" "lastSemd s \<notin> skey s ` set ds"
    using A by (simp_all add: asl_def)
  have up: "?us @ [?pre] = h # ?as" by (rule append_butlast_last_id) simp
  have eq: "h # ds = ?us @ ?pre # ?bs"
  proof -
    have "h # ds = (?us @ [?pre]) @ ?bs" unfolding up by simp
    then show ?thesis by simp
  qed
  have "semd_h s = Some h" and ch': "chain (sn s) (sn s h) (ds @ [t]) None" using ch by auto
  then have tr: "traverseASL a s = Some ?pre"
    using aw.walk_finds [OF ch' k] by (simp add: traverseASL_def)
  obtain n rest where nr: "?bs @ [t] = n # rest" by (cases "?bs @ [t]") auto
  have "h # ds @ [t] = (h # ds) @ [t]" by simp
  also have "\<dots> = ?us @ ?pre # (?bs @ [t])" by (subst eq) simp
  finally have "chain (sn s) (semd_h s) (?us @ ?pre # n # rest) None" using ch unfolding nr by simp
  then have "sn s ?pre = Some n" by (rule chain_at)
  then have n: "sn s ?pre = Some (hd (?bs @ [t]))" unfolding nr by simp
  have lt: "\<forall>d\<in>set (tl (?us @ [?pre])). skey s d < a" unfolding up by (auto dest: set_takeWhileD)
  have ge: "\<forall>d\<in>set ?bs. a \<le> skey s d"
  proof (cases ?bs)
    case (Cons b bs)
    then have b: "\<not> skey s b < a" by (metis dropWhile_eq_Cons_conv)
    have "sorted_wrt (<) (map (skey s) (?as @ ?bs))" using so by simp
    then have "sorted_wrt (<) (map (skey s) ?bs)" unfolding map_append by (simp add: sorted_wrt_append)
    then have "\<forall>d\<in>set bs. skey s b < skey s d" unfolding Cons by auto
    with b show ?thesis unfolding Cons by auto
  next
    case Nil
    show ?thesis unfolding Nil by simp
  qed
  show ?thesis by (rule that [OF eq tr n lt ge])
qed

lemma asl_distinct: "asl s h ds t fl Q \<Longrightarrow> distinct (h # ds @ [t])"
  by (auto simp: asl_def)

lemma asl_found:
  assumes A: "asl s h ds t fl Q" and a: "a \<in> skey s ` set ds"
  obtains us pre d ws where "h # ds = us @ pre # d # ws" "traverseASL a s = Some pre" "sn s pre = Some d"
    "skey s d = a" "d \<in> set ds"
proof -
  obtain us pre vs where w: "h # ds = us @ pre # vs" "traverseASL a s = Some pre"
    "sn s pre = Some (hd (vs @ [t]))" "\<forall>d\<in>set (tl (us @ [pre])). skey s d < a" "\<forall>d\<in>set vs. a \<le> skey s d"
    by (rule asl_traverse [OF A])
  have ds: "ds = tl (us @ [pre]) @ vs" using w(1) by (cases us) auto
  obtain e where e: "e \<in> set ds" "skey s e = a" using a by auto
  with w(4) ds have "e \<in> set vs" by auto
  then obtain d ws where vs: "vs = d # ws" by (cases vs) auto
  have "sorted_wrt (<) (map (skey s) ds)" using A by (simp add: asl_def)
  then have "\<forall>x\<in>set ws. skey s d < skey s x" unfolding ds vs by (simp add: sorted_wrt_append)
  with \<open>e \<in> set vs\<close> e w(5) vs have "skey s d = a" by fastforce
  moreover have "d \<in> set ds" unfolding ds vs by simp
  ultimately show ?thesis using w vs by (intro that) auto
qed

lemma asl_absent:
  assumes A: "asl s h ds t fl Q" and a: "a \<notin> skey s ` set ds" and la: "a \<noteq> lastSemd s"
  obtains us pre vs n where "h # ds = us @ pre # vs" "traverseASL a s = Some pre" "sn s pre = Some n"
    "skey s n \<noteq> a" "\<forall>d\<in>set (tl (us @ [pre])). skey s d < a" "\<forall>d\<in>set vs. a < skey s d"
proof -
  obtain us pre vs where w: "h # ds = us @ pre # vs" "traverseASL a s = Some pre"
    "sn s pre = Some (hd (vs @ [t]))" "\<forall>d\<in>set (tl (us @ [pre])). skey s d < a" "\<forall>d\<in>set vs. a \<le> skey s d"
    by (rule asl_traverse [OF A])
  have ds: "ds = tl (us @ [pre]) @ vs" using w(1) by (cases us) auto
  have gt: "\<forall>d\<in>set vs. a < skey s d"
  proof
    fix d assume d: "d \<in> set vs"
    then have "d \<in> set ds" unfolding ds by simp
    then have "skey s d \<noteq> a" using a by auto
    with w(5) d show "a < skey s d" by (simp add: order_less_le)
  qed
  moreover have "skey s t \<noteq> a" using A la by (auto simp: asl_def)
  ultimately have "skey s (hd (vs @ [t])) \<noteq> a" by (cases vs) auto
  with w gt show ?thesis by (intro that) auto
qed

section \<open>Calculation rules\<close>

named_theorems asl_calc "evaluation of the assignments to descriptors"

lemma upd_semd_sel [asl_calc]:
  "semds (upd_semd i f s) j = (if j = i then f (semds s i) else semds s j)"
  "semdFree_h (upd_semd i f s) = semdFree_h s" "semd_h (upd_semd i f s) = semd_h s"
  "pcbs (upd_semd i f s) = pcbs s" "pcbFree_h (upd_semd i f s) = pcbFree_h s"
  "semdTable_addr (upd_semd i f s) = semdTable_addr s" "aslmem.more (upd_semd i f s) = aslmem.more s"
  "lastSemd (upd_semd i f s) = lastSemd s" "procQ (upd_semd i f s) tp xs = procQ s tp xs"
  by (simp_all add: upd_semd_def lastSemd_def procQ_def)

lemma upd_pcb_asl [asl_calc]:
  "semds (upd_pcb i g s) = semds s" "semdFree_h (upd_pcb i g s) = semdFree_h s"
  "semd_h (upd_pcb i g s) = semd_h s" "semdTable_addr (upd_pcb i g s) = semdTable_addr s"
  "aslmem.more (upd_pcb i g s) = aslmem.more s" "lastSemd (upd_pcb i g s) = lastSemd s"
  by (simp_all add: upd_pcb_def lastSemd_def)

lemma upd_semAdd_procQ [asl_calc]: "procQ (upd_pcb i (p_semAdd_update g) s) tp xs = procQ s tp xs"
  unfolding procQ_def by (rule ring_cong) (auto simp: upd_pcb_def)

lemma qframe_asl [asl_calc]:
  assumes "qframe A s s'"
  shows "semds s' = semds s" "semdFree_h s' = semdFree_h s" "semd_h s' = semd_h s"
    "semdTable_addr s' = semdTable_addr s" "aslmem.more s' = aslmem.more s" "lastSemd s' = lastSemd s"
  using assms by (auto simp: qframe_def setq_def lastSemd_def)

lemma bframe_of_qframe: "qframe A s s' \<Longrightarrow> bframe A P s s'"
  by (auto simp: bframe_def qframe_pcb qframe_links qframe_asl)

lemma asl_key_inj: "asl s h ds t fl Q \<Longrightarrow> d \<in> set ds \<Longrightarrow> e \<in> set ds \<Longrightarrow> skey s d = skey s e \<Longrightarrow> d = e"
  by (auto simp: asl_def strict_sorted_iff distinct_map inj_on_def)

lemma asl_Q_distinct: "asl s h ds t fl Q \<Longrightarrow> distinct (Q a)"
  by (cases "a \<in> skey s ` set ds") (auto simp: asl_def dest: procQ_distinct)

lemma asl_Q_semAdd: "asl s h ds t fl Q \<Longrightarrow> p \<in> set (Q a) \<Longrightarrow> p_semAdd (pcbs s p) = a"
  by (auto simp: asl_def)

lemma asl_Q_disjoint: "asl s h ds t fl Q \<Longrightarrow> a \<noteq> b \<Longrightarrow> set (Q a) \<inter> set (Q b) = {}"
  by (metis asl_Q_semAdd disjoint_iff)

lemma asl_queue: "asl s h ds t fl Q \<Longrightarrow> d \<in> set ds \<Longrightarrow> procQ s (spq s d) (Q (skey s d))"
  by (auto simp: asl_def)

lemma asl_no_key: "asl s h ds t fl Q \<Longrightarrow> a \<notin> skey s ` set ds \<Longrightarrow> Q a = []"
  by (auto simp: asl_def)

lemma asl_lastSemd: "asl s h ds t fl Q \<Longrightarrow> Q (lastSemd s) = []"
  by (auto simp: asl_def)

text \<open>
  A change of one descriptor's queue, with the list itself left alone, from \<open>s\<close> to \<open>s'\<close>:
  what every operation does to the semaphore at address \<open>a\<close>.
\<close>

lemma asl_requeue:
  assumes A: "asl s h ds t fl Q" and d: "d \<in> set ds" "skey s d = a"
    and f: "bframe (X \<union> set (Q a)) P s s'" "semds s' = (semds s)(d := (semds s d)\<lparr>s_procQ := tp\<rparr>)"
      "semdFree_h s' = semdFree_h s" "semd_h s' = semd_h s"
    and X: "\<forall>b. X \<inter> set (Q b) = {}" and q: "procQ s' tp qs" and sa: "\<forall>p\<in>set qs. p_semAdd (pcbs s' p) = a"
    and P: "\<forall>b. b \<noteq> a \<longrightarrow> P \<inter> set (Q b) = {}"
  shows "asl s' h ds t fl (Q(a := qs))"
proof -
  have sn: "sn s' e = sn s e" and sk: "skey s' e = skey s e" for e using f(2) by auto
  have ls: "lastSemd s' = lastSemd s" using f(1) by (rule bframe_fields)
  have queues: "procQ s' (spq s' e) ((Q(a := qs)) (skey s e))" if e: "e \<in> set ds" for e
  proof (cases "e = d")
    case False
    then have ne: "skey s e \<noteq> a" using asl_key_inj [OF A e d(1)] d(2) by auto
    then have "(X \<union> set (Q a)) \<inter> set (Q (skey s e)) = {}" using X asl_Q_disjoint [OF A] by blast
    then have "procQ s' (spq s e) (Q (skey s e))" using bframe_procQ [OF f(1)] asl_queue [OF A e] by simp
    then show ?thesis using ne False f(2) by simp
  qed (use d f(2) q in simp)
  have adds: "p_semAdd (pcbs s' p) = b" if p: "p \<in> set ((Q(a := qs)) b)" for b p
  proof (cases "b = a")
    case False
    then have "p \<in> set (Q b)" using p by simp
    moreover have "p \<notin> P" using P False calculation by blast
    ultimately show ?thesis using asl_Q_semAdd [OF A] bframe_links(3) [OF f(1)] by simp
  qed (use p sa in simp)
  have "(Q(a := qs)) b = []" if "b \<notin> skey s ` set ds" for b
    using that asl_no_key [OF A that] d by auto
  then show ?thesis
    using A queues adds unfolding asl_def sn sk ls f(3,4) by blast
qed

section \<open>Linking and unlinking a descriptor\<close>

lemma cut_eq: "h # ds = us @ pre # vs \<Longrightarrow> ds = tl (us @ [pre]) @ vs \<and> us @ [pre] = h # tl (us @ [pre])"
  by (cases us) auto

lemma asl_link:
  assumes A: "asl s h ds t (m # fl) Q" and a: "a \<notin> skey s ` set ds" "a \<noteq> lastSemd s"
    and c: "h # ds = us @ pre # vs" "\<forall>d\<in>set (tl (us @ [pre])). skey s d < a" "\<forall>d\<in>set vs. a < skey s d"
    and s0: "semds s0 = (semds s)(m := \<lparr>s_next = sn s pre, s_semAdd = a, s_procQ = None\<rparr>,
                pre := (semds s pre)\<lparr>s_next := Some m\<rparr>)"
      "semdFree_h s0 = sn s m" "semd_h s0 = semd_h s" "pcbs s0 = pcbs s" "lastSemd s0 = lastSemd s"
  shows "asl s0 h (tl (us @ [pre]) @ m # vs) t fl Q" "m \<noteq> pre"
proof -
  have ds: "ds = tl (us @ [pre]) @ vs" and up: "us @ [pre] = h # tl (us @ [pre])" using cut_eq [OF c(1)] by auto
  have D: "distinct (h # t # ds @ m # fl)" using A by (simp add: asl_def)
  have all: "h # ds @ [t] = us @ pre # vs @ [t]" using arg_cong [OF c(1), of "\<lambda>x. x @ [t]"] by simp
  have dal: "distinct (us @ pre # vs @ [t])" unfolding all [symmetric] using D by auto
  have mn: "m \<notin> set (us @ pre # vs @ [t])" unfolding all [symmetric] using D by auto
  then show mp: "m \<noteq> pre" by auto
  have pre: "pre \<in> set (h # ds)" unfolding c(1) by simp
  have sn0: "sn s0 = (sn s)(m := sn s pre, pre := Some m)" using mp by (auto simp: s0(1) fun_eq_iff)
  have k0: "skey s0 e = (if e = m then a else skey s e)" for e using mp by (simp add: s0(1))
  have "chain (sn s) (semd_h s) (us @ pre # vs @ [t]) None" using A unfolding asl_def all by blast
  from chain_insert [OF this dal mn]
  have ch: "chain (sn s0) (semd_h s) (us @ pre # m # vs @ [t]) None" unfolding sn0 .
  have list: "us @ pre # m # vs @ [t] = h # (tl (us @ [pre]) @ m # vs) @ [t]"
    using arg_cong [OF up, of "\<lambda>x. x @ m # vs @ [t]"] by simp
  have "m \<notin> set fl" "pre \<notin> set fl" using D pre by auto
  then have fr: "chain (sn s0) (sn s m) fl None" using A by (simp add: asl_def sn0 chain_upd)
  have perm: "set (h # t # (tl (us @ [pre]) @ m # vs) @ fl) = set (h # t # ds @ m # fl)"
    "distinct (h # t # (tl (us @ [pre]) @ m # vs) @ fl)" using D unfolding ds by auto
  have sorted: "sorted_wrt (<) (map (skey s0) (tl (us @ [pre]) @ m # vs))"
  proof -
    have "m \<notin> set ds" using D by auto
    then have eq: "map (skey s0) (tl (us @ [pre]) @ m # vs) = map (skey s) (tl (us @ [pre])) @ a # map (skey s) vs"
      unfolding ds by (auto simp: k0)
    have "sorted_wrt (<) (map (skey s) (tl (us @ [pre]) @ vs))" using A ds by (simp add: asl_def)
    then show ?thesis unfolding eq using c(2,3) by (auto simp: sorted_wrt_append)
  qed
  have keys: "skey s0 ` set (tl (us @ [pre]) @ m # vs) = insert a (skey s ` set ds)"
    using D unfolding ds by (auto simp: k0 image_iff)
  have kt: "skey s0 t = lastSemd s0" using A D by (auto simp: asl_def k0 s0(5))
  have pq: "procQ s0 tp xs = procQ s tp xs" for tp xs by (simp add: procQ_def s0(4))
  have queues: "procQ s0 (spq s0 e) (Q (skey s0 e))" if "e \<in> set (tl (us @ [pre]) @ m # vs)" for e
  proof (cases "e = m")
    case True
    then show ?thesis using mp asl_no_key [OF A a(1)] by (simp add: s0(1))
  next
    case False
    then have "e \<in> set ds" using that unfolding ds by auto
    then show ?thesis using asl_queue [OF A, of e] False by (cases "e = pre") (simp_all add: s0(1) pq)
  qed
  have no: "Q b = []" if "b \<notin> insert a (skey s ` set ds)" for b using that asl_no_key [OF A] by auto
  show "asl s0 h (tl (us @ [pre]) @ m # vs) t fl Q"
    unfolding asl_def s0(2-5) list [symmetric] perm(1) keys
    using A a ch fr perm(2) sorted kt queues no by (auto simp: asl_def s0(5))
qed

lemma asl_unlink:
  assumes A: "asl s h ds t fl Q" and c: "h # ds = us @ pre # d # ws" and e: "Q (skey s d) = []"
    and s2: "semds s2 = (semds s)(pre := (semds s pre)\<lparr>s_next := sn s d\<rparr>,
                d := (semds s d)\<lparr>s_procQ := None, s_next := semdFree_h s\<rparr>)"
      "semdFree_h s2 = Some d" "semd_h s2 = semd_h s" "pcbs s2 = pcbs s" "lastSemd s2 = lastSemd s"
  shows "asl s2 h (tl (us @ [pre]) @ ws) t (d # fl) Q"
proof -
  have ds: "ds = tl (us @ [pre]) @ d # ws" and up: "us @ [pre] = h # tl (us @ [pre])" using cut_eq [OF c] by auto
  have D: "distinct (h # t # ds @ fl)" using A by (simp add: asl_def)
  have all: "h # ds @ [t] = us @ pre # d # ws @ [t]" using arg_cong [OF c, of "\<lambda>x. x @ [t]"] by simp
  have dal: "distinct (us @ pre # d # ws @ [t])" unfolding all [symmetric] using D by auto
  have pd: "pre \<noteq> d" "d \<notin> set (us @ pre # ws @ [t])" using dal by auto
  have pre: "pre \<in> set (h # ds)" unfolding c by simp
  have dds: "d \<in> set ds" unfolding ds by simp
  have sn2: "sn s2 = (sn s)(pre := sn s d, d := semdFree_h s)" by (auto simp: s2(1) fun_eq_iff)
  have k2: "skey s2 e = skey s e" for e by (auto simp: s2(1))
  have "chain (sn s) (semd_h s) (us @ pre # d # ws @ [t]) None" using A unfolding asl_def all by blast
  from chain_delete [OF this dal] have "chain ((sn s)(pre := sn s d)) (semd_h s) (us @ pre # ws @ [t]) None" .
  then have ch: "chain (sn s2) (semd_h s) (us @ pre # ws @ [t]) None" unfolding sn2 using pd(2) by (subst chain_upd)
  have list: "us @ pre # ws @ [t] = h # (tl (us @ [pre]) @ ws) @ [t]"
    using arg_cong [OF up, of "\<lambda>x. x @ ws @ [t]"] by simp
  have "d \<notin> set fl" "pre \<notin> set fl" using D pre dds by auto
  then have fr: "chain (sn s2) (Some d) (d # fl) None" using A by (simp add: asl_def sn2 chain_upd)
  have perm: "set (h # t # (tl (us @ [pre]) @ ws) @ d # fl) = set (h # t # ds @ fl)"
    "distinct (h # t # (tl (us @ [pre]) @ ws) @ d # fl)" using D unfolding ds by auto
  have sorted: "sorted_wrt (<) (map (skey s) (tl (us @ [pre]) @ ws))"
    using A unfolding ds asl_def by (auto simp: sorted_wrt_append)
  have keys: "skey s ` set ds = insert (skey s d) (skey s ` set (tl (us @ [pre]) @ ws))" unfolding ds by auto
  have queues: "procQ s2 (spq s2 e) (Q (skey s e))" if "e \<in> set (tl (us @ [pre]) @ ws)" for e
  proof -
    have "e \<noteq> d" "e \<in> set ds" using that D unfolding ds by auto
    then show ?thesis using asl_queue [OF A, of e] by (cases "e = pre") (simp_all add: s2(1,4) procQ_def)
  qed
  have no: "Q b = []" if "b \<notin> skey s ` set (tl (us @ [pre]) @ ws)" for b
    using that asl_no_key [OF A, of b] e unfolding keys by auto
  show ?thesis
    unfolding asl_def s2(2-5) list [symmetric] perm(1) k2
    using A ch fr perm(2) sorted queues no unfolding asl_def keys by blast
qed

section \<open>Every operation on every branch\<close>

text \<open>\<open>blocked Q p\<close>: the pcb waits on some semaphore.\<close>

definition blocked :: "(u32 \<Rightarrow> nat list) \<Rightarrow> nat \<Rightarrow> bool" where
  "blocked Q p \<longleftrightarrow> (\<exists>a. p \<in> set (Q a))"

lemma bframe_upd: "bframe A P s s' \<Longrightarrow> bframe A P s (upd_semd d f s')"
  by (simp add: bframe_def asl_calc)

lemma bframe_semAdd: "bframe A P s s' \<Longrightarrow> p \<in> P \<Longrightarrow> bframe A P s (upd_pcb p (p_semAdd_update f) s')"
  by (auto simp: bframe_def link_calc asl_calc)

lemma insert_tail:
  assumes A: "asl s h ds t fl Q" and d: "d \<in> set ds" "skey s d = a" and p: "\<not> blocked Q p"
  shows "\<exists>s'. do {
       (tp, s) \<leftarrow> insertProcQ (spq s d) (Some p) s;
       let s = upd_semd d (s_procQ_update (\<lambda>_. tp)) s;
       let s = upd_pcb p (p_semAdd_update (\<lambda>_. a)) s;
       Some (FALSE, s) } = Some (FALSE, s') \<and> asl s' h ds t fl (Q(a := Q a @ [p])) \<and>
     skey s' = skey s \<and> bframe (insert p (set (Q a))) {p} s s'"
proof -
  have q: "procQ s (spq s d) (Q a)" using asl_queue [OF A d(1)] d(2) by simp
  have np: "p \<notin> set (Q b)" for b using p by (auto simp: blocked_def)
  obtain s1 where s1: "insertProcQ (spq s d) (Some p) s = Some (Some p, s1)" "procQ s1 (Some p) (Q a @ [p])"
    "qframe (insert p (set (Q a))) s s1" using insertProcQ_spec [OF q np] by blast
  let ?s' = "upd_pcb p (p_semAdd_update (\<lambda>_. a)) (upd_semd d (s_procQ_update (\<lambda>_. Some p)) s1)"
  have fr: "bframe (insert p (set (Q a))) {p} s ?s'"
    using s1(3) by (intro bframe_semAdd bframe_upd bframe_of_qframe) auto
  have sm: "semds ?s' = (semds s)(d := (semds s d)\<lparr>s_procQ := Some p\<rparr>)"
    using s1(3) by (simp add: fun_eq_iff asl_calc)
  have sa: "p_semAdd (pcbs ?s' x) = a" if "x \<in> set (Q a @ [p])" for x
    using that s1(3) asl_Q_semAdd [OF A, of x a] by (auto simp: link_calc asl_calc qframe_pcb)
  have "asl ?s' h ds t fl (Q(a := Q a @ [p]))"
  proof (rule asl_requeue [OF A d, where X = "{p}"])
    show "bframe ({p} \<union> set (Q a)) {p} s ?s'" using fr by simp
  qed (use s1(2,3) sm sa np in \<open>auto simp: asl_calc\<close>)
  moreover have "skey ?s' = skey s" unfolding sm by auto
  ultimately show ?thesis using s1(1) fr by (intro exI [of _ ?s']) simp
qed

lemma fill_semd: "x\<lparr>s_next := n, s_semAdd := a, s_procQ := q\<rparr> = \<lparr>s_next = n, s_semAdd = a, s_procQ = q\<rparr>" for x :: semd_t
  by simp

lemma allocSemd_eval:
  "semdFree_h s = Some m \<Longrightarrow> allocSemd a s =
     Some (Some m, (upd_semd m (\<lambda>_. \<lparr>s_next = None, s_semAdd = a, s_procQ = None\<rparr>) s)\<lparr>semdFree_h := sn s m\<rparr>)"
  by (simp add: allocSemd_def Let_def upd_semd_def mkEmptyProcQ_def fill_semd)

lemma insertBlocked_full:
  assumes A: "asl s h ds t [] Q" and a: "a \<notin> skey s ` set ds" "a \<noteq> lastSemd s"
  shows "insertBlocked a p s = Some (TRUE, s)"
proof -
  obtain us pre vs n where "traverseASL a s = Some pre" "sn s pre = Some n" "skey s n \<noteq> a"
    by (rule asl_absent [OF A a])
  moreover have "semdFree_h s = None" using A by (simp add: asl_def)
  ultimately show ?thesis by (simp add: insertBlocked_def allocSemd_def)
qed

lemma insertBlocked_spec:
  assumes A: "asl s h ds t fl Q" and a: "a \<noteq> lastSemd s" and p: "\<not> blocked Q p"
    and room: "a \<in> skey s ` set ds \<or> fl \<noteq> []"
  shows "\<exists>s' ds' fl'. insertBlocked a (Some p) s = Some (FALSE, s') \<and>
     asl s' h ds' t fl' (Q(a := Q a @ [p])) \<and> skey s' ` set ds' = insert a (skey s ` set ds) \<and>
     bframe (insert p (set (Q a))) {p} s s'"
proof (cases "a \<in> skey s ` set ds")
  case True
  obtain us pre d ws where w: "traverseASL a s = Some pre" "sn s pre = Some d" "skey s d = a" "d \<in> set ds"
    by (rule asl_found [OF A True])
  obtain s' where s': "asl s' h ds t fl (Q(a := Q a @ [p]))" "skey s' = skey s"
    "bframe (insert p (set (Q a))) {p} s s'"
    "do { (tp, s) \<leftarrow> insertProcQ (spq s d) (Some p) s;
       let s = upd_semd d (s_procQ_update (\<lambda>_. tp)) s;
       let s = upd_pcb p (p_semAdd_update (\<lambda>_. a)) s;
       Some (FALSE, s) } = Some (FALSE, s')"
    using insert_tail [OF A w(4,3) p] by blast
  have "insertBlocked a (Some p) s = Some (FALSE, s')" using w s'(4) by (simp add: insertBlocked_def)
  moreover have "insert a (skey s ` set ds) = skey s ` set ds" using True by auto
  ultimately show ?thesis using s' by metis
next
  case False
  then obtain m fl' where fl: "fl = m # fl'" using room by (cases fl) auto
  obtain us pre vs n where w: "h # ds = us @ pre # vs" "traverseASL a s = Some pre" "sn s pre = Some n"
    "skey s n \<noteq> a" "\<forall>d\<in>set (tl (us @ [pre])). skey s d < a" "\<forall>d\<in>set vs. a < skey s d"
    by (rule asl_absent [OF A False a])
  let ?ds = "tl (us @ [pre]) @ m # vs"
  let ?s0 = "upd_semd pre (s_next_update (\<lambda>_. Some m)) (upd_semd m (\<lambda>_. \<lparr>s_next = Some n, s_semAdd = a, s_procQ = None\<rparr>)
      (s\<lparr>semdFree_h := sn s m\<rparr>))"
  have hm: "semdFree_h s = Some m" using A by (simp add: asl_def fl)
  have D: "distinct (h # t # ds @ m # fl')" using A by (simp add: asl_def fl)
  have "pre \<in> set (h # ds)" unfolding w(1) by simp
  then have mp: "m \<noteq> pre" using D by auto
  have A0: "asl ?s0 h ?ds t fl' Q"
    using mp by (intro asl_link(1) [OF A [unfolded fl] False a w(1,5,6)]) (auto simp: upd_semd_def lastSemd_def w(3))
  have m0: "m \<in> set ?ds" "skey ?s0 m = a" using mp by (simp_all add: asl_calc)
  have f0: "bframe X P s ?s0" for X P by (simp add: bframe_def upd_semd_def)
  obtain s' where s': "asl s' h ?ds t fl' (Q(a := Q a @ [p]))" "skey s' = skey ?s0"
    "bframe (insert p (set (Q a))) {p} ?s0 s'"
    "do { (tp, s) \<leftarrow> insertProcQ (spq ?s0 m) (Some p) ?s0;
       let s = upd_semd m (s_procQ_update (\<lambda>_. tp)) s;
       let s = upd_pcb p (p_semAdd_update (\<lambda>_. a)) s;
       Some (FALSE, s) } = Some (FALSE, s')"
    using insert_tail [OF A0 m0 p] by blast
  have s0: "upd_semd pre (s_next_update (\<lambda>_. Some m)) (upd_semd m (s_next_update (\<lambda>_. Some n))
      ((upd_semd m (\<lambda>_. \<lparr>s_next = None, s_semAdd = a, s_procQ = None\<rparr>) s)\<lparr>semdFree_h := sn s m\<rparr>)) = ?s0"
    by (simp add: upd_semd_def)
  have "insertBlocked a (Some p) s =
     do { (tp, s) \<leftarrow> insertProcQ (spq ?s0 m) (Some p) ?s0;
       let s = upd_semd m (s_procQ_update (\<lambda>_. tp)) s;
       let s = upd_pcb p (p_semAdd_update (\<lambda>_. a)) s;
       Some (FALSE, s) }"
    using w(2-4) mp by (simp add: insertBlocked_def allocSemd_eval [OF hm] asl_calc s0 [symmetric])
  moreover have "skey ?s0 ` set ?ds = insert a (skey s ` set ds)"
  proof -
    have ds: "ds = tl (us @ [pre]) @ vs" using cut_eq [OF w(1)] by blast
    have "skey ?s0 e = skey s e" if "e \<in> set ds" for e
    proof -
      have "e \<noteq> m" using D that by auto
      then show ?thesis by (simp add: asl_calc)
    qed
    then show ?thesis using m0(2) unfolding ds by (auto simp: image_iff)
  qed
  moreover have "bframe (insert p (set (Q a))) {p} s s'"
    using f0 [of "insert p (set (Q a))" "{p}"] s'(3) by (simp add: bframe_def)
  ultimately show ?thesis using s' by metis
qed

lemma upd_semd_same: "spq s d = q \<Longrightarrow> upd_semd d (s_procQ_update (\<lambda>_. q)) s = s"
  by (auto simp: upd_semd_def)

lemma procQ_tail_empty: "procQ s tp xs \<Longrightarrow> (tp = None) = (xs = [])"
  by (cases tp) (auto dest: procQ_tail)

lemma removeBlocked_none:
  assumes A: "asl s h ds t fl Q" and a: "a \<noteq> lastSemd s" and e: "Q a = []"
  shows "removeBlocked a s = Some (None, s)"
proof (cases "a \<in> skey s ` set ds")
  case True
  obtain us pre d ws where w: "traverseASL a s = Some pre" "sn s pre = Some d" "skey s d = a" "d \<in> set ds"
    by (rule asl_found [OF A True])
  have "spq s d = None" using asl_queue [OF A w(4)] w(3) e by simp
  then show ?thesis using w by (simp add: removeBlocked_def removeProcQ_def upd_semd_same)
next
  case False
  obtain us pre vs n where "traverseASL a s = Some pre" "sn s pre = Some n" "skey s n \<noteq> a"
    by (rule asl_absent [OF A False a])
  then show ?thesis by (simp add: removeBlocked_def)
qed

lemma removeBlocked_some:
  assumes A: "asl s h ds t fl Q" and e: "Q a = p # ps"
  shows "\<exists>s' ds' fl'. removeBlocked a s = Some (Some p, s') \<and> asl s' h ds' t fl' (Q(a := ps)) \<and>
     p_semAdd (pcbs s' p) = NULL \<and> bframe (set (Q a)) {p} s s' \<and>
     skey s' ` set ds' = (if ps = [] then skey s ` set ds - {a} else skey s ` set ds) \<and>
     length fl' = (if ps = [] then Suc (length fl) else length fl)"
proof -
  have "a \<in> skey s ` set ds" using asl_no_key [OF A, of a] e by auto
  then obtain us pre d ws where w: "h # ds = us @ pre # d # ws" "traverseASL a s = Some pre"
    "sn s pre = Some d" "skey s d = a" "d \<in> set ds" by (rule asl_found [OF A])
  have q: "procQ s (spq s d) (p # ps)" using asl_queue [OF A w(5)] w(4) e by simp
  obtain tp s1 where s1: "removeProcQ (spq s d) s = Some (Some p, tp, s1)" "procQ s1 tp ps"
    "qframe (set (p # ps)) s s1" using removeProcQ_Cons [OF q] by blast
  obtain s2 where s2: "s2 = upd_pcb p (p_semAdd_update (\<lambda>_. NULL)) (upd_semd d (s_procQ_update (\<lambda>_. tp)) s1)"
    by blast
  have fr: "bframe (set (Q a)) {p} s s2"
    unfolding s2 using s1(3) e by (intro bframe_semAdd bframe_upd bframe_of_qframe) auto
  have sm: "semds s2 = (semds s)(d := (semds s d)\<lparr>s_procQ := tp\<rparr>)"
    using s1(3) by (simp add: s2 fun_eq_iff asl_calc)
  have np: "p \<notin> set ps" using asl_Q_distinct [OF A, of a] e by simp
  have sa: "p_semAdd (pcbs s2 x) = a" if "x \<in> set ps" for x
    using that np s1(3) asl_Q_semAdd [OF A, of x a] e by (auto simp: s2 link_calc asl_calc qframe_pcb)
  have pd: "b \<noteq> a \<longrightarrow> {p} \<inter> set (Q b) = {}" for b using asl_Q_disjoint [OF A, of a b] e by auto
  have A2: "asl s2 h ds t fl (Q(a := ps))"
  proof (rule asl_requeue [OF A w(5,4), where X = "{}"])
    show "bframe ({} \<union> set (Q a)) {p} s s2" using fr by simp
  qed (use s1(2,3) sm sa pd in \<open>auto simp: s2 asl_calc\<close>)
  have k2: "skey s2 e = skey s e" for e unfolding sm by simp
  have nul: "p_semAdd (pcbs s2 p) = NULL" by (simp add: s2 link_calc)
  have emp: "emptyProcQ (spq s2 d) = (ps = [])"
    using procQ_tail_empty [OF s1(2)] unfolding sm by (simp add: emptyProcQ_def)
  have D: "distinct (h # ds)" using A by (simp add: asl_def)
  then have pd': "pre \<noteq> d" unfolding w(1) by simp
  have sn2: "sn s2 pre = Some d" "sn s2 d = sn s d" using w(3) pd' unfolding sm by simp_all
  show ?thesis
  proof (cases "ps = []")
    case False
    have "removeBlocked a s = Some (Some p, s2)"
      using w s1(1) emp False by (auto simp: s2 removeBlocked_def Let_def asl_calc emptyProcQ_def)
    then show ?thesis using A2 nul fr False k2 by (intro exI [of _ s2] exI [of _ ds] exI [of _ fl]) simp
  next
    case True
    let ?s3 = "upd_semd pre (s_next_update (\<lambda>_. sn s d)) s2"
    let ?s4 = "(upd_semd d (\<lambda>x. x\<lparr>s_procQ := None, s_next := semdFree_h ?s3\<rparr>) ?s3)\<lparr>semdFree_h := Some d\<rparr>"
    let ?ds = "tl (us @ [pre]) @ ws"
    have free: "freeSemd (Some d) ?s3 = Some ?s4"
      by (simp add: freeSemd_def Let_def upd_semd_def)
    have "removeBlocked a s = Some (Some p, ?s4)"
      using w s1(1) emp True pd' free s1(3) by (simp add: s2 removeBlocked_def Let_def asl_calc emptyProcQ_def)
    moreover have A4: "asl ?s4 h ?ds t (d # fl) (Q(a := ps))"
    proof (rule asl_unlink [OF A2 w(1)])
      show "(Q(a := ps)) (skey s2 d) = []" using True w(4) by (simp add: k2)
      show "semds ?s4 = (semds s2)(pre := (semds s2 pre)\<lparr>s_next := sn s2 d\<rparr>,
          d := (semds s2 d)\<lparr>s_procQ := None, s_next := semdFree_h s2\<rparr>)"
        using pd' by (simp add: upd_semd_def sn2(2))
    qed (simp_all add: upd_semd_def lastSemd_def)
    moreover have "p_semAdd (pcbs ?s4 p) = NULL" using nul by (simp add: upd_semd_def)
    moreover have "bframe (set (Q a)) {p} s ?s4" using fr by (simp add: bframe_def upd_semd_def lastSemd_def)
    moreover have "skey ?s4 ` set ?ds = skey s ` set ds - {a}"
    proof -
      have ds: "ds = tl (us @ [pre]) @ d # ws" using cut_eq [OF w(1)] by simp
      have "skey ?s4 e = skey s e" for e by (simp add: upd_semd_def k2 [symmetric])
      moreover have "skey s e \<noteq> a" if "e \<in> set ?ds" for e
      proof -
        have "e \<in> set ds" "e \<noteq> d" using that D unfolding ds by auto
        then show ?thesis using asl_key_inj [OF A, of e d] w(4,5) by auto
      qed
      ultimately show ?thesis using w(4) unfolding ds by (auto simp: image_iff)
    qed
    ultimately show ?thesis using True by (intro exI [of _ ?s4] exI [of _ ?ds] exI [of _ "d # fl"]) simp
  qed
qed

text \<open>
  \<open>outBlocked\<close> takes a pcb out of its queue but leaves the descriptor in the list, even when
  the queue has become empty; nor does it reset the pcb's \<open>p_semAdd\<close>.
\<close>

lemma outBlocked_some:
  assumes A: "asl s h ds t fl Q" and p: "p \<in> set (Q a)"
  shows "\<exists>s'. outBlocked (Some p) s = Some (Some p, s') \<and> asl s' h ds t fl (Q(a := remove1 p (Q a))) \<and>
     p_semAdd (pcbs s' p) = a \<and> skey s' = skey s \<and> bframe (set (Q a)) {} s s'"
proof -
  have "a \<in> skey s ` set ds" using asl_no_key [OF A, of a] p by (metis empty_iff empty_set)
  then obtain us pre d ws where w: "traverseASL a s = Some pre" "sn s pre = Some d" "skey s d = a" "d \<in> set ds"
    by (rule asl_found [OF A])
  have pa: "p_semAdd (pcbs s p) = a" using asl_Q_semAdd [OF A p] .
  have q: "procQ s (spq s d) (Q a)" using asl_queue [OF A w(4)] w(3) by simp
  have ne: "spq s d \<noteq> None" using procQ_tail_empty [OF q] p by auto
  obtain tp s1 where s1: "outProcQ (spq s d) (Some p) s = Some (Some p, tp, s1)"
    "procQ s1 tp (remove1 p (Q a))" "qframe (set (Q a)) s s1" using outProcQ_present [OF q p] by blast
  let ?s' = "upd_semd d (s_procQ_update (\<lambda>_. tp)) s1"
  have fr: "bframe (set (Q a)) {} s ?s'" using s1(3) by (intro bframe_upd bframe_of_qframe)
  have sm: "semds ?s' = (semds s)(d := (semds s d)\<lparr>s_procQ := tp\<rparr>)"
    using s1(3) by (simp add: fun_eq_iff asl_calc)
  have sa: "p_semAdd (pcbs ?s' x) = a" if "x \<in> set (Q a)" for x
    using that s1(3) asl_Q_semAdd [OF A, of x a] by (simp add: asl_calc qframe_pcb)
  have "asl ?s' h ds t fl (Q(a := remove1 p (Q a)))"
  proof (rule asl_requeue [OF A w(4,3), where X = "{}"])
    show "bframe ({} \<union> set (Q a)) {} s ?s'" using fr by simp
    show "\<forall>x\<in>set (remove1 p (Q a)). p_semAdd (pcbs ?s' x) = a" using sa notin_set_remove1 by metis
  qed (use s1(2,3) sm in \<open>auto simp: asl_calc\<close>)
  moreover have "outBlocked (Some p) s = Some (Some p, ?s')"
    using w s1(1) pa ne by (simp add: outBlocked_def emptyProcQ_def)
  moreover have "skey ?s' = skey s" unfolding sm by auto
  ultimately show ?thesis using fr sa [OF p] by blast
qed

lemma outBlocked_none:
  assumes A: "asl s h ds t fl Q" and p: "\<not> blocked Q p" and a: "p_semAdd (pcbs s p) \<noteq> lastSemd s"
  shows "outBlocked (Some p) s = Some (None, s)"
proof (cases "p_semAdd (pcbs s p) \<in> skey s ` set ds")
  case True
  let ?a = "p_semAdd (pcbs s p)"
  obtain us pre d ws where w: "traverseASL ?a s = Some pre" "sn s pre = Some d" "skey s d = ?a" "d \<in> set ds"
    by (rule asl_found [OF A True])
  have "procQ s (spq s d) (Q ?a)" using asl_queue [OF A w(4)] w(3) by simp
  moreover have "p \<notin> set (Q ?a)" using p by (auto simp: blocked_def)
  ultimately have "outProcQ (spq s d) (Some p) s = Some (None, spq s d, s)" by (rule outProcQ_absent)
  then show ?thesis using w by (simp add: outBlocked_def upd_semd_same)
next
  case False
  obtain us pre vs n where "traverseASL (p_semAdd (pcbs s p)) s = Some pre" "sn s pre = Some n"
    "skey s n \<noteq> p_semAdd (pcbs s p)" by (rule asl_absent [OF A False a])
  then show ?thesis by (simp add: outBlocked_def)
qed

lemma headBlocked_spec:
  assumes A: "asl s h ds t fl Q" and a: "a \<noteq> lastSemd s"
  shows "headBlocked a s = Some (if Q a = [] then None else Some (hd (Q a)))"
proof (cases "a \<in> skey s ` set ds")
  case True
  obtain us pre d ws where w: "traverseASL a s = Some pre" "sn s pre = Some d" "skey s d = a" "d \<in> set ds"
    by (rule asl_found [OF A True])
  have q: "procQ s (spq s d) (Q a)" using asl_queue [OF A w(4)] w(3) by simp
  show ?thesis
  proof (cases "spq s d")
    case None
    then show ?thesis using q w by (simp add: headBlocked_def emptyProcQ_def)
  next
    case (Some tl)
    then have "Q a \<noteq> []" "pnext s tl = Some (hd (Q a))"
      using q ring_hd [of "pnext s" "pprev s" tl "Q a"] procQ_tail [of s tl "Q a"] by (auto simp: procQ_def)
    then show ?thesis using w Some by (simp add: headBlocked_def emptyProcQ_def)
  qed
next
  case False
  obtain us pre vs n where "traverseASL a s = Some pre" "sn s pre = Some n" "skey s n \<noteq> a"
    by (rule asl_absent [OF A False a])
  then show ?thesis using asl_no_key [OF A False] by (simp add: headBlocked_def)
qed

section \<open>Initialisation\<close>

lemma initASL_links:
  "semds (fold (\<lambda>i. upd_semd i (s_next_update (\<lambda>_. Some (Suc i)))) [0..<n] s) i =
     (if i < n then (semds s i)\<lparr>s_next := Some (i + 1)\<rparr> else semds s i)"
  "semdFree_h (fold (\<lambda>i. upd_semd i (s_next_update (\<lambda>_. Some (Suc i)))) [0..<n] s) = semdFree_h s"
  "pcbs (fold (\<lambda>i. upd_semd i (s_next_update (\<lambda>_. Some (Suc i)))) [0..<n] s) = pcbs s"
  "pcbFree_h (fold (\<lambda>i. upd_semd i (s_next_update (\<lambda>_. Some (Suc i)))) [0..<n] s) = pcbFree_h s"
  "semdTable_addr (fold (\<lambda>i. upd_semd i (s_next_update (\<lambda>_. Some (Suc i)))) [0..<n] s) = semdTable_addr s"
  "aslmem.more (fold (\<lambda>i. upd_semd i (s_next_update (\<lambda>_. Some (Suc i)))) [0..<n] s) = aslmem.more s"
  by (induction n) (auto simp: upd_semd_sel less_Suc_eq)

lemma initASL_spec:
  "\<exists>s'. initASL s = Some s' \<and> asl s' 0 [] 1 [2..<22] (\<lambda>_. []) \<and> pcbs s' = pcbs s \<and>
        pcbFree_h s' = pcbFree_h s \<and> semdTable_addr s' = semdTable_addr s \<and> aslmem.more s' = aslmem.more s"
proof -
  let ?f = "fold (\<lambda>i. upd_semd i (s_next_update (\<lambda>_. Some (Suc i)))) [0..<21] (s\<lparr>semdFree_h := Some 0\<rparr>)"
  let ?s1 = "upd_semd 21 (s_next_update (\<lambda>_. None)) ?f"
  let ?s2 = "(upd_semd 0 (\<lambda>_. \<lparr>s_next = None, s_semAdd = 0, s_procQ = None\<rparr>) ?s1)\<lparr>semdFree_h := sn ?s1 0\<rparr>"
  let ?s3 = "(upd_semd 1 (\<lambda>_. \<lparr>s_next = None, s_semAdd = lastSemd ?s2, s_procQ = None\<rparr>) ?s2)\<lparr>semdFree_h := sn ?s2 1\<rparr>"
  let ?s4 = "(upd_semd 0 (s_next_update (\<lambda>_. Some 1)) (?s3\<lparr>semd_h := Some 1\<rparr>))\<lparr>semd_h := Some 0\<rparr>"
  have h1: "semdFree_h ?s1 = Some 0" by (simp add: upd_semd_sel initASL_links)
  have h2: "semdFree_h ?s2 = Some 1" by (simp add: upd_semd_sel initASL_links)
  have "initASL s = Some ?s4"
    using allocSemd_eval [OF h1, of 0] allocSemd_eval [OF h2, of "lastSemd ?s2"]
    by (simp add: initASL_def Let_def MAXPROC_def upd_semd_sel)
  then obtain s4 where s4: "s4 = ?s4" "initASL s = Some s4" by blast
  moreover have "asl s4 0 [] 1 [2..<22] (\<lambda>_. [])"
  proof -
    have n: "sn s4 i = (if i = 0 then Some 1 else if i = 1 \<or> i = 21 then None else if i < 21 then Some (i + 1) else sn s i)" for i
      by (auto simp: s4(1) upd_semd_sel initASL_links)
    have "chain (sn s4) (if (2::nat) = 22 then None else Some 2) [2..<22] None"
      by (rule chain_upt) (auto simp: n)
    moreover have "semdFree_h s4 = Some 2" by (simp add: s4(1) upd_semd_sel initASL_links)
    moreover have "skey s4 1 = lastSemd s4" by (simp add: s4(1) upd_semd_sel lastSemd_def)
    moreover have "semd_h s4 = Some 0" by (simp add: s4(1))
    moreover have "chain (sn s4) (Some 0) [0, 1] None" by (simp add: n)
    moreover have "set (0 # 1 # [2..<22]) = {0..<22::nat}" by (simp only: list.set set_upt) auto
    ultimately show ?thesis by (simp add: asl_def MAXPROC_def)
  qed
  moreover have "pcbs s4 = pcbs s \<and> pcbFree_h s4 = pcbFree_h s \<and> semdTable_addr s4 = semdTable_addr s \<and>
      aslmem.more s4 = aslmem.more s"
    by (simp add: s4(1) upd_semd_sel initASL_links)
  ultimately show ?thesis by blast
qed

section \<open>The queue contract\<close>

text \<open>
  One semaphore of the list, as a queue: \<open>F\<close> are pcbs that wait nowhere. A process can be put
  into the queue while the semaphore is active or a descriptor is free.
\<close>

definition sem_rep :: "u32 \<Rightarrow> 'a aslmem_scheme \<Rightarrow> nat set \<Rightarrow> nat list \<Rightarrow> bool" where
  "sem_rep a s F xs \<longleftrightarrow> a \<noteq> lastSemd s \<and>
     (\<exists>h ds t fl Q. asl s h ds t fl Q \<and> Q a = xs \<and> (\<forall>p\<in>F. \<not> blocked Q p) \<and> (a \<in> skey s ` set ds \<or> fl \<noteq> []))"

definition sem_put :: "u32 \<Rightarrow> nat \<Rightarrow> 'a aslmem_scheme \<Rightarrow> 'a aslmem_scheme option" where
  "sem_put a p s = do { (r, s) \<leftarrow> insertBlocked a (Some p) s; if r = FALSE then Some s else None }"

lemma sem_repI:
  "\<lbrakk>a \<noteq> lastSemd s; asl s h ds t fl Q; Q a = xs; \<forall>p\<in>F. \<not> blocked Q p; a \<in> skey s ` set ds \<or> fl \<noteq> []\<rbrakk>
   \<Longrightarrow> sem_rep a s F xs"
  unfolding sem_rep_def by blast

interpretation sq: fifo "sem_rep a" "sem_put a" "removeBlocked a" for a
proof
  fix s :: "'a aslmem_scheme" and F xs p
  assume r: "sem_rep a s F xs" and p: "p \<in> F"
  then obtain h ds t fl Q where A: "asl s h ds t fl Q" "Q a = xs" "\<forall>p\<in>F. \<not> blocked Q p" "a \<noteq> lastSemd s"
    "a \<in> skey s ` set ds \<or> fl \<noteq> []" by (auto simp: sem_rep_def)
  with p obtain s' ds' fl' where s': "insertBlocked a (Some p) s = Some (FALSE, s')"
    "asl s' h ds' t fl' (Q(a := Q a @ [p]))" "skey s' ` set ds' = insert a (skey s ` set ds)"
    "bframe (insert p (set (Q a))) {p} s s'" using insertBlocked_spec [OF A(1,4), of p] by metis
  have "\<forall>q\<in>F - {p}. \<not> blocked (Q(a := Q a @ [p])) q" using A(3) by (auto simp: blocked_def split: if_splits)
  then have "sem_rep a s' (F - {p}) (xs @ [p])"
    using s'(3) A(2,4) bframe_fields(11) [OF s'(4)] by (intro sem_repI [OF _ s'(2)]) auto
  then show "\<exists>s'. sem_put a p s = Some s' \<and> sem_rep a s' (F - {p}) (xs @ [p])"
    using s'(1) by (auto simp: sem_put_def FALSE_def)
next
  fix s :: "'a aslmem_scheme" and F
  assume "sem_rep a s F []"
  then show "removeBlocked a s = Some (None, s)" by (auto simp: sem_rep_def intro: removeBlocked_none)
next
  fix s :: "'a aslmem_scheme" and F x xs
  assume r: "sem_rep a s F (x # xs)"
  then obtain h ds t fl Q where A: "asl s h ds t fl Q" "Q a = x # xs" "\<forall>p\<in>F. \<not> blocked Q p" "a \<noteq> lastSemd s"
    by (auto simp: sem_rep_def)
  obtain s' ds' fl' where s': "removeBlocked a s = Some (Some x, s')" "asl s' h ds' t fl' (Q(a := xs))"
    "bframe (set (Q a)) {x} s s'"
    "skey s' ` set ds' = (if xs = [] then skey s ` set ds - {a} else skey s ` set ds)"
    "length fl' = (if xs = [] then Suc (length fl) else length fl)"
    using removeBlocked_some [OF A(1,2)] by metis
  have x: "x \<notin> set xs" using asl_Q_distinct [OF A(1), of a] A(2) by simp
  have "\<not> blocked (Q(a := xs)) x"
    using x asl_Q_disjoint [OF A(1), of a] A(2) by (fastforce simp: blocked_def split: if_splits)
  moreover have "\<not> blocked (Q(a := xs)) p" if "p \<in> F" for p
    using A(3) that unfolding blocked_def by (metis A(2) fun_upd_apply list.set_intros(2))
  moreover have "a \<in> skey s' ` set ds' \<or> fl' \<noteq> []"
    using s'(4,5) A(2) asl_no_key [OF A(1), of a] by (cases "xs = []") auto
  ultimately have "sem_rep a s' (insert x F) xs"
    using A(4) bframe_fields(11) [OF s'(3)] by (intro sem_repI [OF _ s'(2)]) auto
  then show "\<exists>s'. removeBlocked a s = Some (Some x, s') \<and> sem_rep a s' (insert x F) xs" using s'(1) by auto
qed

end
