(* ===== verification/Nucleus.thy ===== *)
theory Nucleus
  imports Asl
begin

text \<open>
  The state of the kernel proper and the two smallest modules of \<^verbatim>\<open>phase2\<close>: \<^verbatim>\<open>scheduler.c\<close> and
  \<^verbatim>\<open>initial.c\<close>. Memory outside the tables of phase 1 is split by type: \<open>mem\<close> holds the
  words (semaphores, bus registers, bit maps), \<open>states\<close> the processor states and \<open>supports\<close> the
  support structures, each by address; \<open>devregs\<close> holds the device registers. Addresses that the
  linker chooses are fields that nothing assigns.

  The machine instructions that leave the kernel never return, so a function of the code
  that ends in one has the value of type \<open>exit\<close>, which says how it left.
\<close>

section \<open>Kernel state\<close>

record kstate = aslmem +
  process_count :: u32
  softBlock_count :: u32
  readyQ :: ptr
  currentP :: ptr
  device_sem_addr :: u32
  fn_addr :: "string \<Rightarrow> u32"
  mem :: "u32 \<Rightarrow> u32"
  states :: "u32 \<Rightarrow> state_t"
  supports :: "u32 \<Rightarrow> support_t"
  devregs :: "u32 \<Rightarrow> device_t"
  status :: u32
  plt :: u32
  plt_lag :: "nat \<Rightarrow> u32"
  plt_reads :: nat

datatype exit = LDST state_t | LDCXT u32 u32 u32 | HALT | PANIC | WAIT

text \<open>\<open>&device_sem[i]\<close>\<close>

definition device_sem :: "u32 \<Rightarrow> 'a kstate_scheme \<Rightarrow> u32" where
  "device_sem i s = device_sem_addr s + 4 * i"

definition poke :: "u32 \<Rightarrow> u32 \<Rightarrow> 'a kstate_scheme \<Rightarrow> 'a kstate_scheme" where
  "poke a v s = s\<lparr>mem := (mem s)(a := v)\<rparr>"

text \<open>The processor state that the BIOS saves at \<open>BIOSDATAPAGE\<close> before it enters the kernel.\<close>

abbreviation bios :: "'a kstate_scheme \<Rightarrow> state_t" where
  "bios s \<equiv> states s BIOSDATAPAGE"

definition upd_bios :: "(state_t \<Rightarrow> state_t) \<Rightarrow> 'a kstate_scheme \<Rightarrow> 'a kstate_scheme" where
  "upd_bios f s = s\<lparr>states := (states s)(BIOSDATAPAGE := f (bios s))\<rparr>"

text \<open>
  The processor local timer counts down from the value last loaded. \<open>plt_lag n\<close> is how far it
  has counted at its \<open>n\<close>-th reading: the environment chooses it.
\<close>

definition setTIMER :: "u32 \<Rightarrow> 'a kstate_scheme \<Rightarrow> 'a kstate_scheme" where
  "setTIMER v s = s\<lparr>plt := v\<rparr>"

definition getTIMER :: "'a kstate_scheme \<Rightarrow> u32 \<times> 'a kstate_scheme" where
  "getTIMER s = (plt s - plt_lag s (plt_reads s), s\<lparr>plt_reads := Suc (plt_reads s)\<rparr>)"

definition setSTATUS :: "u32 \<Rightarrow> 'a kstate_scheme \<Rightarrow> 'a kstate_scheme" where
  "setSTATUS v s = s\<lparr>status := v\<rparr>"

definition LDIT :: "u32 \<Rightarrow> 'a kstate_scheme \<Rightarrow> 'a kstate_scheme" where
  "LDIT T s = poke INTERVALTMR (T * mem s TIMESCALEADDR) s"

definition deep_copy_state_t :: "state_t \<Rightarrow> state_t \<Rightarrow> state_t" where
  "deep_copy_state_t dest src =
     (let dest = dest\<lparr>s_cause := s_cause src\<rparr>;
          dest = dest\<lparr>s_entryHI := s_entryHI src\<rparr>;
          dest = dest\<lparr>s_pc := s_pc src\<rparr>;
          dest = fold (\<lambda>r dest. set_reg r (s_reg src r) dest) all_regs dest
      in dest\<lparr>s_status := s_status src\<rparr>)"

section \<open>Scheduler\<close>

definition scheduler :: "'a kstate_scheme \<Rightarrow> (exit \<times> 'a kstate_scheme) option" where
  "scheduler s = do {
     (p, tp, s) \<leftarrow> removeProcQ (readyQ s) s;
     let s = s\<lparr>readyQ := tp, currentP := p\<rparr>;
     if currentP s = None then
       (if process_count s = 0 then Some (HALT, s)
        else if sint (softBlock_count s) > 0 then
          (let s = setSTATUS 0x0000ff01 s in Some (WAIT, s))
        else Some (PANIC, s))
     else do {
       let s = setTIMER 5000 s;
       c \<leftarrow> currentP s;
       Some (LDST (p_s (pcbs s c)), s)
     }
   }"

section \<open>Initialisation\<close>

definition num_device_sems :: nat where
  "num_device_sems = DEVINTNUM * DEVPERINT + DEVPERINT + 1"

definition main :: "'a kstate_scheme \<Rightarrow> (exit \<times> 'a kstate_scheme) option" where
  "main s = do {
     let s = poke PASSUPVECTOR (fn_addr s ''uTLB_RefillHandler'') s;
     let s = poke (PASSUPVECTOR + 4) (RAMSTART + PAGESIZE) s;
     let s = poke (PASSUPVECTOR + 8) (fn_addr s ''exception_handler'') s;
     let s = poke (PASSUPVECTOR + 12) (RAMSTART + PAGESIZE) s;
     s \<leftarrow> initASL s;
     let s = initPcbs s;
     let s = s\<lparr>process_count := 0\<rparr>;
     let s = s\<lparr>softBlock_count := 0\<rparr>;
     let s = s\<lparr>readyQ := mkEmptyProcQ\<rparr>;
     let s = s\<lparr>currentP := None\<rparr>;
     let s = fold (\<lambda>i s. poke (device_sem (of_nat i) s) 0 s) [0..<num_device_sems] s;
     let s = LDIT CLOCKINTERVAL s;
     (first_pro, s) \<leftarrow> allocPcb s;
     (tp, s) \<leftarrow> insertProcQ (readyQ s) first_pro s;
     let s = s\<lparr>readyQ := tp\<rparr>;
     let s = s\<lparr>process_count := process_count s + 1\<rparr>;
     f \<leftarrow> first_pro;
     let s = upd_pcb f (\<lambda>p. p\<lparr>p_s := (p_s p)\<lparr>s_status := (IEPBITON AND KUPBITOFF) OR TEBITON\<rparr>\<rparr>) s;
     let s = upd_pcb f (\<lambda>p. p\<lparr>p_s := (p_s p)\<lparr>s_pc := fn_addr s ''test''\<rparr>\<rparr>) s;
     let s = upd_pcb f (\<lambda>p. p\<lparr>p_s := set_reg R_t9 (fn_addr s ''test'') (p_s p)\<rparr>) s;
     let s = upd_pcb f (\<lambda>p. p\<lparr>p_s := set_reg R_sp (mem s RAMBASEADDR + mem s RAMBASESIZE) (p_s p)\<rparr>) s;
     scheduler s
   }"

lemma deep_copy_eq: "deep_copy_state_t dest src = src"
proof -
  have "fold (\<lambda>r dest. set_reg r (s_reg src r) dest) rs d =
      d\<lparr>s_reg := (\<lambda>r. if r \<in> set rs then s_reg src r else s_reg d r)\<rparr>" for rs d
    by (induction rs arbitrary: d) (auto simp: set_reg_def fun_eq_iff intro!: state_t.equality)
  then show ?thesis by (simp add: deep_copy_state_t_def Let_def set_all_regs)
qed

end
