(* ===== verification/Interrupts.thy ===== *)
theory Interrupts
  imports Nucleus
begin

text \<open>
  \<^verbatim>\<open>phase2/interrupts.c\<close>. A handler that never returns to its caller has a result of type
  \<open>(exit \<times> state) option\<close>; the scan of the devices of a line may return, so its result is
  \<open>(exit option \<times> state) option\<close>, where the inner \<open>None\<close> is the plain return.
\<close>

section \<open>Operations\<close>

definition pseudo_clock_idx :: u32 where "pseudo_clock_idx = 48"
definition IPBITSPOS :: nat where "IPBITSPOS = 8"
definition INTLINESCOUNT :: nat where "INTLINESCOUNT = 8"
definition REGWIDTH :: nat where "REGWIDTH = 32"

definition helper_verhogen :: "'a kstate_scheme \<Rightarrow> (ptr \<times> 'a kstate_scheme) option" where
  "helper_verhogen s =
     (let sema4 = s_reg (bios s) R_a1;
          s = poke sema4 (mem s sema4 + 1) s
      in if sint (mem s sema4) \<le> 0 then do {
           (process_unblocked, s) \<leftarrow> removeBlocked sema4 s;
           if process_unblocked = None then Some (None, s)
           else do {
             (tp, s) \<leftarrow> insertProcQ (readyQ s) process_unblocked s;
             Some (process_unblocked, s\<lparr>readyQ := tp\<rparr>)
           }
         }
         else Some (None, s))"

definition helper_check_interrupt_line :: "nat \<Rightarrow> 'a kstate_scheme \<Rightarrow> u32" where
  "helper_check_interrupt_line idx s =
     (let IPLines = drop_bit IPBITSPOS (s_cause (bios s) AND IPBITS)
      in if signed_drop_bit (REGWIDTH - 1) (push_bit (REGWIDTH - 1 - idx) IPLines) = 0
         then FALSE else TRUE)"

definition helper_check_interrupt_device :: "nat \<Rightarrow> u32 \<Rightarrow> 'a kstate_scheme \<Rightarrow> u32" where
  "helper_check_interrupt_device idx devRegAdd s =
     (let devBits = mem s devRegAdd
      in if signed_drop_bit (REGWIDTH - 1) (push_bit (REGWIDTH - 1 - idx) devBits) = 0
         then FALSE else TRUE)"

definition helper_unblock_process :: "u32 \<Rightarrow> 'a kstate_scheme \<Rightarrow> (ptr \<times> 'a kstate_scheme) option" where
  "helper_unblock_process semdAdd s = do {
     (unblocked_pcb, s) \<leftarrow> removeBlocked semdAdd s;
     let s = (if unblocked_pcb \<noteq> None then s\<lparr>softBlock_count := softBlock_count s - 1\<rparr> else s);
     Some (unblocked_pcb, s)
   }"

definition upd_dev :: "u32 \<Rightarrow> (device_t \<Rightarrow> device_t) \<Rightarrow> 'a kstate_scheme \<Rightarrow> 'a kstate_scheme" where
  "upd_dev a f s = s\<lparr>devregs := (devregs s)(a := f (devregs s a))\<rparr>"

text \<open>The last statements of most handlers: resume the interrupted process, if there is one.\<close>

definition resume :: "'a kstate_scheme \<Rightarrow> (exit \<times> 'a kstate_scheme) option" where
  "resume s = (if currentP s = None then scheduler s else Some (LDST (bios s), s))"

definition helper_terminal_device ::
    "u32 \<Rightarrow> u32 \<Rightarrow> u32 \<Rightarrow> 'a kstate_scheme \<Rightarrow> (exit \<times> 'a kstate_scheme) option" where
  "helper_terminal_device intLineNo devNo termRead s = do {
     let intDevRegAdd = devAddrBase intLineNo devNo;
     let (savedDevRegStatus, s) =
       (if termRead \<noteq> 0
        then (t_recv_status (devregs s intDevRegAdd),
              upd_dev intDevRegAdd (t_recv_command_update (\<lambda>_. ACK)) s)
        else (t_transm_status (devregs s intDevRegAdd),
              upd_dev intDevRegAdd (t_transm_command_update (\<lambda>_. ACK)) s));
     let devIdx = devSemIdx intLineNo devNo termRead;
     let s = upd_bios (set_reg R_a1 (device_sem devIdx s)) s;
     (unblocked_pcb, s) \<leftarrow> helper_verhogen s;
     if unblocked_pcb = None then resume s
     else do {
       let s = s\<lparr>softBlock_count := softBlock_count s - 1\<rparr>;
       u \<leftarrow> unblocked_pcb;
       let s = upd_pcb u (\<lambda>p. p\<lparr>p_s := set_reg R_v0 savedDevRegStatus (p_s p)\<rparr>) s;
       resume s
     }
   }"

definition helper_non_terminal_device ::
    "u32 \<Rightarrow> u32 \<Rightarrow> 'a kstate_scheme \<Rightarrow> (exit \<times> 'a kstate_scheme) option" where
  "helper_non_terminal_device intLineNo devNo s = do {
     let intDevRegAdd = devAddrBase intLineNo devNo;
     let savedDevRegStatus = d_status (devregs s intDevRegAdd);
     let s = upd_dev intDevRegAdd (d_command_update (\<lambda>_. ACK)) s;
     let devIdx = devSemIdx intLineNo devNo FALSE;
     let s = upd_bios (set_reg R_a1 (device_sem devIdx s)) s;
     (unblocked_pcb, s) \<leftarrow> helper_verhogen s;
     if unblocked_pcb = None then resume s
     else do {
       let s = s\<lparr>softBlock_count := softBlock_count s - 1\<rparr>;
       u \<leftarrow> unblocked_pcb;
       let s = upd_pcb u (\<lambda>p. p\<lparr>p_s := set_reg R_v0 savedDevRegStatus (p_s p)\<rparr>) s;
       resume s
     }
   }"

definition process_local_timer_interrupts :: "'a kstate_scheme \<Rightarrow> (exit \<times> 'a kstate_scheme) option" where
  "process_local_timer_interrupts s = do {
     let s = setTIMER 5000 s;
     let s = (case currentP s of None \<Rightarrow> s
              | Some c \<Rightarrow> upd_pcb c (\<lambda>p. p\<lparr>p_s := deep_copy_state_t (p_s p) (bios s)\<rparr>) s);
     c \<leftarrow> currentP s;
     let (t, s) = getTIMER s;
     let s = upd_pcb c (\<lambda>p. p\<lparr>p_time := p_time p + (5000 - t)\<rparr>) s;
     (tp, s) \<leftarrow> insertProcQ (readyQ s) (currentP s) s;
     let s = s\<lparr>readyQ := tp\<rparr>;
     scheduler s
   }"

text \<open>The loop of \<open>pseudo_clock_interrupts\<close>, which may not end on a broken list.\<close>

partial_function (option) unblock_all ::
    "u32 \<Rightarrow> ptr \<Rightarrow> 'a kstate_scheme \<Rightarrow> 'a kstate_scheme option" where
  "unblock_all pseudo_clock_sem unblocked_pcb s =
     (if unblocked_pcb \<noteq> None then do {
        (tp, s) \<leftarrow> insertProcQ (readyQ s) unblocked_pcb s;
        let s = s\<lparr>readyQ := tp\<rparr>;
        (unblocked_pcb, s) \<leftarrow> helper_unblock_process pseudo_clock_sem s;
        unblock_all pseudo_clock_sem unblocked_pcb s
      }
      else Some s)"

definition pseudo_clock_interrupts :: "'a kstate_scheme \<Rightarrow> (exit \<times> 'a kstate_scheme) option" where
  "pseudo_clock_interrupts s = do {
     let s = LDIT 100000 s;
     let pseudo_clock_sem = device_sem pseudo_clock_idx s;
     (unblocked_pcb, s) \<leftarrow> helper_unblock_process pseudo_clock_sem s;
     s \<leftarrow> unblock_all pseudo_clock_sem unblocked_pcb s;
     let s = poke pseudo_clock_sem 0 s;
     resume s
   }"

fun scan_devices :: "nat list \<Rightarrow> nat \<Rightarrow> 'a kstate_scheme \<Rightarrow> (exit option \<times> 'a kstate_scheme) option" where
  "scan_devices [] intLineNo s = Some (None, s)"
| "scan_devices (devNo # devs) intLineNo s =
     (if helper_check_interrupt_device devNo (intDevBitMap (of_nat intLineNo)) s = TRUE then
        (if intLineNo \<noteq> 7
         then map_option (map_prod Some id) (helper_non_terminal_device (of_nat intLineNo) (of_nat devNo) s)
         else
           let intDevRegAdd = devAddrBase (of_nat intLineNo) (of_nat devNo);
               termRead = (if d_status (devregs s intDevRegAdd) AND 0x000000FF = 5 then TRUE else FALSE)
           in map_option (map_prod Some id) (helper_terminal_device (of_nat intLineNo) (of_nat devNo) termRead s))
      else scan_devices devs intLineNo s)"

definition non_timer_interrupts :: "nat \<Rightarrow> 'a kstate_scheme \<Rightarrow> (exit option \<times> 'a kstate_scheme) option" where
  "non_timer_interrupts intLineNo s = scan_devices [0..<DEVPERINT] intLineNo s"

text \<open>
  The loop over the lines. The arms of the switch have no \<open>break\<close>: the first two leave the
  kernel, and a device line whose bit map is empty goes on to the next line.
\<close>

fun scan_lines :: "nat list \<Rightarrow> 'a kstate_scheme \<Rightarrow> (exit \<times> 'a kstate_scheme) option" where
  "scan_lines [] s = resume s"
| "scan_lines (lineNum # lines) s =
     (if helper_check_interrupt_line lineNum s = TRUE then
        (if lineNum = 0 then scan_lines lines s
         else if lineNum = 1 then process_local_timer_interrupts s
         else if lineNum = 2 then pseudo_clock_interrupts s
         else do {
           (e, s) \<leftarrow> non_timer_interrupts lineNum s;
           case e of Some e \<Rightarrow> Some (e, s) | None \<Rightarrow> scan_lines lines s
         })
      else scan_lines lines s)"

definition interrupt_exception_handler :: "'a kstate_scheme \<Rightarrow> (exit \<times> 'a kstate_scheme) option" where
  "interrupt_exception_handler s = scan_lines [0..<INTLINESCOUNT] s"

end
