(* ===== verification/Exceptions.thy ===== *)
theory Exceptions
  imports Interrupts
begin

text \<open>
  \<^verbatim>\<open>phase2/exceptions.c\<close>: system calls 1 to 8, pass up or die, and the dispatch on the
  exception code. \<open>kill_children\<close> and \<open>terminate_one\<close> are the two halves of
  \<open>helper_terminate_process\<close>: its loop over the children, with the recursive call, and the
  statements after the loop.
\<close>

section \<open>Helper functions\<close>

definition helper_PASSEREN :: "u32 \<Rightarrow> 'a kstate_scheme \<Rightarrow> 'a kstate_scheme option" where
  "helper_PASSEREN sema4 s =
     (let s = poke sema4 (mem s sema4 - 1) s
      in if sint (mem s sema4) < 0 then do {
           (_, s) \<leftarrow> insertBlocked sema4 (currentP s) s;
           Some s
         }
         else Some s)"

definition helper_blocking_syscall_handler :: "'a kstate_scheme \<Rightarrow> (exit \<times> 'a kstate_scheme) option" where
  "helper_blocking_syscall_handler s = do {
     let s = upd_bios (\<lambda>st. st\<lparr>s_pc := s_pc st + WORDLEN\<rparr>) s;
     c \<leftarrow> currentP s;
     let s = upd_pcb c (\<lambda>p. p\<lparr>p_s := deep_copy_state_t (p_s p) (bios s)\<rparr>) s;
     let (t, s) = getTIMER s;
     let s = upd_pcb c (\<lambda>p. p\<lparr>p_time := p_time p + (5000 - t)\<rparr>) s;
     scheduler s
   }"

definition helper_non_blocking_syscall_handler ::
    "'a kstate_scheme \<Rightarrow> (exit \<times> 'a kstate_scheme) option" where
  "helper_non_blocking_syscall_handler s = do {
     let s = upd_bios (\<lambda>st. st\<lparr>s_pc := s_pc st + WORDLEN\<rparr>) s;
     c \<leftarrow> currentP s;
     let (t, s) = getTIMER s;
     let s = upd_pcb c (\<lambda>p. p\<lparr>p_time := p_time p + (5000 - t)\<rparr>) s;
     Some (LDST (bios s), s)
   }"

definition check_KU_mode_bit :: "'a kstate_scheme \<Rightarrow> u32" where
  "check_KU_mode_bit s = (let KUp = s_status (bios s) AND 0x00000008 in if KUp = 0 then 0 else 1)"

definition terminate_one :: "nat \<Rightarrow> 'a kstate_scheme \<Rightarrow> 'a kstate_scheme option" where
  "terminate_one i s = do {
     (_, s) \<leftarrow> outChild (Some i) s;
     let a = p_semAdd (pcbs s i);
     s \<leftarrow> (if a < device_sem 0 s \<or> a > device_sem (of_nat (DEVINTNUM * DEVPERINT + DEVPERINT + 1 - 1)) s
       then do {
         (process_unblocked, s) \<leftarrow> outBlocked (Some i) s;
         if process_unblocked \<noteq> None then
           (let a = p_semAdd (pcbs s i)
            in if sint (mem s a) < 0 then Some (poke a (mem s a + 1) s) else Some s)
         else Some s
       }
       else do {
         (process_unblocked, s) \<leftarrow> outBlocked (Some i) s;
         if process_unblocked \<noteq> None then Some (s\<lparr>softBlock_count := softBlock_count s - 1\<rparr>)
         else Some s
       });
     (_, tp, s) \<leftarrow> outProcQ (readyQ s) (Some i) s;
     let s = s\<lparr>readyQ := tp\<rparr>;
     s \<leftarrow> freePcb (Some i) s;
     Some (s\<lparr>process_count := process_count s - 1\<rparr>)
   }"

partial_function (option) kill_children :: "nat \<Rightarrow> 'a kstate_scheme \<Rightarrow> 'a kstate_scheme option" where
  "kill_children i s = do {
     (childToBeTerminate, s) \<leftarrow> removeChild (Some i) s;
     (case childToBeTerminate of
        None \<Rightarrow> Some s
      | Some c \<Rightarrow> do {
          s \<leftarrow> kill_children c s;
          s \<leftarrow> terminate_one c s;
          kill_children i s
        })
   }"

definition helper_terminate_process :: "ptr \<Rightarrow> 'a kstate_scheme \<Rightarrow> 'a kstate_scheme option" where
  "helper_terminate_process toBeTerminate s = do {
     i \<leftarrow> toBeTerminate;
     s \<leftarrow> kill_children i s;
     terminate_one i s
   }"

section \<open>System calls\<close>

definition CREATEPROCESS :: "'a kstate_scheme \<Rightarrow> 'a kstate_scheme option" where
  "CREATEPROCESS s = do {
     (newProcess, s) \<leftarrow> allocPcb s;
     if newProcess = None then Some (upd_bios (set_reg R_v0 (- 1)) s)
     else do {
       n \<leftarrow> newProcess;
       let s = upd_pcb n (\<lambda>p. p\<lparr>p_s := deep_copy_state_t (p_s p) (states s (s_reg (bios s) R_a1))\<rparr>) s;
       let s = (if s_reg (bios s) R_a2 \<noteq> NULL \<and> s_reg (bios s) R_a2 \<noteq> 0
                then upd_pcb n (\<lambda>p. p\<lparr>p_supportStruct := s_reg (bios s) R_a2\<rparr>) s
                else upd_pcb n (\<lambda>p. p\<lparr>p_supportStruct := NULL\<rparr>) s);
       (tp, s) \<leftarrow> insertProcQ (readyQ s) newProcess s;
       let s = s\<lparr>readyQ := tp\<rparr>;
       s \<leftarrow> insertChild (currentP s) newProcess s;
       let s = upd_bios (set_reg R_v0 0) s;
       Some (s\<lparr>process_count := process_count s + 1\<rparr>)
     }
   }"

definition TERMINATEPROCESS :: "'a kstate_scheme \<Rightarrow> (exit \<times> 'a kstate_scheme) option" where
  "TERMINATEPROCESS s = do { s \<leftarrow> helper_terminate_process (currentP s) s; scheduler s }"

definition PASSEREN :: "'a kstate_scheme \<Rightarrow> (exit \<times> 'a kstate_scheme) option" where
  "PASSEREN s =
     (let sema4 = s_reg (bios s) R_a1;
          s = poke sema4 (mem s sema4 - 1) s
      in if sint (mem s sema4) < 0 then do {
           (_, s) \<leftarrow> insertBlocked sema4 (currentP s) s;
           helper_blocking_syscall_handler s
         }
         else helper_non_blocking_syscall_handler s)"

definition VERHOGEN :: "'a kstate_scheme \<Rightarrow> (ptr \<times> 'a kstate_scheme) option" where
  "VERHOGEN s =
     (let sema4 = s_reg (bios s) R_a1;
          s = poke sema4 (mem s sema4 + 1) s
      in if sint (mem s sema4) \<le> 0 then do {
           (process_unblocked, s) \<leftarrow> removeBlocked sema4 s;
           if process_unblocked = None then Some (None, s)
           else do {
             (tp, s) \<leftarrow> insertProcQ (readyQ s) process_unblocked s;
             Some (process_unblocked, s\<lparr>readyQ := tp\<rparr>)
           }
         }
         else Some (None, s))"

definition WAITIO :: "'a kstate_scheme \<Rightarrow> 'a kstate_scheme option" where
  "WAITIO s = do {
     let device_idx = devSemIdx (s_reg (bios s) R_a1) (s_reg (bios s) R_a2) (s_reg (bios s) R_a3);
     s \<leftarrow> helper_PASSEREN (device_sem device_idx s) s;
     Some (s\<lparr>softBlock_count := softBlock_count s + 1\<rparr>)
   }"

definition GETCPUTIME :: "'a kstate_scheme \<Rightarrow> 'a kstate_scheme option" where
  "GETCPUTIME s = do {
     c \<leftarrow> currentP s;
     let (t, s) = getTIMER s;
     Some (upd_bios (set_reg R_v0 (p_time (pcbs s c) + 5000 - t)) s)
   }"

definition WAITCLOCK :: "'a kstate_scheme \<Rightarrow> 'a kstate_scheme option" where
  "WAITCLOCK s = do {
     s \<leftarrow> helper_PASSEREN (device_sem pseudo_clock_idx s) s;
     Some (s\<lparr>softBlock_count := softBlock_count s + 1\<rparr>)
   }"

definition GETSUPPORTPTR :: "'a kstate_scheme \<Rightarrow> 'a kstate_scheme option" where
  "GETSUPPORTPTR s = do {
     c \<leftarrow> currentP s;
     Some (upd_bios (set_reg R_v0 (p_supportStruct (pcbs s c))) s)
   }"

section \<open>Dispatch\<close>

definition upd_support :: "u32 \<Rightarrow> (support_t \<Rightarrow> support_t) \<Rightarrow> 'a kstate_scheme \<Rightarrow> 'a kstate_scheme" where
  "upd_support a f s = s\<lparr>supports := (supports s)(a := f (supports s a))\<rparr>"

definition pass_up_or_die :: "nat \<Rightarrow> 'a kstate_scheme \<Rightarrow> (exit \<times> 'a kstate_scheme) option" where
  "pass_up_or_die exception_constant s = do {
     c \<leftarrow> currentP s;
     if p_supportStruct (pcbs s c) = NULL then do {
       s \<leftarrow> helper_terminate_process (currentP s) s;
       scheduler s
     }
     else do {
       let s = upd_support (p_supportStruct (pcbs s c)) (\<lambda>sup. sup\<lparr>sup_exceptState :=
           (sup_exceptState sup)(exception_constant :=
              deep_copy_state_t (sup_exceptState sup exception_constant) (bios s))\<rparr>) s;
       let ctx = sup_exceptContext (supports s (p_supportStruct (pcbs s c))) exception_constant;
       Some (LDCXT (c_stackPtr ctx) (c_status ctx) (c_pc ctx), s)
     }
   }"

text \<open>The arms of the switch that lack a \<open>break\<close> end in a call that leaves the kernel.\<close>

definition SYSCALL_handler :: "'a kstate_scheme \<Rightarrow> (exit \<times> 'a kstate_scheme) option" where
  "SYSCALL_handler s =
     (if check_KU_mode_bit s \<noteq> 0 then
        (let s = (if sint (s_reg (bios s) R_a0) \<le> 8 then
                    (let s = upd_bios (\<lambda>st. st\<lparr>s_cause := s_cause st OR 0x00000028\<rparr>) s
                     in upd_bios (\<lambda>st. st\<lparr>s_cause := s_cause st AND 0xFFFFFFEB\<rparr>) s)
                  else s)
         in pass_up_or_die GENERALEXCEPT s)
      else
        (let a0 = s_reg (bios s) R_a0
         in if a0 = 1 then do { s \<leftarrow> CREATEPROCESS s; helper_non_blocking_syscall_handler s }
            else if a0 = 2 then TERMINATEPROCESS s
            else if a0 = 3 then PASSEREN s
            else if a0 = 4 then do { (_, s) \<leftarrow> VERHOGEN s; helper_non_blocking_syscall_handler s }
            else if a0 = 5 then do { s \<leftarrow> WAITIO s; helper_blocking_syscall_handler s }
            else if a0 = 6 then do { s \<leftarrow> GETCPUTIME s; helper_non_blocking_syscall_handler s }
            else if a0 = 7 then do { s \<leftarrow> WAITCLOCK s; helper_blocking_syscall_handler s }
            else if a0 = 8 then do { s \<leftarrow> GETSUPPORTPTR s; helper_non_blocking_syscall_handler s }
            else pass_up_or_die GENERALEXCEPT s))"

text \<open>
  Exception codes: 0 is an interrupt, 1 to 3 are the TLB exceptions, 8 is a system call and 4
  to 7 and 9 to 12 are the program traps. For any other code the function of the code falls
  off its end, with nowhere to return to.
\<close>

definition exception_handler :: "'a kstate_scheme \<Rightarrow> (exit \<times> 'a kstate_scheme) option" where
  "exception_handler s =
     (let ExcCode = CauseExcCode (s_cause (bios s))
      in if ExcCode = 0 then interrupt_exception_handler s
         else if ExcCode \<in> {1, 2, 3} then pass_up_or_die PGFAULTEXCEPT s
         else if ExcCode \<in> {4, 5, 6, 7, 9, 10, 11, 12} then pass_up_or_die GENERALEXCEPT s
         else if ExcCode = 8 then SYSCALL_handler s
         else None)"

end
