(* ===== verification/Kernel.thy ===== *)
theory Kernel
  imports Exceptions
begin

text \<open>
  The invariant of the nucleus and what each of its parts does to it. \<open>kst s cur rd fr Q K\<close> says
  what the linked structures of the state stand for: \<open>fr\<close> the free pcbs, \<open>rd\<close> the ready queue,
  \<open>Q a\<close> the processes blocked on the semaphore at \<open>a\<close>, \<open>K p\<close> the children of \<open>p\<close>, and \<open>cur\<close> the
  processes that are in none of the queues (the running one, between exceptions). Every pcb
  is in exactly one of these places and the parent relation has no cycles.
\<close>

section \<open>The fields a change of the lower layers cannot touch\<close>

lemma asl_more_kernel [frame_simps]:
  assumes "aslmem.more s' = aslmem.more s"
  shows "process_count s' = process_count s" "softBlock_count s' = softBlock_count s"
    "readyQ s' = readyQ s" "currentP s' = currentP s" "device_sem_addr s' = device_sem_addr s"
    "fn_addr s' = fn_addr s" "mem s' = mem s" "states s' = states s" "supports s' = supports s"
    "devregs s' = devregs s" "status s' = status s" "plt s' = plt s" "plt_lag s' = plt_lag s"
    "plt_reads s' = plt_reads s" "kstate.more s' = kstate.more s"
  using assms by (cases s; cases s'; simp)+

lemma pcb_more_asl:
  assumes "pcbmem.more s' = pcbmem.more s"
  shows "semds s' = semds s" "semdFree_h s' = semdFree_h s" "semd_h s' = semd_h s"
    "semdTable_addr s' = semdTable_addr s" "aslmem.more s' = aslmem.more s" "lastSemd s' = lastSemd s"
  using assms by (cases s; cases s'; simp add: lastSemd_def)+

text \<open>\<open>kframe s s'\<close>: the two states agree on everything above the tables of phase 1.\<close>

definition kframe :: "'a kstate_scheme \<Rightarrow> 'a kstate_scheme \<Rightarrow> bool" where
  "kframe s s' \<longleftrightarrow> aslmem.more s' = aslmem.more s \<and> semdTable_addr s' = semdTable_addr s"

lemma kframe_refl [simp]: "kframe s s"
  by (simp add: kframe_def)

lemma kframe_trans: "kframe s s' \<Longrightarrow> kframe s' s'' \<Longrightarrow> kframe s s''"
  by (simp add: kframe_def)

lemma kframe_fields [frame_simps]:
  assumes "kframe s s'"
  shows "process_count s' = process_count s" "softBlock_count s' = softBlock_count s"
    "readyQ s' = readyQ s" "currentP s' = currentP s" "device_sem i s' = device_sem i s"
    "fn_addr s' = fn_addr s" "mem s' = mem s" "states s' = states s" "supports s' = supports s"
    "devregs s' = devregs s" "status s' = status s" "plt s' = plt s" "plt_lag s' = plt_lag s"
    "plt_reads s' = plt_reads s" "lastSemd s' = lastSemd s" "kstate.more s' = kstate.more s"
proof -
  note m = asl_more_kernel [OF conjunct1 [OF assms [unfolded kframe_def]]]
  show "process_count s' = process_count s" "softBlock_count s' = softBlock_count s"
    "readyQ s' = readyQ s" "currentP s' = currentP s" "device_sem i s' = device_sem i s"
    "fn_addr s' = fn_addr s" "mem s' = mem s" "states s' = states s" "supports s' = supports s"
    "devregs s' = devregs s" "status s' = status s" "plt s' = plt s" "plt_lag s' = plt_lag s"
    "plt_reads s' = plt_reads s" "lastSemd s' = lastSemd s" "kstate.more s' = kstate.more s"
    using assms by (simp_all add: m device_sem_def lastSemd_def kframe_def)
qed

lemma kframe_qframe: "qframe A s s' \<Longrightarrow> kframe s s'"
  by (simp add: kframe_def qframe_asl)

lemma tframe_asl:
  assumes "tframe C A s s'"
  shows "semds s' = semds s" "semdFree_h s' = semdFree_h s" "semd_h s' = semd_h s"
    "semdTable_addr s' = semdTable_addr s" "aslmem.more s' = aslmem.more s" "lastSemd s' = lastSemd s"
  using pcb_more_asl [OF tframe_pcb(8) [OF assms]] by simp_all

lemma kframe_tframe: "tframe C A s s' \<Longrightarrow> kframe s s'"
  by (simp add: kframe_def tframe_asl)

lemma kframe_bframe: "bframe A P s s' \<Longrightarrow> kframe s s'"
  by (simp add: kframe_def bframe_fields)

lemma kframe_pframe: "pframe A s s' \<Longrightarrow> kframe s s'"
  using pcb_more_asl(4,5) [of s' s] by (simp add: kframe_def pframe_def)

section \<open>The invariant\<close>

definition edges :: "(nat \<Rightarrow> nat list) \<Rightarrow> (nat \<times> nat) set" where
  "edges K = {(r, p). p \<in> set (K r)}"

definition trees :: "'a pcbmem_scheme \<Rightarrow> nat set \<Rightarrow> (nat \<Rightarrow> nat list) \<Rightarrow> bool" where
  "trees s L K \<longleftrightarrow>
     (\<forall>p\<in>L. children s p (K p) \<and> set (K p) \<subseteq> L \<and>
        (pprnt s p = None \<or> (\<exists>r. pprnt s p = Some r \<and> p \<in> set (K r)))) \<and>
     (\<forall>p. p \<notin> L \<longrightarrow> K p = []) \<and> acyclic (edges K)"

definition places :: "nat list \<Rightarrow> nat list \<Rightarrow> nat list \<Rightarrow> (u32 \<Rightarrow> nat list) \<Rightarrow> bool" where
  "places cur rd fr Q \<longleftrightarrow> distinct (cur @ rd @ fr) \<and> set (cur @ rd @ fr) \<subseteq> {0..<MAXPROC} \<and>
     (\<forall>p. blocked Q p \<longleftrightarrow> p \<in> {0..<MAXPROC} - set (cur @ rd @ fr))"

definition live :: "nat list \<Rightarrow> nat set" where
  "live fr = {0..<MAXPROC} - set fr"

definition kst :: "'a kstate_scheme \<Rightarrow> nat list \<Rightarrow> nat list \<Rightarrow> nat list \<Rightarrow> (u32 \<Rightarrow> nat list) \<Rightarrow> (nat \<Rightarrow> nat list) \<Rightarrow> bool" where
  "kst s cur rd fr Q K \<longleftrightarrow> pcbFree s fr \<and> procQ s (readyQ s) rd \<and> (\<exists>h ds t fl. asl s h ds t fl Q) \<and>
     places cur rd fr Q \<and> trees s (live fr) K \<and> (\<forall>p\<in>live fr. p_semAdd (pcbs s p) \<noteq> lastSemd s)"

text \<open>
  The two counters. \<open>in_devs s a\<close> is the test the code makes for a device semaphore: its
  address lies in the array.
\<close>

definition in_devs :: "'a kstate_scheme \<Rightarrow> u32 \<Rightarrow> bool" where
  "in_devs s a \<longleftrightarrow> device_sem 0 s \<le> a \<and> a \<le> device_sem 48 s"

definition waiting :: "'a kstate_scheme \<Rightarrow> (u32 \<Rightarrow> nat list) \<Rightarrow> nat set" where
  "waiting s Q = {p. \<exists>a. in_devs s a \<and> p \<in> set (Q a)}"

definition counts :: "'a kstate_scheme \<Rightarrow> nat list \<Rightarrow> (u32 \<Rightarrow> nat list) \<Rightarrow> bool" where
  "counts s fr Q \<longleftrightarrow> process_count s = of_nat (card (live fr)) \<and> softBlock_count s = of_nat (card (waiting s Q))"

definition cur_list :: "ptr \<Rightarrow> nat list" where
  "cur_list c = (case c of None \<Rightarrow> [] | Some i \<Rightarrow> [i])"

lemma cur_list_simps [simp]: "cur_list None = []" "cur_list (Some i) = [i]"
  by (simp_all add: cur_list_def)

section \<open>Changes that do not matter to the structures\<close>

definition same_struct :: "'a kstate_scheme \<Rightarrow> 'a kstate_scheme \<Rightarrow> bool" where
  "same_struct s s' \<longleftrightarrow>
     (\<forall>i. pnext s' i = pnext s i \<and> pprev s' i = pprev s i \<and> pchild s' i = pchild s i \<and> pprnt s' i = pprnt s i \<and>
        snext s' i = snext s i \<and> sprev s' i = sprev s i \<and> p_semAdd (pcbs s' i) = p_semAdd (pcbs s i)) \<and>
     pcbFree_h s' = pcbFree_h s \<and> semds s' = semds s \<and> semdFree_h s' = semdFree_h s \<and> semd_h s' = semd_h s \<and>
     semdTable_addr s' = semdTable_addr s \<and> readyQ s' = readyQ s"

lemma same_struct_kst:
  assumes f: "same_struct s s'"
  shows "kst s' cur rd fr Q K = kst s cur rd fr Q K"
proof -
  have e: "pnext s' = pnext s" "pprev s' = pprev s" "snext s' = snext s" "sprev s' = sprev s"
    using f by (auto simp: same_struct_def)
  have l: "lastSemd s' = lastSemd s" using f by (simp add: same_struct_def lastSemd_def)
  have q: "procQ s' tp xs = procQ s tp xs" for tp xs by (simp add: procQ_def e)
  have a: "asl s' h ds t fl Q = asl s h ds t fl Q" for h ds t fl
    using f by (simp add: asl_def q l same_struct_def)
  show ?thesis using f
    by (simp add: kst_def q a l e pcbFree_def trees_def children_def same_struct_def)
qed

lemma same_struct_trans: "same_struct s s' \<Longrightarrow> same_struct s' s'' \<Longrightarrow> same_struct s s''"
  by (simp add: same_struct_def)

lemma kst_fields [simp]:
  "kst (s\<lparr>process_count := n\<rparr>) cur rd fr Q K = kst s cur rd fr Q K"
  "kst (s\<lparr>softBlock_count := n\<rparr>) cur rd fr Q K = kst s cur rd fr Q K"
  "kst (s\<lparr>currentP := c\<rparr>) cur rd fr Q K = kst s cur rd fr Q K"
  "kst (poke a v s) cur rd fr Q K = kst s cur rd fr Q K"
  "kst (upd_bios f s) cur rd fr Q K = kst s cur rd fr Q K"
  "kst (upd_support a g s) cur rd fr Q K = kst s cur rd fr Q K"
  "kst (upd_dev a d s) cur rd fr Q K = kst s cur rd fr Q K"
  "kst (setTIMER v s) cur rd fr Q K = kst s cur rd fr Q K"
  "kst (setSTATUS v s) cur rd fr Q K = kst s cur rd fr Q K"
  "kst (s\<lparr>plt_reads := m\<rparr>) cur rd fr Q K = kst s cur rd fr Q K"
  by (rule same_struct_kst; simp add: same_struct_def poke_def upd_bios_def upd_support_def upd_dev_def
      setTIMER_def setSTATUS_def)+

lemma kst_upd_pcb [simp]:
  assumes "\<And>p. p_next (h p) = p_next p \<and> p_prev (h p) = p_prev p \<and> p_prnt (h p) = p_prnt p \<and>
    p_child (h p) = p_child p \<and> p_next_sib (h p) = p_next_sib p \<and> p_prev_sib (h p) = p_prev_sib p \<and>
    p_semAdd (h p) = p_semAdd p"
  shows "kst (upd_pcb i h s) cur rd fr Q K = kst s cur rd fr Q K"
  by (rule same_struct_kst) (simp add: same_struct_def upd_pcb_def assms)

text \<open>Reading the kernel's fields through the assignments.\<close>

lemma upd_pcb_kernel [simp]:
  "process_count (upd_pcb i f s) = process_count s" "softBlock_count (upd_pcb i f s) = softBlock_count s"
  "readyQ (upd_pcb i f s) = readyQ s" "currentP (upd_pcb i f s) = currentP s"
  "device_sem n (upd_pcb i f s) = device_sem n s" "fn_addr (upd_pcb i f s) = fn_addr s"
  "mem (upd_pcb i f s) = mem s" "states (upd_pcb i f s) = states s" "supports (upd_pcb i f s) = supports s"
  "devregs (upd_pcb i f s) = devregs s" "plt (upd_pcb i f s) = plt s" "plt_lag (upd_pcb i f s) = plt_lag s"
  "plt_reads (upd_pcb i f s) = plt_reads s" "lastSemd (upd_pcb i f s) = lastSemd s"
  "semdFree_h (upd_pcb i f s) = semdFree_h s"
  by (simp_all add: upd_pcb_def device_sem_def lastSemd_def)

lemma assign_kernel [simp]:
  "process_count (poke a v s) = process_count s" "softBlock_count (poke a v s) = softBlock_count s"
  "readyQ (poke a v s) = readyQ s" "currentP (poke a v s) = currentP s" "pcbs (poke a v s) = pcbs s"
  "states (poke a v s) = states s" "supports (poke a v s) = supports s" "devregs (poke a v s) = devregs s"
  "plt (poke a v s) = plt s" "plt_lag (poke a v s) = plt_lag s" "plt_reads (poke a v s) = plt_reads s"
  "device_sem n (poke a v s) = device_sem n s" "lastSemd (poke a v s) = lastSemd s" "fn_addr (poke a v s) = fn_addr s"
  "mem (poke a v s) = (mem s)(a := v)" "semdFree_h (poke a v s) = semdFree_h s"
  by (simp_all add: poke_def device_sem_def lastSemd_def)

lemma bios_kernel [simp]:
  "process_count (upd_bios f s) = process_count s" "softBlock_count (upd_bios f s) = softBlock_count s"
  "readyQ (upd_bios f s) = readyQ s" "currentP (upd_bios f s) = currentP s" "pcbs (upd_bios f s) = pcbs s"
  "bios (upd_bios f s) = f (bios s)" "supports (upd_bios f s) = supports s" "devregs (upd_bios f s) = devregs s"
  "plt (upd_bios f s) = plt s" "plt_lag (upd_bios f s) = plt_lag s" "plt_reads (upd_bios f s) = plt_reads s"
  "device_sem n (upd_bios f s) = device_sem n s" "lastSemd (upd_bios f s) = lastSemd s"
  "mem (upd_bios f s) = mem s" "fn_addr (upd_bios f s) = fn_addr s" "semdFree_h (upd_bios f s) = semdFree_h s"
  "a \<noteq> BIOSDATAPAGE \<Longrightarrow> states (upd_bios f s) a = states s a"
  by (simp_all add: upd_bios_def device_sem_def lastSemd_def)

lemma address_fields [simp]:
  "device_sem i (s\<lparr>readyQ := tp\<rparr>) = device_sem i s" "lastSemd (s\<lparr>readyQ := tp\<rparr>) = lastSemd s"
  "device_sem i (s\<lparr>process_count := n\<rparr>) = device_sem i s" "lastSemd (s\<lparr>process_count := n\<rparr>) = lastSemd s"
  "device_sem i (s\<lparr>softBlock_count := n\<rparr>) = device_sem i s" "lastSemd (s\<lparr>softBlock_count := n\<rparr>) = lastSemd s"
  "device_sem i (s\<lparr>currentP := c\<rparr>) = device_sem i s" "lastSemd (s\<lparr>currentP := c\<rparr>) = lastSemd s"
  "device_sem i (s\<lparr>plt_reads := m\<rparr>) = device_sem i s" "lastSemd (s\<lparr>plt_reads := m\<rparr>) = lastSemd s"
  "device_sem i (setTIMER v s) = device_sem i s" "lastSemd (setTIMER v s) = lastSemd s"
  "device_sem i (setSTATUS v s) = device_sem i s" "lastSemd (setSTATUS v s) = lastSemd s"
  "device_sem i (upd_dev b d s) = device_sem i s" "lastSemd (upd_dev b d s) = lastSemd s"
  "device_sem i (upd_support b g s) = device_sem i s" "lastSemd (upd_support b g s) = lastSemd s"
  by (simp_all add: device_sem_def lastSemd_def setTIMER_def setSTATUS_def upd_dev_def upd_support_def)

lemma waiting_cong:
  "device_sem_addr s' = device_sem_addr s \<Longrightarrow> waiting s' Q = waiting s Q"
  by (simp add: waiting_def in_devs_def device_sem_def)

section \<open>Moving a pcb between the places\<close>

lemma kstD:
  assumes "kst s cur rd fr Q K"
  shows "pcbFree s fr" "procQ s (readyQ s) rd" "\<exists>h ds t fl. asl s h ds t fl Q" "places cur rd fr Q"
    "trees s (live fr) K" "p \<in> live fr \<Longrightarrow> p_semAdd (pcbs s p) \<noteq> lastSemd s"
  using assms by (auto simp: kst_def)

lemma placesD:
  assumes "places cur rd fr Q"
  shows "distinct cur" "distinct rd" "distinct fr" "set cur \<inter> set rd = {}" "set cur \<inter> set fr = {}"
    "set rd \<inter> set fr = {}" "set (Q a) \<inter> set cur = {}" "set (Q a) \<inter> set rd = {}" "set (Q a) \<inter> set fr = {}"
    "set (Q a) \<subseteq> live fr" "set cur \<subseteq> live fr" "set rd \<subseteq> live fr" "finite (live fr)"
  using assms by (auto simp: places_def live_def blocked_def)

lemma places_not_blocked: "places cur rd fr Q \<Longrightarrow> p \<in> set cur \<union> set rd \<union> set fr \<Longrightarrow> \<not> blocked Q p"
  by (auto simp: places_def)

lemma asl_qframe:
  assumes A: "asl s h ds t fl Q" and f: "qframe X s s'" and X: "\<And>a. X \<inter> set (Q a) = {}"
  shows "asl s' h ds t fl Q"
  using A by (simp add: asl_def qframe_asl [OF f] qframe_procQ [OF f X] qframe_pcb [OF f])

lemma trees_qframe: "qframe X s s' \<Longrightarrow> trees s' L K = trees s L K"
  by (simp add: trees_def qframe_children qframe_pcb)

lemma trees_bframe: "bframe A P s s' \<Longrightarrow> trees s' L K = trees s L K"
  by (simp add: trees_def bframe_children bframe_fields)

lemma readyQ_update_same:
  "pcbFree (s\<lparr>readyQ := tp\<rparr>) xs = pcbFree s xs" "procQ (s\<lparr>readyQ := tp\<rparr>) tq xs = procQ s tq xs"
  "asl (s\<lparr>readyQ := tp\<rparr>) h ds t fl Q = asl s h ds t fl Q" "trees (s\<lparr>readyQ := tp\<rparr>) L K = trees s L K"
  "lastSemd (s\<lparr>readyQ := tp\<rparr>) = lastSemd s"
  by (simp_all add: pcbFree_def procQ_def asl_def trees_def children_def lastSemd_def)

lemma kst_ready_frame:
  assumes k: "kst s cur rd fr Q K" and f: "qframe X s s'" and X: "X \<subseteq> set cur \<union> set rd"
    and q: "procQ s' tp rd'" and p: "places cur' rd' fr Q"
  shows "kst (s'\<lparr>readyQ := tp\<rparr>) cur' rd' fr Q K"
proof -
  note d = placesD [OF kstD(4) [OF k]]
  have "X \<inter> set (Q a) = {}" for a using X d(7,8) [of a] by auto
  then have "\<exists>h ds t fl. asl s' h ds t fl Q" using kstD(3) [OF k] asl_qframe [OF _ f] by blast
  moreover have "X \<inter> set fr = {}" using X d(5,6) by auto
  then have "pcbFree s' fr" using kstD(1) [OF k] by (simp add: qframe_pcbFree [OF f])
  moreover have "trees s' (live fr) K" using kstD(5) [OF k] by (simp add: trees_qframe [OF f])
  moreover have "\<forall>p\<in>live fr. p_semAdd (pcbs s' p) \<noteq> lastSemd s'"
    using kstD(6) [OF k] by (simp add: qframe_pcb [OF f] qframe_asl [OF f])
  ultimately show ?thesis using q p by (simp add: kst_def readyQ_update_same)
qed

lemma kst_ready:
  assumes k: "kst s cur rd fr Q K" and p: "p \<in> set cur"
  shows "\<exists>s'. insertProcQ (readyQ s) (Some p) s = Some (Some p, s') \<and>
     kst (s'\<lparr>readyQ := Some p\<rparr>) (remove1 p cur) (rd @ [p]) fr Q K \<and> qframe (insert p (set rd)) s s'"
proof -
  note d = placesD [OF kstD(4) [OF k]]
  have "p \<notin> set rd" using p d(4) by auto
  from insertProcQ_spec [OF kstD(2) [OF k] this] obtain s' where
    s': "insertProcQ (readyQ s) (Some p) s = Some (Some p, s')" "procQ s' (Some p) (rd @ [p])"
      "qframe (insert p (set rd)) s s'" by blast
  have "places (remove1 p cur) (rd @ [p]) fr Q"
    using kstD(4) [OF k] p d(4,5) by (auto simp: places_def)
  with s' kst_ready_frame [OF k s'(3) _ s'(2)] p show ?thesis by blast
qed

lemma kst_take_ready:
  assumes k: "kst s cur (x # rd) fr Q K"
  shows "\<exists>tp s'. removeProcQ (readyQ s) s = Some (Some x, tp, s') \<and>
     kst (s'\<lparr>readyQ := tp\<rparr>) (x # cur) rd fr Q K \<and> qframe (set (x # rd)) s s'"
proof -
  from removeProcQ_Cons [OF kstD(2) [OF k]] obtain tp s' where
    s': "removeProcQ (readyQ s) s = Some (Some x, tp, s')" "procQ s' tp rd" "qframe (set (x # rd)) s s'"
    by blast
  have "places (x # cur) rd fr Q" using kstD(4) [OF k] by (auto simp: places_def)
  with s' kst_ready_frame [OF k s'(3) _ s'(2)] show ?thesis by blast
qed

lemma kst_out_ready:
  assumes k: "kst s cur rd fr Q K" and p: "p \<in> set rd"
  shows "\<exists>tp s'. outProcQ (readyQ s) (Some p) s = Some (Some p, tp, s') \<and>
     kst (s'\<lparr>readyQ := tp\<rparr>) (p # cur) (remove1 p rd) fr Q K \<and> qframe (set rd) s s'"
proof -
  from outProcQ_present [OF kstD(2) [OF k] p] obtain tp s' where
    s': "outProcQ (readyQ s) (Some p) s = Some (Some p, tp, s')" "procQ s' tp (remove1 p rd)" "qframe (set rd) s s'"
    by blast
  have "places (p # cur) (remove1 p rd) fr Q" using kstD(4) [OF k] p by (auto simp: places_def)
  with s' kst_ready_frame [OF k s'(3) _ s'(2)] show ?thesis by blast
qed

text \<open>The same for the queues of the semaphores.\<close>

lemma kst_blocked_frame:
  assumes k: "kst s cur rd fr Q K" and f: "bframe X P s s'" and X: "X \<subseteq> set cur \<union> set (Q a)"
    and A: "asl s' h ds t fl Q'" and p: "places cur' rd fr Q'"
    and P: "\<forall>p\<in>P. p_semAdd (pcbs s' p) \<noteq> lastSemd s"
  shows "kst s' cur' rd fr Q' K"
proof -
  note d = placesD [OF kstD(4) [OF k]]
  have r: "X \<inter> set rd = {}" "X \<inter> set fr = {}" using X d(4,5) d(8,9) [of a] by auto
  have "p_semAdd (pcbs s' p) \<noteq> lastSemd s'" if "p \<in> live fr" for p
    using P kstD(6) [OF k that] by (cases "p \<in> P") (simp_all add: bframe_fields [OF f] bframe_links [OF f])
  moreover have "readyQ s' = readyQ s" by (rule kframe_fields(3) [OF kframe_bframe [OF f]])
  ultimately show ?thesis using kstD(1,2,5) [OF k] A p
    by (auto simp: kst_def bframe_pcbFree [OF f r(2)] bframe_procQ [OF f r(1)] trees_bframe [OF f])
qed

lemma asl_room: "asl s h ds t fl Q \<Longrightarrow> Q a \<noteq> [] \<or> semdFree_h s \<noteq> None \<Longrightarrow> a \<in> skey s ` set ds \<or> fl \<noteq> []"
  by (auto simp: asl_def)

lemma blocked_fun_upd: "blocked (Q(a := xs)) p \<longleftrightarrow> p \<in> set xs \<or> (\<exists>b. b \<noteq> a \<and> p \<in> set (Q b))"
  by (auto simp: blocked_def split: if_splits)

lemma kst_Q_disjoint: "kst s cur rd fr Q K \<Longrightarrow> a \<noteq> b \<Longrightarrow> set (Q a) \<inter> set (Q b) = {}"
  using kstD(3) [of s cur rd fr Q K] asl_Q_disjoint by metis

lemma kst_Q_distinct: "kst s cur rd fr Q K \<Longrightarrow> distinct (Q a)"
  using kstD(3) [of s cur rd fr Q K] asl_Q_distinct by metis

lemma kst_Q_semAdd: "kst s cur rd fr Q K \<Longrightarrow> p \<in> set (Q a) \<Longrightarrow> p_semAdd (pcbs s p) = a"
  using kstD(3) [of s cur rd fr Q K] asl_Q_semAdd by metis

lemma kst_Q_lastSemd: "kst s cur rd fr Q K \<Longrightarrow> Q a \<noteq> [] \<Longrightarrow> a \<noteq> lastSemd s"
  using kstD(3) [of s cur rd fr Q K] asl_lastSemd by metis

lemma kst_block:
  assumes k: "kst s cur rd fr Q K" and p: "p \<in> set cur" and a: "a \<noteq> lastSemd s"
    and room: "Q a \<noteq> [] \<or> semdFree_h s \<noteq> None"
  shows "\<exists>s'. insertBlocked a (Some p) s = Some (FALSE, s') \<and>
     kst s' (remove1 p cur) rd fr (Q(a := Q a @ [p])) K \<and> bframe (insert p (set (Q a))) {p} s s'"
proof -
  note d = placesD [OF kstD(4) [OF k]]
  obtain h ds t fl where A: "asl s h ds t fl Q" using kstD(3) [OF k] by blast
  have nb: "\<not> blocked Q p" using places_not_blocked [OF kstD(4) [OF k]] p by auto
  from insertBlocked_spec [OF A a nb asl_room [OF A room]] obtain s' ds' fl' where
    s': "insertBlocked a (Some p) s = Some (FALSE, s')" "asl s' h ds' t fl' (Q(a := Q a @ [p]))"
      "bframe (insert p (set (Q a))) {p} s s'" by blast
  have pl: "p \<in> live fr" using p d(11) by auto
  have "p_semAdd (pcbs s' p) \<noteq> lastSemd s" using asl_Q_semAdd [OF s'(2), of p a] a by simp
  moreover have "blocked (Q(a := Q a @ [p])) q \<longleftrightarrow> q = p \<or> blocked Q q" for q
    by (auto simp: blocked_fun_upd) (auto simp: blocked_def)
  then have "places (remove1 p cur) rd fr (Q(a := Q a @ [p]))"
    using kstD(4) [OF k] p pl d(4) by (auto simp: places_def live_def)
  ultimately show ?thesis using kst_blocked_frame [OF k s'(3) _ s'(2), where a = a] s'(1,3) p by auto
qed

lemma blocked_remove:
  assumes d: "\<And>a b. a \<noteq> b \<Longrightarrow> set (Q a) \<inter> set (Q b) = {}" and p: "p \<in> set (Q a)"
    and xs: "set xs = set (Q a) - {p}"
  shows "blocked (Q(a := xs)) q \<longleftrightarrow> q \<noteq> p \<and> blocked Q q"
proof -
  have "q \<in> set ((Q(a := xs)) b) \<longleftrightarrow> q \<noteq> p \<and> q \<in> set (Q b)" for b
    using d [of b a] p xs by (cases "b = a") auto
  then show ?thesis by (simp add: blocked_def)
qed

lemma places_unblock:
  assumes k: "kst s cur rd fr Q K" and p: "p \<in> set (Q a)" and xs: "set xs = set (Q a) - {p}"
  shows "places (p # cur) rd fr (Q(a := xs))"
proof -
  note d = placesD [OF kstD(4) [OF k]]
  have "p \<in> live fr" "p \<notin> set cur" "p \<notin> set rd" using p d(7,8,10) [of a] by auto
  then show ?thesis using kstD(4) [OF k] blocked_remove [where Q = Q, OF kst_Q_disjoint [OF k] p xs]
    by (auto simp: places_def live_def)
qed

lemma kst_unblock:
  assumes k: "kst s cur rd fr Q K" and e: "Q a = p # ps" and n: "NULL \<noteq> lastSemd s"
  shows "\<exists>s'. removeBlocked a s = Some (Some p, s') \<and> kst s' (p # cur) rd fr (Q(a := ps)) K \<and>
     p_semAdd (pcbs s' p) = NULL \<and> bframe (set (Q a)) {p} s s'"
proof -
  obtain h ds t fl where A: "asl s h ds t fl Q" using kstD(3) [OF k] by blast
  from removeBlocked_some [OF A e] obtain s' ds' fl' where
    s': "removeBlocked a s = Some (Some p, s')" "asl s' h ds' t fl' (Q(a := ps))"
      "p_semAdd (pcbs s' p) = NULL" "bframe (set (Q a)) {p} s s'" by blast
  have "set ps = set (Q a) - {p}" using kst_Q_distinct [OF k, of a] e by auto
  then have "places (p # cur) rd fr (Q(a := ps))" using places_unblock [OF k] e by auto
  then show ?thesis using kst_blocked_frame [OF k s'(4) _ s'(2), where a = a] s' n by auto
qed

lemma kst_unblock_none:
  assumes k: "kst s cur rd fr Q K" and e: "Q a = []" and a: "a \<noteq> lastSemd s"
  shows "removeBlocked a s = Some (None, s)"
  using kstD(3) [OF k] removeBlocked_none [where Q = Q, OF _ a e] by blast

lemma kst_out_blocked:
  assumes k: "kst s cur rd fr Q K" and p: "p \<in> set (Q a)"
  shows "\<exists>s'. outBlocked (Some p) s = Some (Some p, s') \<and> kst s' (p # cur) rd fr (Q(a := remove1 p (Q a))) K \<and>
     p_semAdd (pcbs s' p) = a \<and> bframe (set (Q a)) {} s s'"
proof -
  obtain h ds t fl where A: "asl s h ds t fl Q" using kstD(3) [OF k] by blast
  from outBlocked_some [OF A p] obtain s' where
    s': "outBlocked (Some p) s = Some (Some p, s')" "asl s' h ds t fl (Q(a := remove1 p (Q a)))"
      "p_semAdd (pcbs s' p) = a" "bframe (set (Q a)) {} s s'" by blast
  have "places (p # cur) rd fr (Q(a := remove1 p (Q a)))"
    using places_unblock [OF k p] kst_Q_distinct [OF k, of a] by simp
  then show ?thesis using kst_blocked_frame [OF k s'(4) _ s'(2), where a = a] s' by auto
qed

lemma kst_out_blocked_none:
  assumes k: "kst s cur rd fr Q K" and p: "p \<in> set cur \<union> set rd"
  shows "outBlocked (Some p) s = Some (None, s)"
proof -
  note d = placesD [OF kstD(4) [OF k]]
  have "p \<in> live fr" using p d(11,12) by auto
  then show ?thesis using kstD(3) [OF k] outBlocked_none kstD(6) [OF k]
      places_not_blocked [OF kstD(4) [OF k]] p by blast
qed

section \<open>Allocation and the process tree\<close>

lemma asl_pframe:
  assumes A: "asl s h ds t fl Q" and f: "pframe X s s'" and X: "\<And>a. X \<inter> set (Q a) = {}"
  shows "asl s' h ds t fl Q"
proof -
  note m = pcb_more_asl [OF conjunct2 [OF f [unfolded pframe_def]]]
  have "p_semAdd (pcbs s' p) = p_semAdd (pcbs s p)" if "p \<in> set (Q a)" for p a
    using f X [of a] that by (auto simp: pframe_def)
  then show ?thesis using A by (simp add: asl_def m pframe_procQ [OF f X])
qed

lemma trees_pframe:
  assumes f: "pframe X s s'" and X: "X \<inter> L = {}" and T: "trees s L K"
  shows "trees s' L K"
proof -
  have "children s' p (K p) \<and> pprnt s' p = pprnt s p" if p: "p \<in> L" for p
  proof -
    have "p \<notin> X" "X \<inter> set (K p) = {}" "children s p (K p)" using X p T by (auto simp: trees_def)
    then show ?thesis using pframe_children [OF f] f by (metis pframe_def)
  qed
  then show ?thesis using T by (simp add: trees_def)
qed

lemma kst_pframe:
  assumes k: "kst s cur rd fr Q K" and f: "pframe {p} s s'" and p: "p \<in> set fr \<union> set cur"
    and F: "pcbFree s' fr'" and pl: "places cur' rd fr' Q" and T: "trees s' (live fr') K"
    and sa: "\<And>q. q \<in> live fr' \<Longrightarrow> q \<noteq> p \<Longrightarrow> q \<in> live fr" "p \<in> live fr' \<Longrightarrow> p_semAdd (pcbs s' p) \<noteq> lastSemd s"
  shows "kst s' cur' rd fr' Q K"
proof -
  note d = placesD [OF kstD(4) [OF k]]
  have "{p} \<inter> set (Q a) = {}" for a using p d(7,9) [of a] by auto
  then have A: "\<exists>h ds t fl. asl s' h ds t fl Q" using kstD(3) [OF k] asl_pframe [OF _ f] by blast
  have "{p} \<inter> set rd = {}" using p d(4,6) by auto
  moreover have "readyQ s' = readyQ s" by (rule kframe_fields(3) [OF kframe_pframe [OF f]])
  ultimately have R: "procQ s' (readyQ s') rd" using kstD(2) [OF k] by (simp add: pframe_procQ [OF f])
  have l: "lastSemd s' = lastSemd s" by (rule kframe_fields(15) [OF kframe_pframe [OF f]])
  have "p_semAdd (pcbs s' q) \<noteq> lastSemd s'" if q: "q \<in> live fr'" for q
  proof (cases "q = p")
    case False
    then have "pcbs s' q = pcbs s q" using f by (simp add: pframe_def)
    then show ?thesis using kstD(6) [OF k sa(1) [OF q False]] l by simp
  qed (use sa(2) q l in simp)
  then show ?thesis using F pl T A R by (simp add: kst_def)
qed

lemma live_simps [simp]:
  "live (n # fr) = live fr - {n}" "n < MAXPROC \<Longrightarrow> n \<notin> set fr \<Longrightarrow> n \<in> live fr"
  by (auto simp: live_def)

lemma treesD:
  assumes "trees s L K"
  shows "p \<in> L \<Longrightarrow> children s p (K p)" "set (K p) \<subseteq> L" "p \<notin> L \<Longrightarrow> K p = []" "acyclic (edges K)"
    "p \<in> L \<Longrightarrow> (\<And>r. p \<notin> set (K r)) \<Longrightarrow> pprnt s p = None"
  using assms by (auto simp: trees_def)

lemma kst_alloc:
  assumes k: "kst s cur rd (n # fr) Q K" and nl: "NULL \<noteq> lastSemd s"
  shows "\<exists>s'. allocPcb s = Some (Some n, s') \<and> kst s' (n # cur) rd fr Q K \<and> pcbs s' n = fresh_pcb \<and>
     pframe {n} s s'"
proof -
  from allocPcb_spec [OF kstD(1) [OF k]] obtain s' where
    s': "allocPcb s = Some (Some n, s')" "pcbFree s' fr" "pcbs s' n = fresh_pcb" "pframe {n} s s'" by blast
  note pl = kstD(4) [OF k] and T = kstD(5) [OF k]
  have n: "n \<in> live fr" using pl by (auto simp: places_def live_def)
  have pl': "places (n # cur) rd fr Q" using pl by (auto simp: places_def)
  have "trees s' (live (n # fr)) K" by (rule trees_pframe [OF s'(4) _ T]) simp
  moreover have "K n = []" using treesD(3) [OF T, of n] by simp
  then have "children s' n (K n) \<and> set (K n) \<subseteq> live fr \<and> pprnt s' n = None"
    using s'(3) by (simp add: children_def fresh_pcb_def)
  ultimately have "trees s' (live fr) K" by (auto simp: trees_def)
  then have "kst s' (n # cur) rd fr Q K"
    using kst_pframe [OF k s'(4) _ s'(2) pl'] s'(3) nl by (auto simp: fresh_pcb_def)
  with s' show ?thesis by blast
qed

lemma kst_free:
  assumes k: "kst s cur rd fr Q K" and p: "p \<in> set cur" and leaf: "K p = []" and orphan: "\<And>r. p \<notin> set (K r)"
  shows "\<exists>s'. freePcb (Some p) s = Some s' \<and> kst s' (remove1 p cur) rd (p # fr) Q K \<and> pframe {p} s s'"
proof -
  note pl = kstD(4) [OF k] and T = kstD(5) [OF k]
  have nf: "p \<notin> set fr" using p placesD(5) [OF pl] by auto
  from freePcb_spec [OF kstD(1) [OF k] nf] obtain s' where
    s': "freePcb (Some p) s = Some s'" "pcbFree s' (p # fr)" "pframe {p} s s'" by blast
  have pl': "places (remove1 p cur) rd (p # fr) Q" using pl p by (auto simp: places_def)
  have "trees s (live fr - {p}) K" unfolding trees_def
  proof (intro conjI ballI allI impI)
    fix q assume "q \<in> live fr - {p}"
    then have q: "q \<in> live fr" by simp
    show "children s q (K q)" by (rule treesD(1) [OF T q])
    show "set (K q) \<subseteq> live fr - {p}" using treesD(2) [OF T, of q] orphan [of q] by auto
    show "pprnt s q = None \<or> (\<exists>r. pprnt s q = Some r \<and> q \<in> set (K r))" using T q by (simp add: trees_def)
  qed (use treesD(3,4) [OF T] leaf in auto)
  then have "trees s (live (p # fr)) K" by simp
  then have T': "trees s' (live (p # fr)) K" by (rule trees_pframe [OF s'(3), rotated]) simp
  have "kst s' (remove1 p cur) rd (p # fr) Q K"
    by (rule kst_pframe [OF k s'(3) _ s'(2) pl' T']) (use p in simp_all)
  with s' show ?thesis by blast
qed

lemma trees_disjoint: "trees s L K \<Longrightarrow> q \<noteq> r \<Longrightarrow> set (K q) \<inter> set (K r) = {}"
  unfolding trees_def children_def by (metis disjoint_iff empty_iff list.set(1) option.inject)

lemma trees_change:
  assumes T: "trees s L K" and f: "tframe {r} (insert p (set (K r))) s s'" and c: "children s' r xs"
    and xs: "set xs \<subseteq> L" and rL: "r \<in> L" and p: "p \<in> set (K r) \<or> (\<forall>q. p \<notin> set (K q))"
    and out: "\<And>x. x \<in> insert p (set (K r)) \<Longrightarrow> x \<in> set xs \<or> pprnt s' x = None"
    and ac: "acyclic (edges (K(r := xs)))"
  shows "trees s' L (K(r := xs))"
proof -
  have kids: "children s' q (K q)" if q: "q \<in> L" "q \<noteq> r" for q
  proof -
    have "insert p (set (K r)) \<inter> set (K q) = {}" using trees_disjoint [OF T, of q r] q p by auto
    then show ?thesis using T q tframe_children [OF f, of q "K q"] by (simp add: trees_def)
  qed
  have "pprnt s' q = None \<or> (\<exists>r'. pprnt s' q = Some r' \<and> q \<in> set ((K(r := xs)) r'))" if q: "q \<in> L" for q
  proof (cases "q \<in> insert p (set (K r))")
    case True
    with out [OF True] c show ?thesis by (auto simp: children_def)
  next
    case False
    then have "pprnt s' q = pprnt s q" by (rule tframe_links(2) [OF f])
    then show ?thesis using T q False by (auto simp: trees_def)
  qed
  with T c xs rL kids ac show ?thesis by (auto simp: trees_def)
qed

lemma kst_tframe:
  assumes k: "kst s cur rd fr Q K" and f: "tframe C X s s'" and T: "trees s' (live fr) K'"
  shows "kst s' cur rd fr Q K'"
proof -
  have "asl s' h ds t fl Q = asl s h ds t fl Q" for h ds t fl
    by (simp add: asl_def tframe_asl [OF f] tframe_procQ [OF f] tframe_pcb [OF f])
  then show ?thesis using k T kframe_fields(3) [OF kframe_tframe [OF f]]
    by (simp add: kst_def tframe_pcbFree [OF f] tframe_procQ [OF f] tframe_pcb [OF f] tframe_asl [OF f])
qed

lemma acyclic_subset_edges: "acyclic (edges K) \<Longrightarrow> set xs \<subseteq> set (K r) \<Longrightarrow> acyclic (edges (K(r := xs)))"
  by (erule acyclic_subset) (auto simp: edges_def split: if_splits)

lemma kst_insertChild:
  assumes k: "kst s cur rd fr Q K" and r: "r \<in> live fr" and p: "p \<in> live fr" "r \<noteq> p" "K p = []"
    and orphan: "\<And>q. p \<notin> set (K q)"
  shows "\<exists>s'. insertChild (Some r) (Some p) s = Some s' \<and> kst s' cur rd fr Q (K(r := K r @ [p])) \<and>
     tframe {r} (insert p (set (K r))) s s'"
proof -
  note T = kstD(5) [OF k]
  have c: "children s r (K r)" using T r by (simp add: trees_def)
  from insertChild_spec [OF c orphan] obtain s' where
    s': "insertChild (Some r) (Some p) s = Some s'" "children s' r (K r @ [p])"
      "tframe {r} (insert p (set (K r))) s s'" by blast
  have "edges (K(r := K r @ [p])) = insert (r, p) (edges K)" by (auto simp: edges_def split: if_splits)
  moreover have "(p, r) \<notin> (edges K)\<^sup>*"
  proof
    assume "(p, r) \<in> (edges K)\<^sup>*"
    then show False using p(2,3) by (cases rule: converse_rtranclE) (simp_all add: edges_def)
  qed
  ultimately have ac: "acyclic (edges (K(r := K r @ [p])))" using T by (simp add: trees_def acyclic_insert)
  have "trees s' (live fr) (K(r := K r @ [p]))"
  proof (rule trees_change [OF T s'(3,2) _ r _ _ ac])
    show "set (K r @ [p]) \<subseteq> live fr" using treesD(2) [OF T, of r] p(1) by simp
  qed (use orphan in auto)
  with s' kst_tframe [OF k s'(3)] show ?thesis by blast
qed

lemma kst_removeChild:
  assumes k: "kst s cur rd fr Q K" and r: "r \<in> live fr" "K r = x # xs"
  shows "\<exists>s'. removeChild (Some r) s = Some (Some x, s') \<and> kst s' cur rd fr Q (K(r := xs)) \<and>
     tframe {r} (set (K r)) s s'"
proof -
  note T = kstD(5) [OF k]
  have c: "children s r (x # xs)" using T r by (metis trees_def)
  from removeChild_Cons [OF c] obtain s' where
    s': "removeChild (Some r) s = Some (Some x, s')" "children s' r xs" "pprnt s' x = None"
      "tframe {r} (set (x # xs)) s s'" by blast
  have f: "tframe {r} (insert x (set (K r))) s s'" using s'(4) r(2) by (simp add: insert_absorb)
  have ac: "acyclic (edges (K(r := xs)))" using T r(2) by (auto simp: trees_def intro: acyclic_subset_edges)
  have "trees s' (live fr) (K(r := xs))"
  proof (rule trees_change [OF T f s'(2) _ r(1) _ _ ac])
    show "set xs \<subseteq> live fr" using treesD(2) [OF T, of r] r(2) by simp
  qed (use r(2) s'(3) in auto)
  with s' kst_tframe [OF k s'(4)] r(2) show ?thesis by auto
qed

lemma kst_outChild_orphan:
  assumes k: "kst s cur rd fr Q K" and p: "p \<in> live fr" and orphan: "\<And>r. p \<notin> set (K r)"
  shows "outChild (Some p) s = Some (None, s)"
proof -
  have "pprnt s p = None" using treesD(5) [OF kstD(5) [OF k] p orphan] .
  then show ?thesis by (rule outChild_orphan)
qed

lemma kst_outChild:
  assumes k: "kst s cur rd fr Q K" and r: "r \<in> live fr" and p: "p \<in> set (K r)"
  shows "\<exists>s'. outChild (Some p) s = Some (Some p, s') \<and> kst s' cur rd fr Q (K(r := remove1 p (K r))) \<and>
     tframe {r} (set (K r)) s s'"
proof -
  note T = kstD(5) [OF k]
  have c: "children s r (K r)" using T r by (simp add: trees_def)
  from outChild_present [OF c p] obtain s' where
    s': "outChild (Some p) s = Some (Some p, s')" "children s' r (remove1 p (K r))" "pprnt s' p = None"
      "tframe {r} (set (K r)) s s'" by blast
  have f: "tframe {r} (insert p (set (K r))) s s'" using s'(4) p by (simp add: insert_absorb)
  have sub: "set (remove1 p (K r)) \<subseteq> set (K r)" by (rule set_remove1_subset)
  have ac: "acyclic (edges (K(r := remove1 p (K r))))"
    using T sub by (auto simp: trees_def intro: acyclic_subset_edges)
  have "trees s' (live fr) (K(r := remove1 p (K r)))"
  proof (rule trees_change [OF T f s'(2) _ r _ _ ac])
    show "set (remove1 p (K r)) \<subseteq> live fr" using treesD(2) [OF T, of r] sub by auto
  qed (use p s'(3) children_distinct [OF c] in auto)
  with s' kst_tframe [OF k s'(4)] show ?thesis by blast
qed

section \<open>What the queue operations leave alone\<close>

text \<open>\<open>quiet s s'\<close>: from \<open>s\<close> to \<open>s'\<close> pcbs may have moved between the queues, and another process
  may have become current, but no process's data, no counter, no memory and nothing above the kernel has changed.\<close>

definition quiet :: "'a kstate_scheme \<Rightarrow> 'a kstate_scheme \<Rightarrow> bool" where
  "quiet s s' \<longleftrightarrow>
     (\<forall>i. p_s (pcbs s' i) = p_s (pcbs s i) \<and> p_time (pcbs s' i) = p_time (pcbs s i) \<and>
        p_supportStruct (pcbs s' i) = p_supportStruct (pcbs s i)) \<and>
     process_count s' = process_count s \<and> softBlock_count s' = softBlock_count s \<and>
     device_sem_addr s' = device_sem_addr s \<and> semdTable_addr s' = semdTable_addr s \<and> fn_addr s' = fn_addr s \<and>
     mem s' = mem s \<and> states s' = states s \<and> supports s' = supports s \<and> devregs s' = devregs s \<and>
     plt_lag s' = plt_lag s \<and> plt_reads s' = plt_reads s \<and> kstate.more s' = kstate.more s"

lemma quietD:
  assumes "quiet s s'"
  shows "p_s (pcbs s' i) = p_s (pcbs s i)" "p_time (pcbs s' i) = p_time (pcbs s i)"
    "p_supportStruct (pcbs s' i) = p_supportStruct (pcbs s i)" "process_count s' = process_count s"
    "softBlock_count s' = softBlock_count s" "mem s' = mem s" "states s' = states s" "supports s' = supports s"
    "devregs s' = devregs s" "plt_lag s' = plt_lag s" "plt_reads s' = plt_reads s"
    "device_sem n s' = device_sem n s" "lastSemd s' = lastSemd s" "in_devs s' a = in_devs s a"
    "waiting s' Q = waiting s Q" "counts s' fr Q = counts s fr Q" "fn_addr s' = fn_addr s" "kstate.more s' = kstate.more s"
  using assms by (simp_all add: quiet_def device_sem_def lastSemd_def in_devs_def waiting_def counts_def)

lemma quiet_refl [simp]: "quiet s s"
  by (simp add: quiet_def)

lemma quiet_trans: "quiet s s' \<Longrightarrow> quiet s' s'' \<Longrightarrow> quiet s s''"
  by (simp add: quiet_def)

lemma quiet_kframe:
  assumes f: "kframe s s'"
    and p: "\<And>i. p_s (pcbs s' i) = p_s (pcbs s i) \<and> p_time (pcbs s' i) = p_time (pcbs s i) \<and>
        p_supportStruct (pcbs s' i) = p_supportStruct (pcbs s i)"
  shows "quiet s s'"
proof -
  have "device_sem_addr s' = device_sem_addr s"
    using kframe_fields(5) [OF f, of 0] by (simp add: device_sem_def)
  moreover have "semdTable_addr s' = semdTable_addr s" using f by (simp add: kframe_def)
  ultimately show ?thesis using p by (simp add: quiet_def kframe_fields [OF f])
qed

lemma quiet_qframe: "qframe A s s' \<Longrightarrow> quiet s s'"
  by (rule quiet_kframe) (simp_all add: kframe_qframe qframe_pcb)

lemma quiet_bframe: "bframe A P s s' \<Longrightarrow> quiet s s'"
  by (rule quiet_kframe) (simp_all add: kframe_bframe bframe_fields)

lemma quiet_tframe: "tframe C A s s' \<Longrightarrow> quiet s s'"
  by (rule quiet_kframe) (simp_all add: kframe_tframe tframe_pcb)

lemma quiet_assign [simp]:
  "quiet s (s'\<lparr>readyQ := tp\<rparr>) = quiet s s'" "quiet s (s'\<lparr>currentP := c\<rparr>) = quiet s s'"
  "quiet s (setTIMER v s') = quiet s s'" "quiet s (setSTATUS v s') = quiet s s'"
  by (simp_all add: quiet_def setTIMER_def setSTATUS_def)

section \<open>The scheduler\<close>

lemma kst_scheduler_run:
  assumes k: "kst s cur (x # rd) fr Q K"
  shows "\<exists>s'. scheduler s = Some (LDST (p_s (pcbs s x)), s') \<and> kst s' (x # cur) rd fr Q K \<and>
     currentP s' = Some x \<and> plt s' = 5000 \<and> quiet s s' \<and> semdFree_h s' = semdFree_h s"
proof -
  from kst_take_ready [OF k] obtain tp s1 where
    s1: "removeProcQ (readyQ s) s = Some (Some x, tp, s1)" "kst (s1\<lparr>readyQ := tp\<rparr>) (x # cur) rd fr Q K"
      "qframe (set (x # rd)) s s1" by blast
  let ?s' = "setTIMER 5000 (s1\<lparr>readyQ := tp, currentP := Some x\<rparr>)"
  have "scheduler s = Some (LDST (p_s (pcbs s1 x)), ?s')"
    by (simp add: scheduler_def s1(1) Let_def) (simp add: setTIMER_def)
  moreover have "p_s (pcbs s1 x) = p_s (pcbs s x)" by (rule qframe_pcb(5) [OF s1(3)])
  moreover have "kst ?s' (x # cur) rd fr Q K"
    using s1(2) kst_fields(3) [of "Some x" "s1\<lparr>readyQ := tp\<rparr>"] by simp
  moreover have "currentP ?s' = Some x" "plt ?s' = 5000" "quiet s ?s'" "semdFree_h ?s' = semdFree_h s"
    using quiet_qframe [OF s1(3)] qframe_asl(2) [OF s1(3)] by (simp_all add: setTIMER_def quiet_def)
  ultimately show ?thesis by metis
qed

lemma card_live_waiting:
  assumes "kst s cur rd fr Q K"
  shows "finite (live fr)" "waiting s Q \<subseteq> live fr" "card (live fr) \<le> 20" "card (waiting s Q) \<le> 20"
proof -
  note d = placesD [OF kstD(4) [OF assms]]
  show fin: "finite (live fr)" by (rule d(13))
  show sub: "waiting s Q \<subseteq> live fr" using d(10) by (auto simp: waiting_def)
  have "live fr \<subseteq> {0..<20}" by (auto simp: live_def MAXPROC_def)
  then show c: "card (live fr) \<le> 20" using card_mono [of "{0..<20::nat}"] by fastforce
  show "card (waiting s Q) \<le> 20" using card_mono [OF fin sub] c by simp
qed

lemma small_count: "n \<le> 20 \<Longrightarrow> sint (of_nat n :: u32) = int n"
  by (simp add: signed_of_nat signed_take_bit_int_eq_self)

lemma kst_scheduler_idle:
  assumes k: "kst s [] [] fr Q K" and c: "counts s fr Q"
  shows "\<exists>s'. scheduler s = Some
       ((if live fr = {} then HALT else if waiting s Q \<noteq> {} then WAIT else PANIC), s') \<and>
     kst s' [] [] fr Q K \<and> counts s' fr Q \<and> currentP s' = None \<and> quiet s s'"
proof -
  note n = card_live_waiting [OF k]
  have fw: "finite (waiting s Q)" by (rule finite_subset [OF n(2,1)])
  have e: "removeProcQ (readyQ s) s = Some (None, None, s)" by (rule removeProcQ_Nil [OF kstD(2) [OF k]])
  have r: "readyQ s = None" using kstD(2) [OF k] by simp
  have z: "process_count s = 0 \<longleftrightarrow> live fr = {}"
  proof -
    have "process_count s = 0 \<longleftrightarrow> sint (process_count s) = 0" by (metis sint_0 signed_word_eqI)
    then show ?thesis using c n(1) small_count [OF n(3)] by (simp add: counts_def)
  qed
  have w: "0 < sint (softBlock_count s) \<longleftrightarrow> waiting s Q \<noteq> {}"
    using c fw small_count [OF n(4)] by (simp add: counts_def card_gt_0_iff)
  define s0 where "s0 = s\<lparr>readyQ := None, currentP := None\<rparr>"
  have "s\<lparr>readyQ := None\<rparr> = s" using r by (cases s) simp
  then have k0: "kst s0 [] [] fr Q K" "quiet s s0" "currentP s0 = None"
    using k by (simp_all add: s0_def quiet_def)
  have "scheduler s = Some (if live fr = {} then HALT else if waiting s Q \<noteq> {} then WAIT else PANIC,
      if live fr \<noteq> {} \<and> waiting s Q \<noteq> {} then setSTATUS 0xff01 s0 else s0)"
    using z w by (simp add: scheduler_def e s0_def Let_def)
  moreover have "currentP (setSTATUS 0xff01 s0) = None" using k0(3) by (simp add: setSTATUS_def)
  moreover have "counts s0 fr Q" "counts (setSTATUS 0xff01 s0) fr Q" "quiet s (setSTATUS 0xff01 s0)"
    using quietD(16) [OF k0(2)] quietD(16) [of s "setSTATUS 0xff01 s0"] c k0(2) by simp_all
  ultimately show ?thesis using k0 by (cases "live fr \<noteq> {} \<and> waiting s Q \<noteq> {}") auto
qed

text \<open>
  \<open>dispatched s e s' \<dots>\<close>: the scheduler, run in \<open>s\<close>, left the kernel by \<open>e\<close> with the state \<open>s'\<close>. The
  head of the ready queue is running; or the queue is empty and the system halts (nothing is
  left), waits for a device (some process waits for one) or panics (deadlock).
\<close>

definition dispatched :: "'a kstate_scheme \<Rightarrow> exit \<Rightarrow> 'a kstate_scheme \<Rightarrow> nat list \<Rightarrow> nat list \<Rightarrow>
    (u32 \<Rightarrow> nat list) \<Rightarrow> (nat \<Rightarrow> nat list) \<Rightarrow> bool" where
  "dispatched s e s' rd fr Q K \<longleftrightarrow> counts s' fr Q \<and> quiet s s' \<and>
     (case rd of
        x # xs \<Rightarrow> e = LDST (p_s (pcbs s x)) \<and> currentP s' = Some x \<and> plt s' = 5000 \<and> kst s' [x] xs fr Q K
      | [] \<Rightarrow> e = (if live fr = {} then HALT else if waiting s Q \<noteq> {} then WAIT else PANIC) \<and>
          currentP s' = None \<and> kst s' [] [] fr Q K)"

lemma kst_dispatch:
  assumes k: "kst s [] rd fr Q K" and c: "counts s fr Q"
  shows "\<exists>e s'. scheduler s = Some (e, s') \<and> dispatched s e s' rd fr Q K"
proof (cases rd)
  case Nil
  from kst_scheduler_idle [OF k [unfolded Nil] c] show ?thesis
    unfolding dispatched_def Nil list.case by blast
next
  case (Cons x xs)
  from kst_scheduler_run [OF k [unfolded Cons]] obtain s' where
    "scheduler s = Some (LDST (p_s (pcbs s x)), s')" "kst s' [x] xs fr Q K" "currentP s' = Some x"
    "plt s' = 5000" "quiet s s'" by blast
  then show ?thesis using c quietD(16) [of s s'] by (auto simp: dispatched_def Cons)
qed

section \<open>The count of the processes that wait for a device\<close>

lemma waiting_other: "\<not> in_devs s a \<Longrightarrow> waiting s (Q(a := xs)) = waiting s Q"
  by (auto simp: waiting_def)

lemma waiting_block:
  "in_devs s a \<Longrightarrow> waiting s (Q(a := Q a @ [p])) = insert p (waiting s Q)"
  by (auto simp: waiting_def)

lemma waiting_unblock:
  assumes k: "kst s cur rd fr Q K" and d: "in_devs s a" and p: "p \<in> set (Q a)" and xs: "set xs = set (Q a) - {p}"
  shows "waiting s (Q(a := xs)) = waiting s Q - {p}" "p \<in> waiting s Q"
proof -
  have "p \<notin> set (Q b)" if "b \<noteq> a" for b using kst_Q_disjoint [OF k that] p by auto
  then show "waiting s (Q(a := xs)) = waiting s Q - {p}" using d xs
    by (auto simp: waiting_def split: if_splits) metis
  show "p \<in> waiting s Q" using d p by (auto simp: waiting_def)
qed

lemma count_insert: "finite X \<Longrightarrow> x \<notin> X \<Longrightarrow> (of_nat (card (insert x X)) :: u32) = of_nat (card X) + 1"
  by simp

lemma count_remove: "finite X \<Longrightarrow> x \<in> X \<Longrightarrow> (of_nat (card (X - {x})) :: u32) = of_nat (card X) - 1"
proof -
  assume "finite X" "x \<in> X"
  then have c: "Suc (card (X - {x})) = card X" by (rule card_Suc_Diff1)
  show ?thesis unfolding c [symmetric] of_nat_Suc by simp
qed

lemma finite_waiting: "kst s cur rd fr Q K \<Longrightarrow> finite (waiting s Q)"
  by (rule finite_subset [OF card_live_waiting(2,1)])

lemma counts_block_other:
  "counts s fr Q \<Longrightarrow> \<not> in_devs s a \<Longrightarrow> counts s fr (Q(a := xs))"
  by (simp add: counts_def waiting_other)

lemma counts_block_device:
  assumes k: "kst s cur rd fr Q K" and c: "counts s fr Q" and d: "in_devs s a" and p: "p \<in> set cur"
  shows "counts (s\<lparr>softBlock_count := softBlock_count s + 1\<rparr>) fr (Q(a := Q a @ [p]))"
proof -
  have "p \<notin> waiting s Q"
    using places_not_blocked [OF kstD(4) [OF k], of p] p by (auto simp: waiting_def blocked_def)
  then show ?thesis using c count_insert [OF finite_waiting [OF k]] waiting_block [OF d, of Q p]
      waiting_cong [of "s\<lparr>softBlock_count := softBlock_count s + 1\<rparr>" s]
    by (simp add: counts_def)
qed

lemma counts_unblock_device:
  assumes k: "kst s cur rd fr Q K" and c: "counts s fr Q" and d: "in_devs s a" and p: "p \<in> set (Q a)"
    and xs: "set xs = set (Q a) - {p}"
  shows "counts (s\<lparr>softBlock_count := softBlock_count s - 1\<rparr>) fr (Q(a := xs))"
  using c waiting_unblock [OF k d p xs] count_remove [OF finite_waiting [OF k]]
    waiting_cong [of "s\<lparr>softBlock_count := softBlock_count s - 1\<rparr>" s]
  by (simp add: counts_def)

lemma counts_alloc:
  assumes k: "kst s cur rd (n # fr) Q K" and c: "counts s (n # fr) Q"
  shows "counts (s\<lparr>process_count := process_count s + 1\<rparr>) fr Q"
proof -
  have n: "n \<in> live fr" using kstD(4) [OF k] by (auto simp: places_def live_def)
  have "card (live fr) = Suc (card (live fr - {n}))"
    using card_Suc_Diff1 [OF _ n] by (simp add: live_def)
  then show ?thesis using c waiting_cong [of "s\<lparr>process_count := process_count s + 1\<rparr>" s]
    by (simp add: counts_def)
qed

lemma counts_free:
  assumes c: "counts s fr Q" and p: "p \<in> live fr"
  shows "counts (s\<lparr>process_count := process_count s - 1\<rparr>) (p # fr) Q"
proof -
  have "finite (live fr)" by (simp add: live_def)
  then show ?thesis using c count_remove [of "live fr" p] p
      waiting_cong [of "s\<lparr>process_count := process_count s - 1\<rparr>" s]
    by (simp add: counts_def)
qed

end
