(* ===== verification/Boot.thy ===== *)
theory Boot
  imports Kernel
begin

text \<open>
  The start of the system and the scheduler: what \<open>main\<close> establishes and which of its exits
  \<open>scheduler\<close> takes. \<open>layout\<close> says what the linker and the machine guarantee about the
  addresses of the kernel's tables: they lie in RAM and do not overlap.
\<close>

section \<open>Addresses\<close>

definition layout :: "'a kstate_scheme \<Rightarrow> bool" where
  "layout s \<longleftrightarrow> RAMSTART \<le> device_sem_addr s \<and> device_sem_addr s \<le> 0x7FFFF000 \<and>
     RAMSTART \<le> semdTable_addr s \<and> semdTable_addr s \<le> 0x7FFFF000 \<and> \<not> in_devs s (lastSemd s)"

lemma layout_addrs:
  assumes "layout s"
  shows "NULL \<noteq> lastSemd s" "lastSemd s \<noteq> NULL" "\<not> in_devs s NULL"
    "i \<le> 48 \<Longrightarrow> device_sem i s \<noteq> lastSemd s" "i \<le> 48 \<Longrightarrow> in_devs s (device_sem i s)"
    "a < RAMSTART \<Longrightarrow> i \<le> 48 \<Longrightarrow> device_sem i s \<noteq> a"
    "i \<le> 48 \<Longrightarrow> j \<le> 48 \<Longrightarrow> device_sem i s = device_sem j s \<longleftrightarrow> i = j"
proof -
  note l = assms [unfolded layout_def RAMSTART_def]
  have d: "uint (device_sem i s) = uint (device_sem_addr s) + 4 * uint i" if "i \<le> 48" for i
    using l that unfolding device_sem_def by (simp add: word_le_def uint_word_ariths)
  have ge: "536870912 \<le> uint (device_sem i s)" if "i \<le> 48" for i
  proof -
    have "536870912 \<le> uint (device_sem_addr s)" using l by (simp add: word_le_def)
    moreover have "0 \<le> uint i" by (rule uint_nonnegative)
    ultimately show ?thesis using d [OF that] by linarith
  qed
  have e: "uint (lastSemd s) = uint (semdTable_addr s) + 252"
    using l unfolding lastSemd_def MAXPROC_def by (simp add: word_le_def uint_word_ariths)
  show in_d: "i \<le> 48 \<Longrightarrow> in_devs s (device_sem i s)" for i
    using d [of i] d [of 0] d [of 48] by (simp add: in_devs_def word_le_def)
  show n: "NULL \<noteq> lastSemd s"
    using e l by (auto simp: NULL_def word_le_def)
  then show "lastSemd s \<noteq> NULL" by simp
  show "\<not> in_devs s NULL" using d [of 48] l by (simp add: in_devs_def word_le_def NULL_def)
  show "i \<le> 48 \<Longrightarrow> device_sem i s \<noteq> lastSemd s" using l in_d by metis
  show "a < RAMSTART \<Longrightarrow> i \<le> 48 \<Longrightarrow> device_sem i s \<noteq> a"
    using ge [of i] by (auto simp: word_less_def RAMSTART_def)
  show "i \<le> 48 \<Longrightarrow> j \<le> 48 \<Longrightarrow> device_sem i s = device_sem j s \<longleftrightarrow> i = j"
    using d [of i] d [of j] by (auto simp: word_uint_eq_iff)
qed

lemma quiet_layout: "quiet s s' \<Longrightarrow> layout s' = layout s"
  by (simp add: layout_def quiet_def in_devs_def device_sem_def lastSemd_def)

lemma layout_poke [simp]: "layout (poke a v s) = layout s"
  by (simp add: layout_def in_devs_def) (simp add: poke_def)

section \<open>From reset to the first process\<close>

lemma initPcbs_more: "pcbmem.more (initPcbs s) = pcbmem.more s"
proof -
  have "pcbmem.more (fold (\<lambda>i. upd_pcb i (f i)) is s) = pcbmem.more s" for f "is" and s :: "'a pcbmem_scheme"
    by (induction "is" arbitrary: s) (simp_all add: upd_pcb_def)
  note m = this
  show ?thesis by (simp add: initPcbs_def Let_def m upd_pcb_def)
qed

lemma clear_sems:
  "fold (\<lambda>i s. poke (device_sem (of_nat i) s) 0 s) is s =
     s\<lparr>mem := (\<lambda>a. if \<exists>i\<in>set is. a = device_sem (of_nat i) s then 0 else mem s a)\<rparr>"
proof (induction "is" arbitrary: s)
  case (Cons i "is")
  have d: "device_sem j (s\<lparr>mem := m\<rparr>) = device_sem j s" for j m by (simp add: device_sem_def)
  show ?case by (simp add: Cons.IH) (auto simp: poke_def d fun_eq_iff)
qed simp

definition boot_state :: "'a kstate_scheme \<Rightarrow> state_t" where
  "boot_state s = \<lparr>s_entryHI = 0, s_cause = 0, s_status = (IEPBITON AND KUPBITOFF) OR TEBITON,
     s_pc = fn_addr s ''test'',
     s_reg = (\<lambda>_. 0)(R_t9 := fn_addr s ''test'', R_sp := mem s RAMBASEADDR + mem s RAMBASESIZE)\<rparr>"

lemma asl_empty_pcbs:
  assumes "asl s h [] t fl (\<lambda>_. [])" "pcbmem.more s' = pcbmem.more s"
  shows "asl s' h [] t fl (\<lambda>_. [])"
  using assms(1) pcb_more_asl [OF assms(2)] by (simp add: asl_def)

text \<open>The tables before the first process is made.\<close>

lemma kst_boot:
  assumes i: "initASL s = Some s2"
  shows "kst ((initPcbs s2)\<lparr>process_count := 0, softBlock_count := 0, readyQ := None, currentP := None, mem := m\<rparr>)
           [] [] [0..<MAXPROC] (\<lambda>_. []) (\<lambda>_. [])" (is "kst ?s _ _ _ _ _")
proof -
  from initASL_spec [of s] i have A: "asl s2 0 [] 1 [2..<22] (\<lambda>_. [])" by auto
  have "asl (initPcbs s2) 0 [] 1 [2..<22] (\<lambda>_. [])"
    by (rule asl_empty_pcbs [OF A initPcbs_more])
  then have "asl ?s 0 [] 1 [2..<22] (\<lambda>_. [])" by (simp add: asl_def lastSemd_def)
  moreover have "pcbFree ?s [0..<MAXPROC]" using initPcbs_spec [of s2] by (simp add: pcbFree_def)
  moreover have "live [0..<MAXPROC] = {}" by (auto simp: live_def)
  ultimately show ?thesis
    by (auto simp: kst_def places_def blocked_def trees_def edges_def acyclic_def)
qed

lemma initASL_kernel: "initASL s = Some s2 \<Longrightarrow> kframe s s2"
  using initASL_spec [of s] by (auto simp: kframe_def)

lemma initPcbs_kernel: "kframe s (initPcbs s)"
  using pcb_more_asl(4,5) [of "initPcbs s" s, OF initPcbs_more] by (simp add: kframe_def)

lemma set_fresh:
  "p_s fresh_pcb = \<lparr>s_entryHI = 0, s_cause = 0, s_status = 0, s_pc = 0, s_reg = (\<lambda>_. 0)\<rparr>"
  by (simp add: fresh_pcb_def)

text \<open>The second half of \<open>main\<close>, from the allocation of the first process on.\<close>

definition first_process :: "'a kstate_scheme \<Rightarrow> (exit \<times> 'a kstate_scheme) option" where
  "first_process s = do {
     (first_pro, s) \<leftarrow> allocPcb s;
     (tp, s) \<leftarrow> insertProcQ (readyQ s) first_pro s;
     let s = s\<lparr>readyQ := tp\<rparr>;
     let s = s\<lparr>process_count := process_count s + 1\<rparr>;
     f \<leftarrow> first_pro;
     let s = upd_pcb f (\<lambda>p. p\<lparr>p_s := (p_s p)\<lparr>s_status := (IEPBITON AND KUPBITOFF) OR TEBITON\<rparr>\<rparr>) s;
     let s = upd_pcb f (\<lambda>p. p\<lparr>p_s := (p_s p)\<lparr>s_pc := fn_addr s ''test''\<rparr>\<rparr>) s;
     let s = upd_pcb f (\<lambda>p. p\<lparr>p_s := set_reg R_t9 (fn_addr s ''test'') (p_s p)\<rparr>) s;
     let s = upd_pcb f (\<lambda>p. p\<lparr>p_s := set_reg R_sp (mem s RAMBASEADDR + mem s RAMBASESIZE) (p_s p)\<rparr>) s;
     scheduler s
   }"

lemma main_split:
  "main s = do {
     s \<leftarrow> initASL (poke (PASSUPVECTOR + 12) (RAMSTART + PAGESIZE)
       (poke (PASSUPVECTOR + 8) (fn_addr s ''exception_handler'') (poke (PASSUPVECTOR + 4) (RAMSTART + PAGESIZE)
         (poke PASSUPVECTOR (fn_addr s ''uTLB_RefillHandler'') s))));
     first_process (LDIT CLOCKINTERVAL (fold (\<lambda>i s. poke (device_sem (of_nat i) s) 0 s) [0..<num_device_sems]
       ((initPcbs s)\<lparr>process_count := 0, softBlock_count := 0, readyQ := None, currentP := None\<rparr>)))
   }"
proof -
  have f: "fn_addr (poke a v u) = fn_addr u" for a v and u :: "'a kstate_scheme" by simp
  show ?thesis by (simp only: main_def first_process_def Let_def mkEmptyProcQ_def f)
qed

lemma boot_process:
  assumes k: "kst s [] [] (n # fr) Q K" and nl: "NULL \<noteq> lastSemd s"
  shows "\<exists>s'. first_process s = Some (LDST (boot_state s), s') \<and> kst s' [n] [] fr Q K \<and> currentP s' = Some n \<and>
     plt s' = 5000 \<and> process_count s' = process_count s + 1 \<and> softBlock_count s' = softBlock_count s \<and>
     mem s' = mem s \<and> device_sem_addr s' = device_sem_addr s \<and> semdTable_addr s' = semdTable_addr s \<and>
     semdFree_h s' = semdFree_h s"
proof -
  from kst_alloc [OF k nl] obtain s1 where
    s1: "allocPcb s = Some (Some n, s1)" "kst s1 [n] [] fr Q K" "pcbs s1 n = fresh_pcb" "pframe {n} s s1"
    by blast
  note f1 = kframe_fields [OF kframe_pframe [OF s1(4)]]
  from kst_ready [OF s1(2)] obtain s2 where
    s2: "insertProcQ (readyQ s1) (Some n) s1 = Some (Some n, s2)" "kst (s2\<lparr>readyQ := Some n\<rparr>) [] [n] fr Q K"
      "qframe (insert n (set [])) s1 s2" by auto
  note f2 = quietD [OF quiet_qframe [OF s2(3)]]
  define s3 where "s3 = upd_pcb n (\<lambda>p. p\<lparr>p_s := boot_state s\<rparr>)
    (s2\<lparr>readyQ := Some n, process_count := process_count s + 1\<rparr>)"
  have p2: "p_s (pcbs s2 n) = p_s fresh_pcb" using f2(1) s1(3) by simp
  have "kst s3 [] [n] fr Q K"
    using s2(2) by (simp add: s3_def)
  from kst_scheduler_run [OF this] obtain s' where
    s': "scheduler s3 = Some (LDST (p_s (pcbs s3 n)), s')" "kst s' [n] [] fr Q K" "currentP s' = Some n"
      "plt s' = 5000" "quiet s3 s'" "semdFree_h s' = semdFree_h s3" by blast
  have b: "p_s (pcbs s3 n) = boot_state s" by (simp add: s3_def upd_pcb_def)
  have e: "process_count s2 = process_count s" "fn_addr s2 = fn_addr s" "mem s2 = mem s"
    using f1 f2 by simp_all
  have m: "upd_pcb n h (upd_pcb n g u) = upd_pcb n (\<lambda>p. h (g p)) u" for g h and u :: "'a kstate_scheme"
    by (simp add: upd_pcb_def)
  have r: "upd_pcb n h (s2\<lparr>readyQ := Some n, process_count := process_count s + 1\<rparr>) = s3"
    if "h (pcbs s2 n) = (pcbs s2 n)\<lparr>p_s := boot_state s\<rparr>" for h
    using that by (simp add: s3_def upd_pcb_def)
  have "kframe s s1" "kframe s1 s2" using kframe_pframe s1(4) kframe_qframe s2(3) by blast+
  then have a: "semdTable_addr s2 = semdTable_addr s" "device_sem_addr s2 = device_sem_addr s"
    using kframe_fields(5) [of s s1 0] kframe_fields(5) [of s1 s2 0] by (simp_all add: kframe_def device_sem_def)
  have "semdFree_h s1 = semdFree_h s"
    using s1(4) pcb_more_asl(2) [of s1 s] by (simp add: pframe_def)
  then have y: "semdFree_h s' = semdFree_h s" using s'(6) qframe_asl(2) [OF s2(3)] by (simp add: s3_def)
  have z: "process_count s' = process_count s + 1" "softBlock_count s' = softBlock_count s" "mem s' = mem s"
      "device_sem_addr s' = device_sem_addr s" "semdTable_addr s' = semdTable_addr s"
    using s'(5) e f1 f2 a by (simp_all add: quiet_def s3_def upd_pcb_def)
  show ?thesis
    using s'(1-4) b y z by (simp add: first_process_def s1(1) s2(1) Let_def m e r p2 set_fresh boot_state_def set_reg_def)
qed

text \<open>The memory when the tables are ready: pass up vector, interval timer and semaphores.\<close>

definition boot_mem :: "'a kstate_scheme \<Rightarrow> u32 \<Rightarrow> u32" where
  "boot_mem s = (\<lambda>a. if a = INTERVALTMR then CLOCKINTERVAL * mem s TIMESCALEADDR
     else if \<exists>i\<in>{0..<num_device_sems}. a = device_sem (of_nat i) s then 0
     else ((mem s)(PASSUPVECTOR := fn_addr s ''uTLB_RefillHandler'', PASSUPVECTOR + 4 := RAMSTART + PAGESIZE,
       PASSUPVECTOR + 8 := fn_addr s ''exception_handler'', PASSUPVECTOR + 12 := RAMSTART + PAGESIZE)) a)"

lemma device_sem_notin: "layout s \<Longrightarrow> a < RAMSTART \<Longrightarrow> i < num_device_sems \<Longrightarrow> device_sem (of_nat i) s \<noteq> a"
proof -
  assume l: "layout s" "a < RAMSTART" and i: "i < num_device_sems"
  have "of_nat i \<le> (48::u32)"
    using i by (simp add: num_device_sems_def DEVINTNUM_def DEVPERINT_def word_le_nat_alt unat_of_nat)
  then show ?thesis using layout_addrs(6) l by blast
qed

lemma main_eval:
  assumes l: "layout s"
  shows "\<exists>s'. main s = Some (LDST (boot_state s), s') \<and> kst s' [0] [] [1..<MAXPROC] (\<lambda>_. []) (\<lambda>_. []) \<and>
     currentP s' = Some 0 \<and> plt s' = 5000 \<and> process_count s' = 1 \<and> softBlock_count s' = 0 \<and>
     mem s' = boot_mem s \<and> device_sem_addr s' = device_sem_addr s \<and> semdTable_addr s' = semdTable_addr s \<and>
     semdFree_h s' = Some 2"
proof -
  define s1 where "s1 = poke (PASSUPVECTOR + 12) (RAMSTART + PAGESIZE)
    (poke (PASSUPVECTOR + 8) (fn_addr s ''exception_handler'') (poke (PASSUPVECTOR + 4) (RAMSTART + PAGESIZE)
      (poke PASSUPVECTOR (fn_addr s ''uTLB_RefillHandler'') s)))"
  from initASL_spec [of s1] obtain s2 where s2: "initASL s1 = Some s2" by blast
  note k2 = kframe_trans [OF initASL_kernel [OF s2] initPcbs_kernel]
  note f2 = kframe_fields [OF k2]
  define s6 where "s6 = (initPcbs s2)\<lparr>process_count := 0, softBlock_count := 0, readyQ := None, currentP := None,
    mem := boot_mem s\<rparr>"
  have t: "mem s1 TIMESCALEADDR = mem s TIMESCALEADDR" by (simp add: s1_def const_defs)
  have da: "device_sem_addr (initPcbs s2) = device_sem_addr s"
    using f2(5) [of 0] by (simp add: s1_def device_sem_def poke_def)
  have nt: "device_sem (of_nat i) s \<noteq> TIMESCALEADDR" if "i < num_device_sems" for i
    using device_sem_notin [OF l _ that] by (simp add: const_defs)
  let ?u = "(initPcbs s2)\<lparr>process_count := 0, softBlock_count := 0, readyQ := None, currentP := None\<rparr>"
  let ?M = "\<lambda>a. if \<exists>i\<in>{0..<num_device_sems}. a = device_sem (of_nat i) s then 0 else mem s1 a"
  have c: "fold (\<lambda>i s. poke (device_sem (of_nat i) s) 0 s) [0..<num_device_sems] ?u = ?u\<lparr>mem := ?M\<rparr>"
    unfolding clear_sems by (simp add: device_sem_def da f2 cong: if_cong)
  have "?M TIMESCALEADDR = mem s TIMESCALEADDR"
    using nt by (auto simp: t dest: sym)
  moreover have "mem s1 = (mem s)(PASSUPVECTOR := fn_addr s ''uTLB_RefillHandler'',
      PASSUPVECTOR + 4 := RAMSTART + PAGESIZE, PASSUPVECTOR + 8 := fn_addr s ''exception_handler'',
      PASSUPVECTOR + 12 := RAMSTART + PAGESIZE)" by (simp add: s1_def poke_def)
  ultimately have "?M(INTERVALTMR := CLOCKINTERVAL * ?M TIMESCALEADDR) = boot_mem s"
    unfolding boot_mem_def fun_eq_iff by simp
  then have e: "LDIT CLOCKINTERVAL (?u\<lparr>mem := ?M\<rparr>) = s6" by (simp add: LDIT_def poke_def s6_def)
  have "kst s6 [] [] (0 # [1..<MAXPROC]) (\<lambda>_. []) (\<lambda>_. [])"
    using kst_boot [OF s2, of "boot_mem s"] by (simp add: s6_def MAXPROC_def upt_rec)
  moreover have "lastSemd s6 = lastSemd s" using f2(15) by (simp add: s6_def lastSemd_def s1_def poke_def)
  then have "NULL \<noteq> lastSemd s6" using layout_addrs(1) [OF l] by simp
  ultimately obtain s' where s': "first_process s6 = Some (LDST (boot_state s6), s')" "kst s' [0] [] [1..<MAXPROC] (\<lambda>_. []) (\<lambda>_. [])"
     "currentP s' = Some 0" "plt s' = 5000" "process_count s' = process_count s6 + 1"
     "softBlock_count s' = softBlock_count s6"
     "mem s' = mem s6" "device_sem_addr s' = device_sem_addr s6" "semdTable_addr s' = semdTable_addr s6"
     "semdFree_h s' = semdFree_h s6"
    using boot_process [of s6] by blast
  have n: "device_sem (of_nat i) s \<noteq> RAMBASEADDR \<and> device_sem (of_nat i) s \<noteq> RAMBASESIZE"
    if "i < num_device_sems" for i
    using device_sem_notin [OF l _ that] by (simp add: const_defs)
  have "boot_mem s a = mem s a" if "a = RAMBASEADDR \<or> a = RAMBASESIZE" for a
    using that n by (auto simp: boot_mem_def dest: sym) (simp_all add: const_defs)
  then have b: "boot_state s6 = boot_state s"
    using f2(6) by (simp add: boot_state_def s6_def s1_def)
  have "main s = Some (LDST (boot_state s6), s')"
    using s'(1) by (simp only: main_split s1_def [symmetric] s2 Option.bind.simps c e)
  moreover have "semdTable_addr s6 = semdTable_addr s"
    using k2 by (simp add: s6_def kframe_def s1_def poke_def)
  moreover have "device_sem_addr s6 = device_sem_addr s" by (simp add: s6_def da)
  moreover have "semdFree_h s6 = Some 2"
  proof -
    have "[2..<22::nat] = 2 # [3..<22]" by (simp add: upt_rec)
    then have "semdFree_h s2 = Some 2" using initASL_spec [of s1] s2 by (auto simp: asl_def)
    then show ?thesis using pcb_more_asl(2) [OF initPcbs_more, of s2] by (simp add: s6_def)
  qed
  ultimately show ?thesis using s' b by (simp add: s6_def)
qed

end
