(* ===== verification/Syscalls.thy ===== *)
theory Syscalls
  imports Boot
begin

text \<open>
  What the system calls do to a state that satisfies the invariant: the two ways in which a
  call returns, P and V on every branch, process creation, and the three calls that only read.
\<close>

section \<open>The two ways out of a system call\<close>

text \<open>The processor time since the process was last charged, as the next reading of the timer
  shows it.\<close>

definition elapsed :: "'a kstate_scheme \<Rightarrow> u32" where
  "elapsed s = 5000 - (plt s - plt_lag s (plt_reads s))"

definition after_call :: "state_t \<Rightarrow> state_t" where
  "after_call st = st\<lparr>s_pc := s_pc st + WORDLEN\<rparr>"

definition charged :: "nat \<Rightarrow> 'a kstate_scheme \<Rightarrow> 'a kstate_scheme" where
  "charged c s = upd_pcb c (\<lambda>p. p\<lparr>p_time := p_time p + elapsed s\<rparr>)
     ((upd_bios after_call s)\<lparr>plt_reads := Suc (plt_reads s)\<rparr>)"

lemma after_call_eq: "(\<lambda>st. st\<lparr>s_pc := s_pc st + WORDLEN\<rparr>) = after_call"
  by (simp add: after_call_def fun_eq_iff)

lemma non_blocking_exit:
  "currentP s = Some c \<Longrightarrow>
   helper_non_blocking_syscall_handler s = Some (LDST (after_call (bios s)), charged c s)"
  by (simp add: helper_non_blocking_syscall_handler_def after_call_eq getTIMER_def elapsed_def charged_def)

lemma charged_simps [simp]:
  "kst (charged c s) cur rd fr Q K = kst s cur rd fr Q K" "currentP (charged c s) = currentP s"
  "mem (charged c s) = mem s" "p_time (pcbs (charged c s) c) = p_time (pcbs s c) + elapsed s"
  "p_s (pcbs (charged c s) i) = p_s (pcbs s i)" "p_supportStruct (pcbs (charged c s) i) = p_supportStruct (pcbs s i)"
  "i \<noteq> c \<Longrightarrow> pcbs (charged c s) i = pcbs s i" "bios (charged c s) = after_call (bios s)"
  "device_sem n (charged c s) = device_sem n s" "lastSemd (charged c s) = lastSemd s"
  "waiting (charged c s) Q = waiting s Q" "counts (charged c s) fr Q = counts s fr Q"
  "p_semAdd (pcbs (charged c s) i) = p_semAdd (pcbs s i)"
proof -
  show w: "waiting (charged c s) Q = waiting s Q" for Q
    by (rule waiting_cong) (simp add: charged_def upd_pcb_def upd_bios_def)
  show "counts (charged c s) fr Q = counts s fr Q" by (simp add: counts_def w, simp add: charged_def)
  show "device_sem n (charged c s) = device_sem n s" "lastSemd (charged c s) = lastSemd s"
    by (simp_all add: charged_def device_sem_def lastSemd_def upd_pcb_def upd_bios_def)
qed (simp_all add: charged_def, simp_all add: upd_pcb_def)

text \<open>A call that blocks saves the processor state in the pcb and calls the scheduler.\<close>

definition saved :: "nat \<Rightarrow> 'a kstate_scheme \<Rightarrow> 'a kstate_scheme" where
  "saved c s = upd_pcb c (\<lambda>p. p\<lparr>p_s := after_call (bios s), p_time := p_time p + elapsed s\<rparr>)
     ((upd_bios after_call s)\<lparr>plt_reads := Suc (plt_reads s)\<rparr>)"

lemma blocking_exit:
  "currentP s = Some c \<Longrightarrow> helper_blocking_syscall_handler s = scheduler (saved c s)"
proof -
  assume c: "currentP s = Some c"
  show ?thesis using c
    by (simp add: helper_blocking_syscall_handler_def after_call_eq getTIMER_def saved_def elapsed_def deep_copy_eq)
      (simp add: upd_pcb_def)
qed

lemma saved_simps [simp]:
  "kst (saved c s) cur rd fr Q K = kst s cur rd fr Q K" "currentP (saved c s) = currentP s"
  "mem (saved c s) = mem s" "p_s (pcbs (saved c s) c) = after_call (bios s)"
  "p_time (pcbs (saved c s) c) = p_time (pcbs s c) + elapsed s"
  "i \<noteq> c \<Longrightarrow> pcbs (saved c s) i = pcbs s i" "lastSemd (saved c s) = lastSemd s"
  "device_sem n (saved c s) = device_sem n s" "waiting (saved c s) Q = waiting s Q"
  "counts (saved c s) fr Q = counts s fr Q" "softBlock_count (saved c s) = softBlock_count s"
  "process_count (saved c s) = process_count s"
proof -
  show w: "waiting (saved c s) Q = waiting s Q" for Q
    by (rule waiting_cong) (simp add: saved_def upd_pcb_def upd_bios_def)
  show "counts (saved c s) fr Q = counts s fr Q" by (simp add: counts_def w, simp add: saved_def)
  show "device_sem n (saved c s) = device_sem n s" "lastSemd (saved c s) = lastSemd s"
    by (simp_all add: saved_def device_sem_def lastSemd_def upd_pcb_def upd_bios_def)
qed (simp_all add: saved_def, simp_all add: upd_pcb_def)

section \<open>P and V\<close>

lemma quiet_in_devs: "in_devs (poke b v s) a = in_devs s a"
  by (simp add: in_devs_def)

lemma counts_poke [simp]: "counts (poke a v s) fr Q = counts s fr Q"
  using waiting_cong [of "poke a v s" s] by (simp add: counts_def) (simp add: poke_def)

lemma helper_P_pass:
  "0 \<le> sint (mem s a - 1) \<Longrightarrow> helper_PASSEREN a s = Some (poke a (mem s a - 1) s)"
  by (simp add: helper_PASSEREN_def Let_def)

lemma helper_P_block:
  assumes k: "kst s cur rd fr Q K" and c: "currentP s = Some c" "c \<in> set cur" and a: "a \<noteq> lastSemd s"
    and neg: "sint (mem s a - 1) < 0" and room: "Q a \<noteq> [] \<or> semdFree_h s \<noteq> None"
  shows "\<exists>s'. helper_PASSEREN a s = Some s' \<and>
     insertBlocked a (Some c) (poke a (mem s a - 1) s) = Some (FALSE, s') \<and>
     kst s' (remove1 c cur) rd fr (Q(a := Q a @ [c])) K \<and> quiet (poke a (mem s a - 1) s) s' \<and> currentP s' = Some c"
proof -
  have "kst (poke a (mem s a - 1) s) cur rd fr Q K" using k by simp
  from kst_block [OF this c(2), of a] a room obtain s' where
    s': "insertBlocked a (Some c) (poke a (mem s a - 1) s) = Some (FALSE, s')"
      "kst s' (remove1 c cur) rd fr (Q(a := Q a @ [c])) K"
      "bframe (insert c (set (Q a))) {c} (poke a (mem s a - 1) s) s'" by auto
  have "currentP s' = Some c" using kframe_fields(4) [OF kframe_bframe [OF s'(3)]] c(1) by simp
  moreover have "helper_PASSEREN a s = Some s'"
    using neg s'(1) c(1) by (simp add: helper_PASSEREN_def Let_def)
  ultimately show ?thesis using s'(1,2) quiet_bframe [OF s'(3)] by blast
qed

text \<open>The two copies of V are one function.\<close>

lemma helper_verhogen_VERHOGEN: "helper_verhogen s = VERHOGEN s"
  by (simp only: helper_verhogen_def VERHOGEN_def)

lemma V_idle:
  assumes k: "kst s cur rd fr Q K" and a: "a = s_reg (bios s) R_a1" "a \<noteq> lastSemd s"
    and idle: "0 < sint (mem s a + 1) \<or> Q a = []"
  shows "VERHOGEN s = Some (None, poke a (mem s a + 1) s)"
proof -
  have "kst (poke a (mem s a + 1) s) cur rd fr Q K" using k by simp
  from kst_unblock_none [OF this, of a] show ?thesis using a idle
    by (auto simp: VERHOGEN_def Let_def)
qed

lemma V_wake:
  assumes k: "kst s cur rd fr Q K" and a: "a = s_reg (bios s) R_a1" and nl: "NULL \<noteq> lastSemd s"
    and wake: "sint (mem s a + 1) \<le> 0" "Q a = p # ps"
  shows "\<exists>s'. VERHOGEN s = Some (Some p, s') \<and> kst s' cur (rd @ [p]) fr (Q(a := ps)) K \<and>
     quiet (poke a (mem s a + 1) s) s' \<and> currentP s' = currentP s \<and> p_semAdd (pcbs s' p) = NULL"
proof -
  have "kst (poke a (mem s a + 1) s) cur rd fr Q K" using k by simp
  from kst_unblock [OF this wake(2)] nl obtain s1 where
    s1: "removeBlocked a (poke a (mem s a + 1) s) = Some (Some p, s1)" "kst s1 (p # cur) rd fr (Q(a := ps)) K"
      "p_semAdd (pcbs s1 p) = NULL" "bframe (set (Q a)) {p} (poke a (mem s a + 1) s) s1" by auto
  from kst_ready [OF s1(2), of p] obtain s2 where
    s2: "insertProcQ (readyQ s1) (Some p) s1 = Some (Some p, s2)"
      "kst (s2\<lparr>readyQ := Some p\<rparr>) cur (rd @ [p]) fr (Q(a := ps)) K" "qframe (insert p (set rd)) s1 s2" by auto
  have "VERHOGEN s = Some (Some p, s2\<lparr>readyQ := Some p\<rparr>)"
    using a wake(1) s1(1) s2(1) by (simp add: VERHOGEN_def Let_def)
  moreover have "quiet (poke a (mem s a + 1) s) (s2\<lparr>readyQ := Some p\<rparr>)"
    using quiet_trans [OF quiet_bframe [OF s1(4)] quiet_qframe [OF s2(3)]] by simp
  moreover have "currentP s2 = currentP s"
    using kframe_fields(4) [OF kframe_bframe [OF s1(4)]] kframe_fields(4) [OF kframe_qframe [OF s2(3)]] by simp
  moreover have "p_semAdd (pcbs s2 p) = NULL" using s1(3) qframe_pcb(7) [OF s2(3)] by simp
  ultimately show ?thesis using s2(2) by auto
qed

section \<open>Creating a process\<close>

lemma CREATEPROCESS_full:
  "kst s cur rd [] Q K \<Longrightarrow> CREATEPROCESS s = Some (upd_bios (set_reg R_v0 (- 1)) s)"
proof -
  assume k: "kst s cur rd [] Q K"
  have "allocPcb s = Some (None, s)" by (rule allocPcb_empty [OF kstD(1) [OF k]])
  then show ?thesis by (simp add: CREATEPROCESS_def)
qed

lemma CREATEPROCESS_spec:
  assumes k: "kst s [c] rd (n # fr) Q K" and m: "counts s (n # fr) Q" and cur: "currentP s = Some c"
    and nl: "NULL \<noteq> lastSemd s"
  defines "sp \<equiv> (if s_reg (bios s) R_a2 \<noteq> NULL \<and> s_reg (bios s) R_a2 \<noteq> 0 then s_reg (bios s) R_a2 else NULL)"
  shows "\<exists>s'. CREATEPROCESS s = Some s' \<and> kst s' [c] (rd @ [n]) fr Q (K(c := K c @ [n])) \<and> counts s' fr Q \<and>
     currentP s' = Some c \<and> bios s' = set_reg R_v0 0 (bios s) \<and> mem s' = mem s \<and> lastSemd s' = lastSemd s \<and>
     (\<forall>i. device_sem i s' = device_sem i s) \<and> semdFree_h s' = semdFree_h s \<and>
     p_s (pcbs s' n) = states s (s_reg (bios s) R_a1) \<and> p_supportStruct (pcbs s' n) = sp \<and>
     p_time (pcbs s' n) = 0 \<and> (\<forall>i. i \<noteq> n \<longrightarrow> p_s (pcbs s' i) = p_s (pcbs s i))"
proof -
  note T = kstD(5) [OF k] and d = placesD [OF kstD(4) [OF k]]
  from kst_alloc [OF k nl] obtain s1 where
    s1: "allocPcb s = Some (Some n, s1)" "kst s1 [n, c] rd fr Q K" "pcbs s1 n = fresh_pcb" "pframe {n} s s1"
    by blast
  note f1 = kframe_fields [OF kframe_pframe [OF s1(4)]]
  let ?f = "\<lambda>p. p\<lparr>p_s := states s (s_reg (bios s) R_a1), p_supportStruct := sp\<rparr>"
  define s2 where "s2 = upd_pcb n ?f s1"
  have k2: "kst s2 [n, c] rd fr Q K" unfolding s2_def using s1(2) by simp
  from kst_ready [OF k2, of n] obtain s3 where
    s3: "insertProcQ (readyQ s2) (Some n) s2 = Some (Some n, s3)"
      "kst (s3\<lparr>readyQ := Some n\<rparr>) [c] (rd @ [n]) fr Q K" "qframe (insert n (set rd)) s2 s3" by auto
  note q3 = quietD [OF quiet_qframe [OF s3(3)]]
  have cl: "c \<in> live fr" "c \<noteq> n" "n \<in> live fr"
    using d(5,11) kstD(4) [OF k] by (auto simp: places_def live_def)
  have "n \<notin> live (n # fr)" by (simp add: live_def)
  then have leaf: "K n = []" and orphan: "n \<notin> set (K q)" for q
    using treesD(3) [OF T] treesD(2) [OF T, of q] by auto
  from kst_insertChild [OF s3(2) cl(1,3,2) leaf orphan] obtain s4 where
    s4: "insertChild (Some c) (Some n) (s3\<lparr>readyQ := Some n\<rparr>) = Some s4"
      "kst s4 [c] (rd @ [n]) fr Q (K(c := K c @ [n]))"
      "tframe {c} (insert n (set (K c))) (s3\<lparr>readyQ := Some n\<rparr>) s4" by blast
  note q4 = quietD [OF quiet_tframe [OF s4(3)]]
  let ?s' = "(upd_bios (set_reg R_v0 0) s4)\<lparr>process_count := process_count s4 + 1\<rparr>"
  have c3: "currentP s3 = Some c" using kframe_fields(4) [OF kframe_qframe [OF s3(3)]] f1(4) cur by (simp add: s2_def)
  have c4: "currentP s4 = Some c" using kframe_fields(4) [OF kframe_tframe [OF s4(3)]] c3 by simp
  have fold2: "upd_pcb n (\<lambda>p. p\<lparr>p_supportStruct := sp\<rparr>)
      (upd_pcb n (\<lambda>p. p\<lparr>p_s := states s (s_reg (bios s) R_a1)\<rparr>) s1) = s2"
    by (simp add: s2_def) (simp add: upd_pcb_def)
  have "CREATEPROCESS s = Some ?s'"
    using s1(1) s3(1) s4(1) c3 f1(8) fold2
    by (auto simp: CREATEPROCESS_def Let_def deep_copy_eq sp_def split: if_splits)
  moreover have "kst ?s' [c] (rd @ [n]) fr Q (K(c := K c @ [n]))" using s4(2) by simp
  moreover have "counts ?s' fr Q"
  proof -
    have w: "waiting s4 Q = waiting s2 Q" using q3(15) q4(15) by (simp add: waiting_def in_devs_def device_sem_def)
    have "waiting s2 Q = waiting s Q" using f1(5) by (simp add: waiting_def in_devs_def s2_def)
    moreover have "waiting ?s' Q = waiting s4 Q" by (rule waiting_cong) (simp add: upd_bios_def)
    ultimately have "waiting ?s' Q = waiting (s\<lparr>process_count := process_count s + 1\<rparr>) Q"
      using w waiting_cong [of "s\<lparr>process_count := process_count s + 1\<rparr>" s] by simp
    then show ?thesis using counts_alloc [OF k m] q3(4,5) q4(4,5) f1(1,2) by (simp add: counts_def s2_def)
  qed
  moreover have "p_s (pcbs s4 i) = p_s (pcbs s2 i)" "p_time (pcbs s4 i) = p_time (pcbs s2 i)"
      "p_supportStruct (pcbs s4 i) = p_supportStruct (pcbs s2 i)" for i
    using q3(1-3) q4(1-3) by simp_all
  moreover have "p_s (pcbs s2 i) = (if i = n then states s (s_reg (bios s) R_a1) else p_s (pcbs s i))"
      "p_supportStruct (pcbs s2 n) = sp" "p_time (pcbs s2 n) = 0" for i
    using s1(3,4) by (auto simp: s2_def upd_pcb_sel pframe_def fresh_pcb_def)
  moreover have "mem s4 = mem s" "lastSemd s4 = lastSemd s" "device_sem i s4 = device_sem i s" "bios s4 = bios s" for i
    using q3(6,7,12,13) q4(6,7,12,13) f1(5,7,8,15) by (simp_all add: s2_def)
  moreover have "semdFree_h s1 = semdFree_h s"
    using s1(4) pcb_more_asl(2) [of s1 s] by (simp add: pframe_def)
  then have "semdFree_h s4 = semdFree_h s"
    using qframe_asl(2) [OF s3(3)] tframe_asl(2) [OF s4(3)] by (simp add: s2_def)
  ultimately show ?thesis using c4 by (intro exI [of _ ?s']) simp
qed

end
