(* ===== verification/Terminate.thy ===== *)
theory Terminate
  imports Syscalls
begin

text \<open>
  Termination of a process with all its descendants. \<open>without D\<close> takes the processes of \<open>D\<close>
  out of a queue; the specification says that this is what happens to every queue of the
  kernel and to every list of children.
\<close>

section \<open>One process without children\<close>

definition without :: "nat set \<Rightarrow> nat list \<Rightarrow> nat list" where
  "without D = filter (\<lambda>p. p \<notin> D)"

lemma without_simps [simp]:
  "without {} xs = xs" "without D [] = []" "set (without D xs) = set xs - D"
  "without D (without E xs) = without (D \<union> E) xs"
  by (auto simp: without_def intro: filter_cong)

lemma without_id: "D \<inter> set xs = {} \<Longrightarrow> without D xs = xs"
  by (auto simp: without_def filter_id_conv disjoint_iff)

lemma without_remove1: "distinct xs \<Longrightarrow> without {i} xs = remove1 i xs"
  by (simp add: without_def distinct_remove1_removeAll removeAll_filter_not_eq) (metis)

text \<open>\<open>dframe s s'\<close>: no process's data and no memory but the semaphores has changed.\<close>

definition dframe :: "'a kstate_scheme \<Rightarrow> 'a kstate_scheme \<Rightarrow> bool" where
  "dframe s s' \<longleftrightarrow>
     (\<forall>i. p_s (pcbs s' i) = p_s (pcbs s i) \<and> p_time (pcbs s' i) = p_time (pcbs s i) \<and>
        p_supportStruct (pcbs s' i) = p_supportStruct (pcbs s i)) \<and>
     currentP s' = currentP s \<and> device_sem_addr s' = device_sem_addr s \<and> semdTable_addr s' = semdTable_addr s \<and>
     fn_addr s' = fn_addr s \<and> states s' = states s \<and> supports s' = supports s \<and> devregs s' = devregs s"

lemma dframe_refl [simp]: "dframe s s"
  by (simp add: dframe_def)

lemma dframe_trans: "dframe s s' \<Longrightarrow> dframe s' s'' \<Longrightarrow> dframe s s''"
  by (simp add: dframe_def)

lemma dframe_quiet: "quiet s s' \<Longrightarrow> currentP s' = currentP s \<Longrightarrow> dframe s s'"
  by (simp add: dframe_def quiet_def)

lemma dframe_addrs: "dframe s s' \<Longrightarrow> in_devs s' a = in_devs s a \<and> lastSemd s' = lastSemd s \<and> device_sem n s' = device_sem n s"
  by (simp add: dframe_def in_devs_def device_sem_def lastSemd_def)

text \<open>The effect on the semaphores: those of devices keep their value.\<close>

definition sem_gain :: "'a kstate_scheme \<Rightarrow> (u32 \<Rightarrow> nat list) \<Rightarrow> 'a kstate_scheme \<Rightarrow> (u32 \<Rightarrow> nat list) \<Rightarrow> bool" where
  "sem_gain s Q s' Q' \<longleftrightarrow> (\<forall>a. sint (mem s' a) =
     sint (mem s a) + (if in_devs s a then 0 else int (length (Q a)) - int (length (Q' a))))"

text \<open>\<open>sems_ok s Q\<close>: a semaphore on which processes wait holds minus their number.\<close>

definition sems_ok :: "'a kstate_scheme \<Rightarrow> (u32 \<Rightarrow> nat list) \<Rightarrow> bool" where
  "sems_ok s Q \<longleftrightarrow> (\<forall>a. Q a \<noteq> [] \<and> \<not> in_devs s a \<longrightarrow> sint (mem s a) = - int (length (Q a)))"

lemma sem_gain_refl [simp]: "sem_gain s Q s Q"
  by (simp add: sem_gain_def)

lemma sem_gain_trans:
  assumes "sem_gain s Q s' Q'" "sem_gain s' Q' s'' Q''" "dframe s s'"
  shows "sem_gain s Q s'' Q''"
proof -
  have "in_devs s' a = in_devs s a" for a using dframe_addrs [OF assms(3)] by blast
  then show ?thesis using assms(1,2) by (simp add: sem_gain_def)
qed

lemma sem_gain_ok:
  assumes g: "sem_gain s Q s' Q'" and ok: "sems_ok s Q" and f: "dframe s s'" and s: "\<And>a. Q' a \<noteq> [] \<Longrightarrow> Q a \<noteq> []"
  shows "sems_ok s' Q'"
  unfolding sems_ok_def
proof (intro allI impI)
  fix a assume a: "Q' a \<noteq> [] \<and> \<not> in_devs s' a"
  have "in_devs s' a = in_devs s a" using dframe_addrs [OF f] by blast
  then have "\<not> in_devs s a" "Q a \<noteq> []" using a s by auto
  then have "sint (mem s a) = - int (length (Q a))" using ok by (simp add: sems_ok_def)
  moreover have "sint (mem s' a) = sint (mem s a) + (int (length (Q a)) - int (length (Q' a)))"
    using g \<open>\<not> in_devs s a\<close> by (simp add: sem_gain_def)
  ultimately show "sint (mem s' a) = - int (length (Q' a))" by simp
qed

lemma kst_outChild_any:
  assumes k: "kst s cur rd fr Q K" and i: "i \<in> live fr"
  shows "\<exists>r s'. outChild (Some i) s = Some (r, s') \<and> kst s' cur rd fr Q (\<lambda>r. without {i} (K r)) \<and>
     quiet s s' \<and> currentP s' = currentP s"
proof (cases "\<exists>r. i \<in> set (K r)")
  case True
  then obtain r where r: "i \<in> set (K r)" by blast
  note T = kstD(5) [OF k]
  have rl: "r \<in> live fr" using r treesD(3) [OF T, of r] by (cases "r \<in> live fr") auto
  from kst_outChild [OF k rl r] obtain s' where
    s': "outChild (Some i) s = Some (Some i, s')" "kst s' cur rd fr Q (K(r := remove1 i (K r)))"
      "tframe {r} (set (K r)) s s'" by blast
  have d: "distinct (K r)" using treesD(1) [OF T rl] by (rule children_distinct)
  have "without {i} (K q) = (K(r := remove1 i (K r))) q" for q
  proof (cases "q = r")
    case False
    then have "i \<notin> set (K q)" using trees_disjoint [OF T, of q r] r by auto
    then show ?thesis using False by (simp add: without_id)
  qed (simp add: without_remove1 [OF d])
  then have "(\<lambda>r. without {i} (K r)) = K(r := remove1 i (K r))" by (simp add: fun_eq_iff)
  with s' quiet_tframe [OF s'(3)] kframe_fields(4) [OF kframe_tframe [OF s'(3)]] show ?thesis by auto
next
  case False
  then have "(\<lambda>r. without {i} (K r)) = K" by (simp add: fun_eq_iff without_id)
  with kst_outChild_orphan [OF k i] False k show ?thesis by auto
qed

definition unblock_one :: "nat \<Rightarrow> 'a kstate_scheme \<Rightarrow> 'a kstate_scheme option" where
  "unblock_one i s = (if \<not> in_devs s (p_semAdd (pcbs s i))
     then do {
       (process_unblocked, s) \<leftarrow> outBlocked (Some i) s;
       if process_unblocked \<noteq> None then
         (let a = p_semAdd (pcbs s i)
          in if sint (mem s a) < 0 then Some (poke a (mem s a + 1) s) else Some s)
       else Some s
     }
     else do {
       (process_unblocked, s) \<leftarrow> outBlocked (Some i) s;
       if process_unblocked \<noteq> None then Some (s\<lparr>softBlock_count := softBlock_count s - 1\<rparr>)
       else Some s
     })"

lemma terminate_one_split:
  "terminate_one i s = do {
     (_, s) \<leftarrow> outChild (Some i) s;
     s \<leftarrow> unblock_one i s;
     (_, tp, s) \<leftarrow> outProcQ (readyQ s) (Some i) s;
     s \<leftarrow> freePcb (Some i) (s\<lparr>readyQ := tp\<rparr>);
     Some (s\<lparr>process_count := process_count s - 1\<rparr>)
   }"
  by (simp add: terminate_one_def unblock_one_def in_devs_def not_le not_less DEVINTNUM_def DEVPERINT_def
      Let_def disj_commute conj_commute imp_conv_disj cong: if_cong)

lemma kst_len:
  assumes "kst s cur rd fr Q K"
  shows "length (Q a) \<le> 20"
proof -
  have "length (Q a) = card (set (Q a))" by (rule distinct_card [symmetric, OF kst_Q_distinct [OF assms]])
  also have "\<dots> \<le> card (live fr)"
    using card_mono [OF placesD(13,10) [OF kstD(4) [OF assms]]] kstD(4) [OF assms] by blast
  also have "\<dots> \<le> 20" by (rule card_live_waiting(3) [OF assms])
  finally show ?thesis .
qed

lemma sint_succ: "- 2147483648 \<le> sint x \<Longrightarrow> sint (x :: u32) < 2147483647 \<Longrightarrow> sint (x + 1) = sint x + 1"
  by (simp add: sint_word_ariths signed_take_bit_int_eq_self)

lemma unblock_one_spec:
  assumes k: "kst s cur rd fr Q K" and c: "counts s fr Q" and i: "i \<in> live fr" and ok: "sems_ok s Q"
  shows "\<exists>s'. unblock_one i s = Some s' \<and>
     kst s' (if blocked Q i then i # cur else cur) rd fr (\<lambda>a. without {i} (Q a)) K \<and>
     counts s' fr (\<lambda>a. without {i} (Q a)) \<and> sem_gain s Q s' (\<lambda>a. without {i} (Q a)) \<and> dframe s s'"
proof (cases "blocked Q i")
  case False
  then have "i \<in> set cur \<union> set rd" using kstD(4) [OF k] i by (auto simp: places_def live_def)
  from kst_out_blocked_none [OF k this] have "unblock_one i s = Some s" by (simp add: unblock_one_def)
  moreover have "(\<lambda>a. without {i} (Q a)) = Q" using False by (simp add: fun_eq_iff blocked_def without_id)
  ultimately show ?thesis using k c False by auto
next
  case True
  then obtain a where a: "i \<in> set (Q a)" by (auto simp: blocked_def)
  have sa: "p_semAdd (pcbs s i) = a" by (rule kst_Q_semAdd [OF k a])
  from kst_out_blocked [OF k a] obtain s1 where
    s1: "outBlocked (Some i) s = Some (Some i, s1)" "kst s1 (i # cur) rd fr (Q(a := remove1 i (Q a))) K"
      "p_semAdd (pcbs s1 i) = a" "bframe (set (Q a)) {} s s1" by blast
  let ?Q = "\<lambda>a. without {i} (Q a)"
  have "?Q b = (Q(a := remove1 i (Q a))) b" for b
  proof (cases "b = a")
    case False
    then have "i \<notin> set (Q b)" using kst_Q_disjoint [OF k False] a by auto
    then show ?thesis using False by (simp add: without_id)
  qed (simp add: without_remove1 [OF kst_Q_distinct [OF k]])
  then have Q: "?Q = Q(a := remove1 i (Q a))" by (simp add: fun_eq_iff)
  have len: "length (Q a) = Suc (length (remove1 i (Q a)))" using a by (simp add: length_remove1)
      (metis Suc_pred length_pos_if_in_set)
  note q1 = quietD [OF quiet_bframe [OF s1(4)]]
  have d1: "dframe s s1"
    using quiet_bframe [OF s1(4)] kframe_fields(4) [OF kframe_bframe [OF s1(4)]] by (rule dframe_quiet)
  show ?thesis
  proof (cases "in_devs s a")
    case True
    let ?s' = "s1\<lparr>softBlock_count := softBlock_count s1 - 1\<rparr>"
    have "set (remove1 i (Q a)) = set (Q a) - {i}" by (simp add: kst_Q_distinct [OF k])
    note counts_unblock_device [OF k c True a this]
    moreover have "waiting ?s' q = waiting (s\<lparr>softBlock_count := softBlock_count s - 1\<rparr>) q" for q
      using d1 by (intro waiting_cong) (simp add: dframe_def)
    ultimately have "counts ?s' fr ?Q" by (simp add: counts_def Q q1)
    moreover have "unblock_one i s = Some ?s'"
      using sa s1(1) True by (simp add: unblock_one_def)
    moreover have "kst ?s' (i # cur) rd fr ?Q K" using s1(2) by (simp add: Q)
    moreover have "sem_gain s Q ?s' ?Q" using True by (simp add: sem_gain_def Q q1)
    moreover have "dframe s ?s'" using d1 by (simp add: dframe_def)
    ultimately show ?thesis using \<open>blocked Q i\<close> by auto
  next
    case False
    have "Q a \<noteq> []" using a by auto
    then have "sint (mem s a) = - int (length (Q a))" using ok False by (simp add: sems_ok_def)
    then have m: "- 20 \<le> sint (mem s a)" "sint (mem s a) < 0"
      using kst_len [OF k, of a] len by simp_all
    let ?s' = "poke a (mem s a + 1) s1"
    have "unblock_one i s = Some ?s'"
      using sa s1(1,3) False m(2) by (simp add: unblock_one_def Let_def q1)
    moreover have "kst ?s' (i # cur) rd fr ?Q K" using s1(2) by (simp add: Q)
    moreover have "counts ?s' fr ?Q"
      using counts_block_other [OF c False, of "remove1 i (Q a)"] q1 by (simp add: Q)
    moreover have "sem_gain s Q ?s' ?Q"
      using sint_succ [of "mem s a"] m False len by (simp add: sem_gain_def Q q1)
    moreover have "dframe s ?s'" using d1 by (simp add: dframe_def poke_def)
    ultimately show ?thesis using \<open>blocked Q i\<close> by auto
  qed
qed

lemma terminate_one_spec:
  assumes k: "kst s cur rd fr Q K" and c: "counts s fr Q" and i: "i \<in> live fr" and ok: "sems_ok s Q"
    and leaf: "K i = []"
  shows "\<exists>s'. terminate_one i s = Some s' \<and>
     kst s' (without {i} cur) (without {i} rd) (i # fr) (\<lambda>a. without {i} (Q a)) (\<lambda>r. without {i} (K r)) \<and>
     counts s' (i # fr) (\<lambda>a. without {i} (Q a)) \<and> sem_gain s Q s' (\<lambda>a. without {i} (Q a)) \<and> dframe s s'"
proof -
  let ?Q = "\<lambda>a. without {i} (Q a)" and ?K = "\<lambda>r. without {i} (K r)"
  note d = placesD [OF kstD(4) [OF k]]
  from kst_outChild_any [OF k i] obtain r1 s1 where
    s1: "outChild (Some i) s = Some (r1, s1)" "kst s1 cur rd fr Q ?K" "quiet s s1" "currentP s1 = currentP s"
    by blast
  have c1: "counts s1 fr Q" using c by (simp add: quietD(16) [OF s1(3)])
  have ok1: "sems_ok s1 Q" using ok by (simp add: sems_ok_def quietD [OF s1(3)])
  from unblock_one_spec [OF s1(2) c1 i ok1] obtain s2 where
    s2: "unblock_one i s1 = Some s2" "kst s2 (if blocked Q i then i # cur else cur) rd fr ?Q ?K"
      "counts s2 fr ?Q" "sem_gain s1 Q s2 ?Q" "dframe s1 s2" by blast
  let ?cur = "if blocked Q i then i # cur else if i \<in> set rd then i # cur else cur"
  have "\<exists>r tp s3. outProcQ (readyQ s2) (Some i) s2 = Some (r, tp, s3) \<and>
      kst (s3\<lparr>readyQ := tp\<rparr>) ?cur (without {i} rd) fr ?Q ?K \<and> quiet s2 s3 \<and> currentP s3 = currentP s2"
  proof (cases "i \<in> set rd")
    case True
    then have nb: "\<not> blocked Q i" using places_not_blocked [OF kstD(4) [OF k], of i] by auto
    with s2(2) have "kst s2 cur rd fr ?Q ?K" by simp
    from kst_out_ready [OF this True] obtain tp s3 where
      "outProcQ (readyQ s2) (Some i) s2 = Some (Some i, tp, s3)"
      "kst (s3\<lparr>readyQ := tp\<rparr>) (i # cur) (remove1 i rd) fr ?Q ?K" "qframe (set rd) s2 s3" by blast
    with nb True quiet_qframe kframe_fields(4) [OF kframe_qframe] without_remove1 [OF d(2)]
    show ?thesis by fastforce
  next
    case False
    have "outProcQ (readyQ s2) (Some i) s2 = Some (None, readyQ s2, s2)"
      by (rule outProcQ_absent [OF kstD(2) [OF s2(2)] False])
    with s2(2) False show ?thesis by (cases "blocked Q i") (simp_all add: without_id)
  qed
  then obtain r tp s3 where s3: "outProcQ (readyQ s2) (Some i) s2 = Some (r, tp, s3)"
      "kst (s3\<lparr>readyQ := tp\<rparr>) ?cur (without {i} rd) fr ?Q ?K" "quiet s2 s3" "currentP s3 = currentP s2" by blast
  have ic: "i \<in> set ?cur" using kstD(4) [OF k] i by (auto simp: places_def live_def)
  have orphan: "i \<notin> set (?K q)" for q by simp
  have leaf': "?K i = []" using leaf by simp
  from kst_free [OF s3(2) ic leaf' orphan] obtain s4 where
    s4: "freePcb (Some i) (s3\<lparr>readyQ := tp\<rparr>) = Some s4"
      "kst s4 (remove1 i ?cur) (without {i} rd) (i # fr) ?Q ?K" "pframe {i} (s3\<lparr>readyQ := tp\<rparr>) s4" by blast
  have cur: "remove1 i ?cur = without {i} cur"
  proof (cases "i \<in> set cur")
    case True
    then have "\<not> blocked Q i" "i \<notin> set rd" using places_not_blocked [OF kstD(4) [OF k], of i] d(4) by auto
    then show ?thesis by (simp add: without_remove1 [OF d(1)])
  qed (simp add: without_id remove1_idem)
  have data: "p_s (pcbs s4 j) = p_s (pcbs s3 j) \<and> p_time (pcbs s4 j) = p_time (pcbs s3 j) \<and>
      p_supportStruct (pcbs s4 j) = p_supportStruct (pcbs s3 j)" for j
    using s4(1) by (auto simp: freePcb_def upd_pcb_def)
  note f4 = kframe_fields [OF kframe_pframe [OF s4(3)]]
  let ?s' = "s4\<lparr>process_count := process_count s4 - 1\<rparr>"
  have "quiet s2 (s3\<lparr>readyQ := tp\<rparr>)" "quiet (s3\<lparr>readyQ := tp\<rparr>) s4"
    using s3(3) quiet_kframe [OF kframe_pframe [OF s4(3)]] data by simp_all
  then have q: "quiet s2 s4" by (rule quiet_trans)
  have "counts ?s' (i # fr) ?Q"
    by (rule counts_free [OF _ i]) (use s2(3) quietD(16) [OF q] in simp)
  moreover have "terminate_one i s = Some ?s'"
    by (simp add: terminate_one_split s1(1) s2(1) s3(1) s4(1))
  moreover have "kst ?s' (without {i} cur) (without {i} rd) (i # fr) ?Q ?K" using s4(2) cur by simp
  moreover have "dframe s ?s'"
  proof -
    have "currentP s4 = currentP s2" using f4(4) s3(4) by simp
    then have "dframe s s4"
      using dframe_trans [OF dframe_trans [OF dframe_quiet [OF s1(3,4)] s2(5)] dframe_quiet [OF q]] by simp
    then show ?thesis by (simp add: dframe_def)
  qed
  moreover have "sem_gain s Q ?s' ?Q"
    using s2(4) quietD(6,14) [OF s1(3)] quietD(6) [OF q] by (simp add: sem_gain_def)
  ultimately show ?thesis by blast
qed

section \<open>The whole subtree\<close>

definition desc :: "(nat \<Rightarrow> nat list) \<Rightarrow> nat \<Rightarrow> nat set" where
  "desc K i = {p. (i, p) \<in> (edges K)\<^sup>+}"

lemma desc_child: "p \<in> set (K i) \<Longrightarrow> p \<in> desc K i"
  by (auto simp: desc_def edges_def)

lemma desc_step: "q \<in> desc K i \<Longrightarrow> p \<in> set (K q) \<Longrightarrow> p \<in> desc K i"
  by (auto simp: desc_def edges_def intro: trancl_into_trancl)

lemma desc_trans: "q \<in> desc K i \<Longrightarrow> p \<in> desc K q \<Longrightarrow> p \<in> desc K i"
  by (auto simp: desc_def)

lemma desc_mono: "(\<And>r. set (K' r) \<subseteq> set (K r)) \<Longrightarrow> desc K' i \<subseteq> desc K i"
proof -
  assume "\<And>r. set (K' r) \<subseteq> set (K r)"
  then have "edges K' \<subseteq> edges K" by (auto simp: edges_def)
  then show ?thesis using trancl_mono [of _ "edges K'" "edges K"] by (auto simp: desc_def)
qed

lemma desc_acyclic: "acyclic (edges K) \<Longrightarrow> p \<in> desc K i \<Longrightarrow> i \<notin> desc K p \<and> p \<noteq> i"
  unfolding desc_def acyclic_def by (auto dest: trancl_trans)

lemma desc_live: "trees s L K \<Longrightarrow> desc K i \<subseteq> L"
proof
  fix p assume T: "trees s L K" and "p \<in> desc K i"
  then obtain q where "p \<in> set (K q)" by (auto simp: desc_def edges_def elim: tranclE)
  then show "p \<in> L" using treesD(2) [OF T, of q] by auto
qed

text \<open>The subtree of \<open>i\<close>, cut along its first child: the subtree of the child, the child itself,
  and what is left of \<open>i\<close>'s subtree when they are gone.\<close>

lemma desc_cut:
  assumes ac: "acyclic (edges K)" and Ki: "K i = c # cs" and d: "distinct (K i)"
  defines "K1 \<equiv> K(i := cs)"
  defines "D1 \<equiv> insert c (desc K1 c)"
  defines "K3 \<equiv> \<lambda>r. without D1 (K1 r)"
  shows "desc K i = D1 \<union> desc K3 i" "c \<notin> desc K1 c" "c \<notin> desc K3 i" "i \<notin> D1"
proof -
  have m1: "desc K1 r \<subseteq> desc K r" and m3: "desc K3 r \<subseteq> desc K1 r" for r
    by (rule desc_mono; auto simp: K1_def K3_def Ki)+
  have cD: "c \<in> desc K i" by (simp add: desc_child Ki)
  have D1: "D1 \<subseteq> desc K i" using cD desc_trans [OF cD] m1 [of c] by (auto simp: D1_def)
  show "c \<notin> desc K1 c" using desc_acyclic [OF ac] m1 by blast
  show iD1: "i \<notin> D1" using desc_acyclic [OF ac, of i i] D1 by blast
  have no: "p \<notin> D1" if p: "p \<in> desc K3 i" for p
  proof -
    obtain q where "p \<in> set (K3 q)" using p by (auto simp: desc_def edges_def elim: tranclE)
    then show ?thesis by (simp add: K3_def)
  qed
  then show "c \<notin> desc K3 i" by (auto simp: D1_def)
  have "p \<in> D1 \<union> desc K3 i" if "p \<in> desc K i" for p
    using that unfolding desc_def [of K] mem_Collect_eq
  proof (induction rule: trancl_induct)
    case (base p)
    then have "p = c \<or> p \<in> set (K1 i)" by (auto simp: edges_def Ki K1_def)
    then show ?case using desc_child [of p K3 i] by (auto simp: K3_def D1_def)
  next
    case (step q p)
    then have q: "q \<noteq> i" "p \<in> set (K1 q)" using ac by (auto simp: edges_def K1_def acyclic_def)
    from step.IH show ?case
    proof
      assume "q \<in> D1"
      then show ?case using q(2) desc_child [of p K1 q] desc_step [of q K1 c p] by (auto simp: D1_def)
    next
      assume "q \<in> desc K3 i"
      then show ?case using q(2) desc_step [of q K3 i p] by (cases "p \<in> D1") (auto simp: K3_def)
    qed
  qed
  then show "desc K i = D1 \<union> desc K3 i" using D1 m1 m3 by blast
qed

lemma desc_leaf: "K i = [] \<Longrightarrow> desc K i = {}"
proof -
  assume "K i = []"
  then have "p \<notin> desc K i" for p by (auto simp: desc_def edges_def elim: converse_tranclE)
  then show ?thesis by blast
qed

text \<open>\<open>removed D s s' \<dots>\<close>: from \<open>s\<close> to \<open>s'\<close> the processes of \<open>D\<close> have left every structure of the
  kernel and their pcbs are free; the others keep their places, in order.\<close>

definition removed :: "nat set \<Rightarrow> 'a kstate_scheme \<Rightarrow> nat list \<Rightarrow> nat list \<Rightarrow> nat list \<Rightarrow> (u32 \<Rightarrow> nat list) \<Rightarrow>
    (nat \<Rightarrow> nat list) \<Rightarrow> 'a kstate_scheme \<Rightarrow> nat list \<Rightarrow> bool" where
  "removed D s cur rd fr Q K s' fr' \<longleftrightarrow>
     kst s' (without D cur) (without D rd) fr' (\<lambda>a. without D (Q a)) (\<lambda>r. without D (K r)) \<and>
     set fr' = D \<union> set fr \<and> counts s' fr' (\<lambda>a. without D (Q a)) \<and>
     sem_gain s Q s' (\<lambda>a. without D (Q a)) \<and> dframe s s'"

lemma removed_trans:
  assumes 1: "removed D s cur rd fr Q K s' fr'"
    and 2: "removed E s' (without D cur) (without D rd) fr' (\<lambda>a. without D (Q a)) (\<lambda>r. without D (K r)) s'' fr''"
  shows "removed (D \<union> E) s cur rd fr Q K s'' fr''"
proof -
  have g: "sem_gain s Q s'' (\<lambda>a. without E (without D (Q a)))" "dframe s s''"
    using 1 2 sem_gain_trans dframe_trans unfolding removed_def by blast+
  have "E \<union> (D \<union> set fr) = D \<union> E \<union> set fr" by auto
  then show ?thesis using 1 2 g by (simp add: removed_def Un_commute [of E D])
qed

lemma removed_ok: "removed D s cur rd fr Q K s' fr' \<Longrightarrow> sems_ok s Q \<Longrightarrow> sems_ok s' (\<lambda>a. without D (Q a))"
  unfolding removed_def using sem_gain_ok [of s Q s' "\<lambda>a. without D (Q a)"]
  by (metis without_simps(2))

lemma terminate_one_removed:
  assumes "kst s cur rd fr Q K" "counts s fr Q" "i \<in> live fr" "sems_ok s Q" "K i = []"
  shows "\<exists>s' fr'. terminate_one i s = Some s' \<and> removed {i} s cur rd fr Q K s' fr'"
  using terminate_one_spec [OF assms] unfolding removed_def by fastforce

lemma kill_children_spec:
  assumes "kst s cur rd fr Q K" "counts s fr Q" "i \<in> live fr" "sems_ok s Q" "card (desc K i) \<le> n"
  shows "\<exists>s' fr'. kill_children i s = Some s' \<and> removed (desc K i) s cur rd fr Q K s' fr'"
  using assms
proof (induction n arbitrary: i s cur rd fr Q K)
  case 0
  note k = "0.prems"(1)
  have "finite (desc K i)" using desc_live [OF kstD(5) [OF k]] placesD(13) [OF kstD(4) [OF k]] finite_subset by blast
  then have e: "desc K i = {}" using "0.prems"(5) by simp
  then have "K i = []" using desc_child [of _ K i] by (metis all_not_in_conv last_in_set)
  then have "removeChild (Some i) s = Some (None, s)"
    using removeChild_Nil treesD(1) [OF kstD(5) [OF k] "0.prems"(3)] by metis
  then have "kill_children i s = Some s" by (simp add: kill_children.simps)
  moreover have "removed {} s cur rd fr Q K s fr" using "0.prems" by (simp add: removed_def)
  ultimately show ?case unfolding e by blast
next
  case (Suc n)
  note k = Suc.prems(1) and T = kstD(5) [OF Suc.prems(1)]
  show ?case
  proof (cases "K i")
    case Nil
    then show ?thesis using Suc.IH [OF Suc.prems(1-4)] desc_leaf [of K i] by simp
  next
    case (Cons c cs)
    define K1 where "K1 = K(i := cs)"
    define D1 where "D1 = desc K1 c"
    define K3 where "K3 = (\<lambda>r. without (insert c D1) (K1 r))"
    note cut = desc_cut [OF treesD(4) [OF T] Cons children_distinct [OF treesD(1) [OF T Suc.prems(3)]],
        folded K1_def, folded D1_def, folded K3_def]
    have cl: "c \<in> live fr" using treesD(2) [OF T, of i] Cons by simp
    have fin: "finite (desc K i)" using desc_live [OF T] placesD(13) [OF kstD(4) [OF k]] finite_subset by blast
    have "finite D1" "finite (desc K3 i)" using cut(1) finite_subset [OF _ fin] by blast+
    moreover have "card (insert c D1) \<le> card (desc K i)" "card (insert c (desc K3 i)) \<le> card (desc K i)"
      by (rule card_mono [OF fin], use cut(1) in blast)+
    ultimately have n: "card D1 \<le> n" "card (desc K3 i) \<le> n"
      using cut(2,3) Suc.prems(5) by simp_all
    from kst_removeChild [OF k Suc.prems(3) Cons] obtain s1 where
      s1: "removeChild (Some i) s = Some (Some c, s1)" "kst s1 cur rd fr Q K1" "tframe {i} (set (K i)) s s1"
      unfolding K1_def by blast
    note q1 = quiet_tframe [OF s1(3)]
    have c1: "counts s1 fr Q" "sems_ok s1 Q"
      using Suc.prems(2,4) by (simp_all add: sems_ok_def quietD [OF q1])
    from Suc.IH [OF s1(2) c1(1) cl c1(2)] n(1) obtain s2 fr2 where
      s2: "kill_children c s1 = Some s2" "removed D1 s1 cur rd fr Q K1 s2 fr2" unfolding D1_def by blast
    note r2 = s2(2) [unfolded removed_def]
    have "c \<in> live fr2" using r2 cl cut(2) by (auto simp: live_def)
    moreover have "without D1 (K1 c) = []"
      using desc_child [of _ K1 c] by (auto simp: D1_def without_def filter_empty_conv)
    ultimately obtain s3 fr3 where s3: "terminate_one c s2 = Some s3"
        "removed {c} s2 (without D1 cur) (without D1 rd) fr2 (\<lambda>a. without D1 (Q a)) (\<lambda>r. without D1 (K1 r)) s3 fr3"
      using terminate_one_removed [of s2] removed_ok [OF s2(2) c1(2)] r2 by blast
    from removed_trans [OF s2(2) s3(2)] have
      r3: "removed (insert c D1) s1 cur rd fr Q K1 s3 fr3" by simp
    have "i \<in> live fr3" using r3 cut(4) Suc.prems(3) by (auto simp: removed_def live_def)
    from Suc.IH [OF _ _ this removed_ok [OF r3 c1(2)] n(2)] r3 obtain s4 fr4 where
      s4: "kill_children i s3 = Some s4" "removed (desc K3 i) s3 (without (insert c D1) cur)
        (without (insert c D1) rd) fr3 (\<lambda>a. without (insert c D1) (Q a)) K3 s4 fr4"
      unfolding removed_def K3_def by blast
    from removed_trans [OF r3 s4(2) [unfolded K3_def]] have
      r4: "removed (desc K i) s1 cur rd fr Q K1 s4 fr4" by (simp add: cut(1) K3_def)
    have "kill_children i s = Some s4"
      by (subst kill_children.simps) (simp add: s1(1) s2(1) s3(1) s4(1))
    moreover have "(\<lambda>r. without (desc K i) (K1 r)) = (\<lambda>r. without (desc K i) (K r))"
      using cut(1) by (auto simp: K1_def Cons without_def)
    moreover have "dframe s s1"
      using dframe_quiet [OF q1] kframe_fields(4) [OF kframe_tframe [OF s1(3)]] by simp
    ultimately show ?thesis using r4 dframe_trans [of s s1 s4]
      by (auto simp: removed_def sem_gain_def quietD [OF q1])
  qed
qed

text \<open>The process itself goes last.\<close>

lemma terminate_spec:
  assumes k: "kst s cur rd fr Q K" and c: "counts s fr Q" and i: "i \<in> live fr" and ok: "sems_ok s Q"
  shows "\<exists>s' fr'. helper_terminate_process (Some i) s = Some s' \<and>
     removed (insert i (desc K i)) s cur rd fr Q K s' fr'"
proof -
  note T = kstD(5) [OF k]
  from kill_children_spec [OF assms order_refl] obtain s1 fr1 where
    s1: "kill_children i s = Some s1" "removed (desc K i) s cur rd fr Q K s1 fr1" by blast
  note r1 = s1(2) [unfolded removed_def]
  have "i \<in> live fr1" using r1 i desc_acyclic [OF treesD(4) [OF T], of i i] by (auto simp: live_def)
  moreover have "without (desc K i) (K i) = []"
    using desc_child [of _ K i] by (auto simp: without_def filter_empty_conv)
  ultimately obtain s2 fr2 where s2: "terminate_one i s1 = Some s2"
      "removed {i} s1 (without (desc K i) cur) (without (desc K i) rd) fr1 (\<lambda>a. without (desc K i) (Q a))
         (\<lambda>r. without (desc K i) (K r)) s2 fr2"
    using terminate_one_removed [of s1] removed_ok [OF s1(2) ok] r1 by blast
  have "removed (insert i (desc K i)) s cur rd fr Q K s2 fr2"
    using removed_trans [OF s1(2) s2(2)] by simp
  moreover have "helper_terminate_process (Some i) s = Some s2"
    using s1(1) s2(1) by (simp add: helper_terminate_process_def)
  ultimately show ?thesis by blast
qed

end
