(* ===== verification/Devices.thy ===== *)
theory Devices
  imports Terminate
begin

text \<open>
  The interrupt handlers on a state that satisfies the invariant: the tests of the pending
  bits, the completion of an I/O operation, the clock tick, the end of a time slice, and the
  choice of the interrupt that is served.
\<close>

section \<open>Pending bits\<close>

text \<open>The code shifts the bit into the sign position and back; \<open>int\<close> is shifted with its sign.\<close>

lemma sign_shift: "signed_drop_bit 31 (w :: u32) = 0 \<longleftrightarrow> \<not> bit w 31"
proof -
  have "bit (signed_drop_bit 31 w) n \<longleftrightarrow> n < 32 \<and> bit w 31" for n
  proof (cases n)
    case (Suc m)
    have "31 \<le> Suc (31 + m)" by simp
    then show ?thesis by (auto simp: bit_signed_drop_bit_iff Suc dest: bit_imp_le_length)
  qed (simp add: bit_signed_drop_bit_iff)
  then show ?thesis by (metis bit_0_eq bot_apply bot_bool_def bit_eqI numeral_less_iff semiring_norm(76) zero_less_numeral)
qed

lemma pending_shift: "n < 32 \<Longrightarrow> signed_drop_bit 31 (push_bit (31 - n) (w :: u32)) = 0 \<longleftrightarrow> \<not> bit w n"
  by (simp add: sign_shift bit_push_bit_iff)

lemma check_device: "n < 32 \<Longrightarrow> helper_check_interrupt_device n a s = TRUE \<longleftrightarrow> bit (mem s a) n"
  using pending_shift [of n "mem s a"]
  by (simp add: helper_check_interrupt_device_def Let_def REGWIDTH_def TRUE_def FALSE_def)

lemma bit_IPBITS: "n < 8 \<Longrightarrow> bit IPBITS (8 + n)"
proof -
  have "\<forall>n<8. bit (0xFF00 :: u32) (8 + n)" by code_simp
  then show "n < 8 \<Longrightarrow> bit IPBITS (8 + n)" by (simp add: IPBITS_def)
qed

lemma check_line: "n < 8 \<Longrightarrow> helper_check_interrupt_line n s = TRUE \<longleftrightarrow> bit (s_cause (bios s)) (8 + n)"
  using pending_shift [of n "drop_bit 8 (s_cause (bios s) AND IPBITS)"] bit_IPBITS [of n]
  by (simp add: helper_check_interrupt_line_def Let_def REGWIDTH_def IPBITSPOS_def TRUE_def FALSE_def
      bit_drop_bit_eq bit_and_iff)

section \<open>Completion of an operation\<close>

lemma resume_spec:
  assumes k: "kst s (cur_list (currentP s)) rd fr Q K" and c: "counts s fr Q"
  shows "\<exists>e s'. resume s = Some (e, s') \<and>
     (case currentP s of Some _ \<Rightarrow> e = LDST (bios s) \<and> s' = s | None \<Rightarrow> dispatched s e s' rd fr Q K)"
proof (cases "currentP s")
  case None
  with kst_dispatch [OF _ c] k obtain e s' where "scheduler s = Some (e, s')" "dispatched s e s' rd fr Q K"
    by fastforce
  with None show ?thesis by (auto simp: resume_def)
next
  case (Some i)
  with k c show ?thesis by (auto simp: resume_def)
qed

text \<open>What the two device handlers do once they have read and acknowledged the status \<open>st\<close>.\<close>

definition complete_io :: "u32 \<Rightarrow> 'a kstate_scheme \<Rightarrow> (exit \<times> 'a kstate_scheme) option" where
  "complete_io st s = do {
     (unblocked_pcb, s) \<leftarrow> helper_verhogen s;
     if unblocked_pcb = None then resume s
     else do {
       let s = s\<lparr>softBlock_count := softBlock_count s - 1\<rparr>;
       u \<leftarrow> unblocked_pcb;
       let s = upd_pcb u (\<lambda>p. p\<lparr>p_s := set_reg R_v0 st (p_s p)\<rparr>) s;
       resume s
     }
   }"

lemma non_terminal_eval:
  "helper_non_terminal_device l d s = complete_io (d_status (devregs s (devAddrBase l d)))
     (upd_bios (set_reg R_a1 (device_sem (devSemIdx l d FALSE) s))
       (upd_dev (devAddrBase l d) (d_command_update (\<lambda>_. ACK)) s))"
  by (simp add: helper_non_terminal_device_def complete_io_def Let_def)

lemma terminal_eval:
  "helper_terminal_device l d r s =
     (if r \<noteq> 0
      then complete_io (d_status (devregs s (devAddrBase l d))) (upd_bios (set_reg R_a1 (device_sem (devSemIdx l d r) s))
        (upd_dev (devAddrBase l d) (d_command_update (\<lambda>_. ACK)) s))
      else complete_io (d_data0 (devregs s (devAddrBase l d))) (upd_bios (set_reg R_a1 (device_sem (devSemIdx l d r) s))
        (upd_dev (devAddrBase l d) (d_data1_update (\<lambda>_. ACK)) s)))"
  by (simp add: helper_terminal_device_def complete_io_def Let_def)

lemma complete_io_idle:
  assumes "kst s cur rd fr Q K" "a = s_reg (bios s) R_a1" "a \<noteq> lastSemd s" "0 < sint (mem s a + 1) \<or> Q a = []"
  shows "complete_io st s = resume (poke a (mem s a + 1) s)"
  using V_idle [OF assms] by (simp add: complete_io_def helper_verhogen_VERHOGEN)

lemma complete_io_wake:
  assumes k: "kst s cur rd fr Q K" and c: "counts s fr Q" and a: "a = s_reg (bios s) R_a1" "in_devs s a"
    and nl: "NULL \<noteq> lastSemd s" and wake: "sint (mem s a + 1) \<le> 0" "Q a = p # ps"
  shows "\<exists>s1. complete_io st s = resume s1 \<and> kst s1 cur (rd @ [p]) fr (Q(a := ps)) K \<and>
     counts s1 fr (Q(a := ps)) \<and> currentP s1 = currentP s \<and> bios s1 = bios s \<and> mem s1 = (mem s)(a := mem s a + 1) \<and>
     p_s (pcbs s1 p) = set_reg R_v0 st (p_s (pcbs s p)) \<and> (\<forall>i. i \<noteq> p \<longrightarrow> p_s (pcbs s1 i) = p_s (pcbs s i)) \<and>
     device_sem_addr s1 = device_sem_addr s \<and> semdTable_addr s1 = semdTable_addr s \<and> devregs s1 = devregs s"
proof -
  from V_wake [OF k a(1) nl wake] obtain s' where
    s': "VERHOGEN s = Some (Some p, s')" "kst s' cur (rd @ [p]) fr (Q(a := ps)) K"
      "quiet (poke a (mem s a + 1) s) s'" "currentP s' = currentP s" by blast
  note q = quietD [OF s'(3)]
  let ?s1 = "upd_pcb p (\<lambda>q. q\<lparr>p_s := set_reg R_v0 st (p_s q)\<rparr>) (s'\<lparr>softBlock_count := softBlock_count s' - 1\<rparr>)"
  have "complete_io st s = resume ?s1"
    by (simp add: complete_io_def helper_verhogen_VERHOGEN s'(1))
  moreover have "kst ?s1 cur (rd @ [p]) fr (Q(a := ps)) K" using s'(2) by simp
  moreover have "counts ?s1 fr (Q(a := ps))"
  proof -
    have "set ps = set (Q a) - {p}" "p \<in> set (Q a)" using kst_Q_distinct [OF k, of a] wake(2) by auto
    from counts_unblock_device [OF k c a(2) this(2,1)] have
      c1: "counts (s\<lparr>softBlock_count := softBlock_count s - 1\<rparr>) fr (Q(a := ps))" .
    moreover have "waiting ?s1 X = waiting (s\<lparr>softBlock_count := softBlock_count s - 1\<rparr>) X" for X
      using s'(3) by (intro waiting_cong) (simp add: quiet_def upd_pcb_def poke_def)
    ultimately show ?thesis using q by (simp add: counts_def)
  qed
  moreover have "device_sem_addr ?s1 = device_sem_addr s" "semdTable_addr ?s1 = semdTable_addr s"
    using s'(3) by (simp_all add: quiet_def upd_pcb_def poke_def)
  ultimately show ?thesis using q s'(4)
    by (intro exI [of _ ?s1]) (simp add: upd_pcb_sel)
qed

section \<open>The clock tick\<close>

lemma unblock_step:
  assumes k: "kst s cur rd fr Q K" and c: "counts s fr Q" and d: "in_devs s a" and nl: "NULL \<noteq> lastSemd s"
    and q: "Q a = p # ps"
  shows "\<exists>s'. helper_unblock_process a s = Some (Some p, s') \<and> kst s' (p # cur) rd fr (Q(a := ps)) K \<and>
     counts s' fr (Q(a := ps)) \<and> dframe s s' \<and> mem s' = mem s"
proof -
  from kst_unblock [OF k q nl] obtain s1 where
    s1: "removeBlocked a s = Some (Some p, s1)" "kst s1 (p # cur) rd fr (Q(a := ps)) K"
      "bframe (set (Q a)) {p} s s1" by blast
  note qu = quiet_bframe [OF s1(3)]
  let ?s' = "s1\<lparr>softBlock_count := softBlock_count s1 - 1\<rparr>"
  have "set ps = set (Q a) - {p}" "p \<in> set (Q a)" using kst_Q_distinct [OF k, of a] q by auto
  note counts_unblock_device [OF k c d this(2,1)]
  moreover have "waiting ?s' X = waiting (s\<lparr>softBlock_count := softBlock_count s - 1\<rparr>) X" for X
    using qu by (intro waiting_cong) (simp add: quiet_def)
  ultimately have "counts ?s' fr (Q(a := ps))" using quietD [OF qu] by (simp add: counts_def)
  moreover have "dframe s ?s'"
    using dframe_quiet [OF qu kframe_fields(4) [OF kframe_bframe [OF s1(3)]]] by (simp add: dframe_def)
  ultimately show ?thesis using s1 quietD(6) [OF qu] by (simp add: helper_unblock_process_def)
qed

lemma unblock_none:
  assumes "kst s cur rd fr Q K" "Q a = []" "a \<noteq> lastSemd s"
  shows "helper_unblock_process a s = Some (None, s)"
  using kst_unblock_none [OF assms] by (simp add: helper_unblock_process_def)

lemma unblock_all_spec:
  assumes "kst s (p # cur) rd fr Q K" "counts s fr Q" "in_devs s a" "NULL \<noteq> lastSemd s" "a \<noteq> lastSemd s" "Q a = ps"
  shows "\<exists>s'. unblock_all a (Some p) s = Some s' \<and> kst s' cur (rd @ p # ps) fr (Q(a := [])) K \<and>
     counts s' fr (Q(a := [])) \<and> dframe s s' \<and> mem s' = mem s"
  using assms
proof (induction ps arbitrary: s p rd Q)
  case Nil
  note k = Nil.prems(1)
  from kst_ready [OF k, of p] obtain s1 where
    s1: "insertProcQ (readyQ s) (Some p) s = Some (Some p, s1)" "kst (s1\<lparr>readyQ := Some p\<rparr>) cur (rd @ [p]) fr Q K"
      "qframe (insert p (set rd)) s s1" by auto
  let ?s1 = "s1\<lparr>readyQ := Some p\<rparr>"
  have qu: "quiet s ?s1" using quiet_qframe [OF s1(3)] by simp
  have "a \<noteq> lastSemd ?s1" using Nil.prems(5) quietD(13) [OF qu] by simp
  from unblock_none [OF s1(2) Nil.prems(6) this]
  have "unblock_all a (Some p) s = Some ?s1"
    by (subst unblock_all.simps, simp add: s1(1)) (simp add: unblock_all.simps)
  moreover have "Q(a := []) = Q" using Nil.prems(6) by auto
  moreover have "dframe s ?s1" using dframe_quiet [OF qu] kframe_fields(4) [OF kframe_qframe [OF s1(3)]] by simp
  ultimately show ?case using s1(2) Nil.prems(2) quietD(6,16) [OF qu] by auto
next
  case (Cons q ps)
  note k = Cons.prems(1)
  from kst_ready [OF k, of p] obtain s1 where
    s1: "insertProcQ (readyQ s) (Some p) s = Some (Some p, s1)" "kst (s1\<lparr>readyQ := Some p\<rparr>) cur (rd @ [p]) fr Q K"
      "qframe (insert p (set rd)) s s1" by auto
  let ?s1 = "s1\<lparr>readyQ := Some p\<rparr>"
  have qu: "quiet s ?s1" using quiet_qframe [OF s1(3)] by simp
  have d1: "dframe s ?s1" using dframe_quiet [OF qu] kframe_fields(4) [OF kframe_qframe [OF s1(3)]] by simp
  have a: "counts ?s1 fr Q" "in_devs ?s1 a" "NULL \<noteq> lastSemd ?s1" "a \<noteq> lastSemd ?s1"
    using Cons.prems(2-5) quietD [OF qu] by simp_all
  from unblock_step [OF s1(2) a(1-3) Cons.prems(6)] obtain s2 where
    s2: "helper_unblock_process a ?s1 = Some (Some q, s2)" "kst s2 (q # cur) (rd @ [p]) fr (Q(a := ps)) K"
      "counts s2 fr (Q(a := ps))" "dframe ?s1 s2" "mem s2 = mem ?s1" by blast
  have b: "in_devs s2 a" "NULL \<noteq> lastSemd s2" "a \<noteq> lastSemd s2" using a(2-4) dframe_addrs [OF s2(4)] by auto
  from Cons.IH [OF s2(2,3) b fun_upd_same, unfolded fun_upd_upd] obtain s3 where
    s3: "unblock_all a (Some q) s2 = Some s3" "kst s3 cur ((rd @ [p]) @ q # ps) fr (Q(a := [])) K"
      "counts s3 fr (Q(a := []))" "dframe s2 s3" "mem s3 = mem s2" by blast
  have "unblock_all a (Some p) s = Some s3"
    by (subst unblock_all.simps) (simp add: s1(1) s2(1) s3(1))
  moreover have "mem s3 = mem s" using s3(5) s2(5) quietD(6) [OF qu] by simp
  moreover have "kst s3 cur (rd @ p # q # ps) fr (Q(a := [])) K" using s3(2) by simp
  ultimately show ?case using s3(3) dframe_trans [OF dframe_trans [OF d1 s2(4)] s3(4)] by blast
qed

lemma tick_spec:
  assumes k: "kst s cur rd fr Q K" and c: "counts s fr Q" and l: "layout s"
  shows "\<exists>s1. pseudo_clock_interrupts s = resume s1 \<and>
     kst s1 cur (rd @ Q (device_sem 48 s)) fr (Q(device_sem 48 s := [])) K \<and>
     counts s1 fr (Q(device_sem 48 s := [])) \<and> dframe s s1 \<and>
     mem s1 = (mem s)(INTERVALTMR := 100000 * mem s TIMESCALEADDR, device_sem 48 s := 0)"
proof -
  let ?a = "device_sem 48 s" and ?s0 = "LDIT 100000 s"
  have s0: "kst ?s0 cur rd fr Q K" "counts ?s0 fr Q" "dframe s ?s0" "device_sem 48 ?s0 = ?a"
      "mem ?s0 = (mem s)(INTERVALTMR := 100000 * mem s TIMESCALEADDR)"
    using k c by (simp_all add: LDIT_def, simp_all add: dframe_def poke_def)
  have d: "in_devs ?s0 ?a" "NULL \<noteq> lastSemd ?s0" "?a \<noteq> lastSemd ?s0"
    using layout_addrs(1) [OF l] layout_addrs(4,5) [OF l, of 48] dframe_addrs [OF s0(3)] by auto
  have "\<exists>p s1 s2. helper_unblock_process ?a ?s0 = Some (p, s1) \<and> unblock_all ?a p s1 = Some s2 \<and>
     kst s2 cur (rd @ Q ?a) fr (Q(?a := [])) K \<and> counts s2 fr (Q(?a := [])) \<and> dframe ?s0 s2 \<and> mem s2 = mem ?s0"
  proof (cases "Q ?a")
    case Nil
    then have "Q(?a := []) = Q" by auto
    with unblock_none [OF s0(1) Nil d(3)] s0(1,2) Nil show ?thesis
      by (auto simp: unblock_all.simps)
  next
    case (Cons p ps)
    from unblock_step [OF s0(1,2) d(1,2) Cons] obtain s1 where
      s1: "helper_unblock_process ?a ?s0 = Some (Some p, s1)" "kst s1 (p # cur) rd fr (Q(?a := ps)) K"
        "counts s1 fr (Q(?a := ps))" "dframe ?s0 s1" "mem s1 = mem ?s0" by blast
    have b: "in_devs s1 ?a" "NULL \<noteq> lastSemd s1" "?a \<noteq> lastSemd s1" using d dframe_addrs [OF s1(4)] by auto
    from unblock_all_spec [OF s1(2,3) b fun_upd_same, unfolded fun_upd_upd] obtain s2 where
      "unblock_all ?a (Some p) s1 = Some s2" "kst s2 cur (rd @ p # ps) fr (Q(?a := [])) K"
      "counts s2 fr (Q(?a := []))" "dframe s1 s2" "mem s2 = mem s1" by blast
    with s1 Cons dframe_trans [OF s1(4)] show ?thesis by auto
  qed
  then obtain p s1 s2 where s2: "helper_unblock_process ?a ?s0 = Some (p, s1)" "unblock_all ?a p s1 = Some s2"
     "kst s2 cur (rd @ Q ?a) fr (Q(?a := [])) K" "counts s2 fr (Q(?a := []))" "dframe ?s0 s2" "mem s2 = mem ?s0"
    by blast
  have "pseudo_clock_interrupts s = resume (poke ?a 0 s2)"
    using s0(4) s2(1,2) by (simp add: pseudo_clock_interrupts_def Let_def pseudo_clock_idx_def)
  moreover have "dframe s (poke ?a 0 s2)"
    using dframe_trans [OF s0(3) s2(5)] by (simp add: dframe_def poke_def)
  ultimately show ?thesis using s2(3,4,6) s0(5) by (intro exI [of _ "poke ?a 0 s2"]) simp
qed

section \<open>The end of a time slice\<close>

text \<open>The timer is reloaded before it is read, so the process is charged for what the timer has
  counted since the reload, not for the slice it used.\<close>

definition preempted :: "nat \<Rightarrow> 'a kstate_scheme \<Rightarrow> 'a kstate_scheme" where
  "preempted c s = upd_pcb c (\<lambda>p. p\<lparr>p_s := bios s, p_time := p_time p + plt_lag s (plt_reads s)\<rparr>)
     (s\<lparr>plt := 5000, plt_reads := Suc (plt_reads s)\<rparr>)"

lemma preempted_kst [simp]:
  "kst (preempted c s) cur rd fr Q K = kst s cur rd fr Q K" "counts (preempted c s) fr Q = counts s fr Q"
  "currentP (preempted c s) = currentP s" "readyQ (preempted c s) = readyQ s"
proof -
  show "kst (preempted c s) cur rd fr Q K = kst s cur rd fr Q K"
    by (rule same_struct_kst) (simp add: same_struct_def preempted_def upd_pcb_def)
  have "waiting (preempted c s) Q = waiting s Q" for Q
    by (rule waiting_cong) (simp add: preempted_def upd_pcb_def)
  then show "counts (preempted c s) fr Q = counts s fr Q" by (simp add: counts_def, simp add: preempted_def)
qed (simp_all add: preempted_def)

lemma slice_end_spec:
  assumes k: "kst s [c] rd fr Q K" and n: "counts s fr Q" and cur: "currentP s = Some c"
  shows "\<exists>s1 e s'. process_local_timer_interrupts s = Some (e, s') \<and> quiet (preempted c s) s1 \<and>
     kst s1 [] (rd @ [c]) fr Q K \<and> counts s1 fr Q \<and> dispatched s1 e s' (rd @ [c]) fr Q K"
proof -
  have k1: "kst (preempted c s) [c] rd fr Q K" using k by simp
  from kst_ready [OF k1, of c] obtain s2 where
    s2: "insertProcQ (readyQ s) (Some c) (preempted c s) = Some (Some c, s2)"
      "kst (s2\<lparr>readyQ := Some c\<rparr>) [] (rd @ [c]) fr Q K" "qframe (insert c (set rd)) (preempted c s) s2" by auto
  let ?s1 = "s2\<lparr>readyQ := Some c\<rparr>"
  have q: "quiet (preempted c s) ?s1" using quiet_qframe [OF s2(3)] by simp
  then have n1: "counts ?s1 fr Q" using n by (simp add: quietD(16) [OF q])
  have "upd_pcb c (\<lambda>p. p\<lparr>p_time := p_time p + (5000 - (plt u - plt_lag u (plt_reads u)))\<rparr>)
      (u\<lparr>plt_reads := Suc (plt_reads u)\<rparr>) = preempted c s"
    if "u = upd_pcb c (\<lambda>p. p\<lparr>p_s := bios s\<rparr>) (setTIMER 5000 s)" for u
    by (simp add: that preempted_def setTIMER_def) (simp add: upd_pcb_def setTIMER_def)
  moreover have "bios (setTIMER 5000 s) = bios s" "currentP (setTIMER 5000 s) = Some c"
      "readyQ (setTIMER 5000 s) = readyQ s"
    using cur by (simp_all add: setTIMER_def)
  ultimately have "process_local_timer_interrupts s = scheduler ?s1"
    using s2(1) cur by (simp add: process_local_timer_interrupts_def Let_def deep_copy_eq getTIMER_def)
  with kst_dispatch [OF s2(2) n1] s2(2) n1 q show ?thesis by metis
qed

section \<open>Which interrupt is served\<close>

text \<open>\<open>device_pending l s\<close>: the devices of line \<open>l\<close> whose bit is set; \<open>line_pending l s\<close>: line \<open>l\<close> asks
  for service, and for a device line there is a device to serve.\<close>

definition device_pending :: "nat \<Rightarrow> 'a kstate_scheme \<Rightarrow> nat \<Rightarrow> bool" where
  "device_pending l s d \<longleftrightarrow> bit (mem s (intDevBitMap (of_nat l))) d"

definition line_pending :: "'a kstate_scheme \<Rightarrow> nat \<Rightarrow> bool" where
  "line_pending s l \<longleftrightarrow> bit (s_cause (bios s)) (8 + l) \<and> (3 \<le> l \<longrightarrow> find (device_pending l s) [0..<8] \<noteq> None)"

definition serve_device :: "nat \<Rightarrow> nat \<Rightarrow> 'a kstate_scheme \<Rightarrow> (exit \<times> 'a kstate_scheme) option" where
  "serve_device l d s =
     (if l \<noteq> 7 then helper_non_terminal_device (of_nat l) (of_nat d) s
      else helper_terminal_device 7 (of_nat d)
        (if d_status (devregs s (devAddrBase 7 (of_nat d))) AND 0xFF = 5 then TRUE else FALSE) s)"

definition serve_line :: "nat \<Rightarrow> 'a kstate_scheme \<Rightarrow> (exit \<times> 'a kstate_scheme) option" where
  "serve_line l s =
     (if l = 1 then process_local_timer_interrupts s
      else if l = 2 then pseudo_clock_interrupts s
      else do { d \<leftarrow> find (device_pending l s) [0..<8]; serve_device l d s })"

lemma scan_devices_find:
  "set ds \<subseteq> {0..<8} \<Longrightarrow> scan_devices ds l s =
     (case find (device_pending l s) ds of
        None \<Rightarrow> Some (None, s) | Some d \<Rightarrow> map_option (map_prod Some id) (serve_device l d s))"
  by (induction ds) (auto simp: device_pending_def check_device serve_device_def Let_def)

lemma served_bind:
  "map_option (map_prod Some id) x \<bind> (\<lambda>(e, s). case e of None \<Rightarrow> f s | Some e \<Rightarrow> Some (e, s)) = x"
  by (cases x) auto

lemma scan_lines_find:
  "set ls \<subseteq> {1..<8} \<Longrightarrow> scan_lines ls s =
     (case find (line_pending s) ls of None \<Rightarrow> resume s | Some l \<Rightarrow> serve_line l s)"
proof (induction ls)
  case (Cons l ls)
  have "non_timer_interrupts l s = (case find (device_pending l s) [0..<8] of
        None \<Rightarrow> Some (None, s) | Some d \<Rightarrow> map_option (map_prod Some id) (serve_device l d s))"
    by (simp add: non_timer_interrupts_def scan_devices_find DEVPERINT_def)
  then show ?case using Cons
    by (auto simp: check_line line_pending_def serve_line_def served_bind split: option.splits)
qed simp

lemma handler_find:
  "interrupt_exception_handler s =
     (case find (line_pending s) [1..<8] of None \<Rightarrow> resume s | Some l \<Rightarrow> serve_line l s)"
proof -
  have "interrupt_exception_handler s = scan_lines [1..<8] s"
    by (simp add: interrupt_exception_handler_def INTLINESCOUNT_def upt_conv_Cons [of 0 8])
  then show ?thesis by (simp add: scan_lines_find)
qed

end
