(* ===== verification/OsSpec.thy ===== *)
theory OsSpec
  imports Terminate
begin

text \<open>
  What the nucleus promises, without its tables: an abstract kernel whose state consists of the running
  process and lists of processes, and what each kind of exception does to it. The theory
  \<open>Invariant\<close> shows that the nucleus implements it.
\<close>

section \<open>The abstract kernel\<close>

text \<open>The running process, the ready queue, the pcbs that are free, the processes that wait on each semaphore,
  the children of each process and the values of the semaphores, 32-bit words read with a sign; the semaphores of the
  devices have none.\<close>

record os =
  os_cur :: ptr
  os_ready :: "nat list"
  os_free :: "nat list"
  os_waits :: "u32 \<Rightarrow> nat list"
  os_kids :: "nat \<Rightarrow> nat list"
  os_sems :: "u32 \<rightharpoonup> u32"

abbreviation os_of :: "ptr \<Rightarrow> nat list \<Rightarrow> nat list \<Rightarrow> (u32 \<Rightarrow> nat list) \<Rightarrow> (nat \<Rightarrow> nat list) \<Rightarrow> (u32 \<rightharpoonup> u32) \<Rightarrow> os" where
  "os_of c rd fr Q K M \<equiv> \<lparr>os_cur = c, os_ready = rd, os_free = fr, os_waits = Q, os_kids = K, os_sems = M\<rparr>"

definition dispatch :: "os \<Rightarrow> os" where
  "dispatch x =
     (if os_cur x = None then (case os_ready x of [] \<Rightarrow> x | p # ps \<Rightarrow> x\<lparr>os_cur := Some p, os_ready := ps\<rparr>) else x)"

definition spawn :: "nat \<Rightarrow> os \<Rightarrow> os" where
  "spawn c x = (case os_free x of [] \<Rightarrow> x
     | n # fr \<Rightarrow> x\<lparr>os_free := fr, os_ready := os_ready x @ [n], os_kids := (os_kids x)(c := os_kids x c @ [n])\<rparr>)"

definition suspend :: "nat \<Rightarrow> u32 \<Rightarrow> os \<Rightarrow> os" where
  "suspend c a x = x\<lparr>os_cur := None, os_waits := (os_waits x)(a := os_waits x a @ [c])\<rparr>"

definition wake :: "u32 \<Rightarrow> os \<Rightarrow> os" where
  "wake a x = (case os_waits x a of [] \<Rightarrow> x
     | p # ps \<Rightarrow> x\<lparr>os_ready := os_ready x @ [p], os_waits := (os_waits x)(a := ps)\<rparr>)"

definition wake_all :: "u32 \<Rightarrow> os \<Rightarrow> os" where
  "wake_all a x = x\<lparr>os_ready := os_ready x @ os_waits x a, os_waits := (os_waits x)(a := [])\<rparr>"

definition preempt :: "nat \<Rightarrow> os \<Rightarrow> os" where
  "preempt c x = x\<lparr>os_cur := None, os_ready := os_ready x @ [c]\<rparr>"

definition remove :: "nat set \<Rightarrow> nat list \<Rightarrow> os \<Rightarrow> os" where
  "remove D fr x = os_of None (without D (os_ready x)) fr (\<lambda>a. without D (os_waits x a)) (\<lambda>i. without D (os_kids x i))
     (\<lambda>a. map_option (\<lambda>v. v + of_nat (length (os_waits x a) - length (without D (os_waits x a)))) (os_sems x a))"

definition add_sem :: "u32 \<Rightarrow> u32 \<Rightarrow> os \<Rightarrow> os" where
  "add_sem a v x = x\<lparr>os_sems := (os_sems x)(a := map_option (\<lambda>u. u + v) (os_sems x a))\<rparr>"

section \<open>Its steps\<close>

text \<open>The process creates a process, ends, does P or V on a semaphore, or waits for a device; one process or all processes
  that wait for a device may go on; the time slice is over; nothing happens to the processes. In the end, if no process runs,
  the head of the ready queue is dispatched. The order in which the pcbs of a process and its descendants become free is
  left open.\<close>

datatype event = Spawn | Kill | Down u32 | Up u32 | Suspend u32 | Wake u32 | WakeAll u32 | Preempt | Stay

inductive os_step :: "event \<Rightarrow> os \<Rightarrow> os \<Rightarrow> bool" where
  spawn: "os_cur x = Some c \<Longrightarrow> os_step Spawn x (spawn c x)"
| kill: "os_cur x = Some c \<Longrightarrow> D = insert c (desc (os_kids x) c) \<Longrightarrow> set fr = D \<union> set (os_free x) \<Longrightarrow>
    os_step Kill x (dispatch (remove D fr x))"
| pass: "os_cur x = Some c \<Longrightarrow> os_sems x a = Some v \<Longrightarrow> 0 < sint v \<Longrightarrow> os_step (Down a) x (add_sem a (- 1) x)"
| down: "os_cur x = Some c \<Longrightarrow> os_sems x a = Some v \<Longrightarrow> sint v \<le> 0 \<Longrightarrow>
    os_step (Down a) x (dispatch (suspend c a (add_sem a (- 1) x)))"
| up: "os_cur x = Some c \<Longrightarrow> os_step (Up a) x (wake a (add_sem a 1 x))"
| suspend: "os_cur x = Some c \<Longrightarrow> os_sems x a = None \<Longrightarrow> os_step (Suspend a) x (dispatch (suspend c a x))"
| wake: "os_sems x a = None \<Longrightarrow> os_step (Wake a) x (dispatch (wake a x))"
| wake_all: "os_sems x a = None \<Longrightarrow> os_step (WakeAll a) x (dispatch (wake_all a x))"
| preempt: "os_cur x = Some c \<Longrightarrow> os_step Preempt x (dispatch (preempt c x))"
| stay: "os_step Stay x (dispatch x)"

inductive_cases os_stepE: "os_step e x y"

lemma dispatch_simps [simp]:
  "dispatch (os_of (Some c) rd fr Q K M) = os_of (Some c) rd fr Q K M" "dispatch (os_of None [] fr Q K M) = os_of None [] fr Q K M"
  "dispatch (os_of None (p # rd) fr Q K M) = os_of (Some p) rd fr Q K M"
  by (simp_all add: dispatch_def)

section \<open>Progress in the ready queue\<close>

text \<open>\<open>ahead p x n\<close>: process \<open>p\<close> is in the ready queue behind \<open>n\<close> others.\<close>

definition ahead :: "nat \<Rightarrow> os \<Rightarrow> nat \<Rightarrow> bool" where
  "ahead p x n \<longleftrightarrow> (\<exists>xs ys. os_ready x = xs @ p # ys \<and> length xs = n)"

definition runs_or_gone :: "nat \<Rightarrow> os \<Rightarrow> bool" where
  "runs_or_gone p x \<longleftrightarrow> os_cur x = Some p \<or> p \<in> set (os_free x)"

lemma ahead_append: "ahead p x n \<Longrightarrow> os_ready y = os_ready x @ zs \<Longrightarrow> ahead p y n"
  by (clarsimp simp: ahead_def) blast

lemma ahead_without:
  assumes "ahead p x n" "os_ready y = without D (os_ready x)" "p \<notin> D"
  shows "\<exists>m\<le>n. ahead p y m"
proof -
  from assms(1) obtain xs ys where x: "os_ready x = xs @ p # ys" "length xs = n" by (auto simp: ahead_def)
  then have "os_ready y = without D xs @ p # without D ys" using assms(2,3) by (simp add: without_def)
  moreover have "length (without D xs) \<le> n" using x(2) by (auto simp: without_def)
  ultimately show ?thesis unfolding ahead_def by blast
qed

lemma ahead_dispatch:
  assumes "ahead p x n"
  shows "runs_or_gone p (dispatch x) \<or> (\<exists>m\<le>n. ahead p (dispatch x) m \<and> (os_cur x = None \<longrightarrow> m < n))"
proof -
  from assms obtain xs ys where x: "os_ready x = xs @ p # ys" "length xs = n" by (auto simp: ahead_def)
  show ?thesis
  proof (cases "os_cur x")
    case (Some c)
    then show ?thesis using assms by (auto simp: dispatch_def)
  next
    case None
    show ?thesis
    proof (cases xs)
      case Nil
      then show ?thesis using x None by (simp add: dispatch_def runs_or_gone_def)
    next
      case (Cons q qs)
      then have "os_ready (dispatch x) = qs @ p # ys" "length qs < n" using x None by (auto simp: dispatch_def)
      then show ?thesis unfolding ahead_def by (blast intro: less_imp_le)
    qed
  qed
qed

lemma ahead_step:
  assumes s: "os_step e x y" and p: "ahead p x n"
  shows "runs_or_gone p y \<or> (\<exists>m\<le>n. ahead p y m \<and> (e = Preempt \<longrightarrow> m < n))"
proof -
  have d: "runs_or_gone p (dispatch z) \<or> (\<exists>m\<le>n. ahead p (dispatch z) m \<and> (os_cur z = None \<longrightarrow> m < n))"
    if "os_ready z = os_ready x @ zs" for z zs
    using ahead_dispatch [OF ahead_append [OF p that]] .
  from s show ?thesis
  proof cases
    case (spawn c)
    then show ?thesis using p ahead_append [OF p, of y] by (cases "os_free x") (auto simp: spawn_def)
  next
    case (kill c D fr)
    show ?thesis
    proof (cases "p \<in> D")
      case True
      then have "p \<in> set (os_free y)" using kill by (auto simp: remove_def dispatch_def split: list.split)
      then show ?thesis by (simp add: runs_or_gone_def)
    next
      case False
      from ahead_without [OF p _ this, of "remove D fr x"] obtain m where "m \<le> n" "ahead p (remove D fr x) m"
        by (auto simp: remove_def)
      from ahead_dispatch [OF this(2)] this(1) kill show ?thesis by (meson event.distinct le_trans)
    qed
  next
    case (pass c a v)
    then show ?thesis using p ahead_append [OF p, of y "[]"] by (auto simp: add_sem_def)
  next
    case (down c a v)
    then show ?thesis using d [of "suspend c a (add_sem a (- 1) x)" "[]"] by (auto simp: suspend_def add_sem_def)
  next
    case (up c a)
    then show ?thesis using ahead_append [OF p, of y "take 1 (os_waits x a)"]
      by (auto simp: wake_def add_sem_def split: list.splits)
  next
    case (suspend c a)
    then show ?thesis using d [of "suspend c a x" "[]"] by (auto simp: suspend_def)
  next
    case (wake a)
    then show ?thesis using d [of "wake a x" "take 1 (os_waits x a)"] by (auto simp: wake_def split: list.splits)
  next
    case (wake_all a)
    then show ?thesis using d [of "wake_all a x" "os_waits x a"] by (auto simp: wake_all_def)
  next
    case (preempt c)
    then show ?thesis using d [of "preempt c x" "[c]"] by (auto simp: preempt_def)
  next
    case stay
    then show ?thesis using d [of x "[]"] by auto
  qed
qed

section \<open>The value of a semaphore\<close>

text \<open>\<open>sem_at a x v\<close>: the semaphore has the value \<open>v\<close>, and either nobody waits or \<open>v\<close> is minus the number of those who
  do.\<close>

definition sem_at :: "u32 \<Rightarrow> os \<Rightarrow> u32 \<Rightarrow> bool" where
  "sem_at a x v \<longleftrightarrow> os_sems x a = Some v \<and>
     (0 \<le> sint v \<and> os_waits x a = [] \<or> sint v = - int (length (os_waits x a)))"

lemma dispatch_sel [simp]: "os_sems (dispatch x) = os_sems x" "os_waits (dispatch x) = os_waits x"
  by (auto simp: dispatch_def split: list.split)

lemma sint_incr: "sint (v :: u32) < 2147483647 \<Longrightarrow> sint (v + 1) = sint v + 1"
  using sint_ge [of v] by (intro sint_succ) simp_all

lemma sem_at_step:
  assumes s: "os_step e x y" "e \<noteq> Kill" and a: "sem_at a x v" and len: "length (os_waits x a) < 2147483647"
    and up: "e = Up a \<Longrightarrow> sint v < 2147483647"
  shows "\<exists>w. sem_at a y w \<and> sint w = sint v + (if e = Up a then 1 else 0) - (if e = Down a then 1 else 0)"
proof -
  have v: "os_sems x a = Some v" using a by (simp add: sem_at_def)
  have low: "- 2147483648 < sint v" using a len by (auto simp: sem_at_def)
  from s(1) show ?thesis
  proof cases
    case (pass c b u)
    show ?thesis
    proof (cases "b = a")
      case True
      then show ?thesis using pass a v sint_pred [OF low] by (auto simp: sem_at_def add_sem_def)
    qed (use pass a in \<open>auto simp: sem_at_def add_sem_def\<close>)
  next
    case (down c b u)
    show ?thesis
    proof (cases "b = a")
      case True
      then have "sint v = - int (length (os_waits x a))" using down a v by (auto simp: sem_at_def)
      then show ?thesis using True down v sint_pred [OF low] by (auto simp: sem_at_def add_sem_def suspend_def)
    qed (use down a in \<open>auto simp: sem_at_def add_sem_def suspend_def\<close>)
  next
    case (up c b)
    show ?thesis
    proof (cases "b = a")
      case True
      then show ?thesis using up a v sint_incr assms(5)
        by (cases "os_waits x a") (auto simp: sem_at_def add_sem_def wake_def)
    qed (use up a in \<open>auto simp: sem_at_def add_sem_def wake_def split: list.split\<close>)
  qed (use a v s(2) in \<open>auto simp: sem_at_def spawn_def suspend_def wake_def wake_all_def preempt_def split: list.splits\<close>)
qed

end
