(* ===== verification/Invariant.thy ===== *)
theory Invariant
  imports Devices OsSpec
begin

text \<open>
  The invariant that every exception finds and leaves, and the proof that the nucleus implements the abstract
  kernel of \<open>OsSpec\<close>, handler by handler: \<open>event_of s\<close> is the abstract step that the exception in state \<open>s\<close>
  stands for. \<open>request_ok s\<close> lists what the kernel assumes about the exception it is handed.
\<close>

section \<open>The invariant between exceptions\<close>

definition kinv :: "'a kstate_scheme \<Rightarrow> nat list \<Rightarrow> nat list \<Rightarrow> nat list \<Rightarrow> (u32 \<Rightarrow> nat list) \<Rightarrow> (nat \<Rightarrow> nat list) \<Rightarrow> bool" where
  "kinv s cur rd fr Q K \<longleftrightarrow> kst s cur rd fr Q K \<and> counts s fr Q \<and> sems_ok s Q \<and> Q INTERVALTMR = [] \<and> layout s"

definition kernel_inv :: "'a kstate_scheme \<Rightarrow> bool" where
  "kernel_inv s \<longleftrightarrow> (\<exists>rd fr Q K. kinv s (cur_list (currentP s)) rd fr Q K)"

text \<open>The values of the semaphores are those in memory, but for the semaphores of devices and the interval timer, which
  lie in the same memory.\<close>

definition sems_of :: "'a kstate_scheme \<Rightarrow> u32 \<rightharpoonup> u32" where
  "sems_of s a = (if in_devs s a \<or> a = INTERVALTMR then None else Some (mem s a))"

definition agrees :: "'a kstate_scheme \<Rightarrow> (u32 \<rightharpoonup> u32) \<Rightarrow> bool" where
  "agrees s M \<longleftrightarrow> (\<forall>a. M a = (if in_devs s a \<or> a = INTERVALTMR then None else Some (mem s a)))"

text \<open>The abstract state \<open>x\<close> that the tables stand for; an exit from the kernel into a state that stands for \<open>x\<close>, to a
  process if one runs; and the simulation of one abstract step.\<close>

definition represents :: "'a kstate_scheme \<Rightarrow> os \<Rightarrow> bool" where
  "represents s x \<longleftrightarrow> currentP s = os_cur x \<and> kinv s (cur_list (os_cur x)) (os_ready x) (os_free x) (os_waits x) (os_kids x) \<and>
     agrees s (os_sems x)"

definition ends :: "(exit \<times> 'a kstate_scheme) option \<Rightarrow> os \<Rightarrow> bool" where
  "ends r x \<longleftrightarrow> (\<exists>e s'. r = Some (e, s') \<and> represents s' x \<and> (os_cur x = None \<longleftrightarrow> e \<in> {HALT, PANIC, WAIT}))"

definition simulates :: "(exit \<times> 'a kstate_scheme) option \<Rightarrow> event \<Rightarrow> os \<Rightarrow> bool" where
  "simulates r e x \<longleftrightarrow> (\<exists>y. os_step e x y \<and> ends r y)"

lemma kernel_inv_represents: "kernel_inv s \<longleftrightarrow> (\<exists>x. represents s x)"
proof
  assume "kernel_inv s"
  then obtain rd fr Q K where "kinv s (cur_list (currentP s)) rd fr Q K" by (auto simp: kernel_inv_def)
  then have "represents s (os_of (currentP s) rd fr Q K (sems_of s))" by (simp add: represents_def agrees_def sems_of_def)
  then show "\<exists>x. represents s x" ..
next
  assume "\<exists>x. represents s x"
  then show "kernel_inv s" unfolding represents_def kernel_inv_def by metis
qed

lemma endsI: "r = Some (e, s') \<Longrightarrow> currentP s' = c \<Longrightarrow> kinv s' (cur_list c) rd fr Q K \<Longrightarrow> agrees s' M \<Longrightarrow>
    (c = None \<longleftrightarrow> e \<in> {HALT, PANIC, WAIT}) \<Longrightarrow> ends r (os_of c rd fr Q K M)"
  by (auto simp: ends_def represents_def)

lemma simulatesI: "os_step e x y \<Longrightarrow> ends r y \<Longrightarrow> simulates r e x"
  by (auto simp: simulates_def)

lemma stays: "ends r (os_of (Some c) rd fr Q K M) \<Longrightarrow> simulates r Stay (os_of (Some c) rd fr Q K M)"
  using os_step.stay [of "os_of (Some c) rd fr Q K M"] by (auto simp: simulates_def)

lemma sems_ok_cong: "mem s' = mem s \<Longrightarrow> (\<And>a. in_devs s' a = in_devs s a) \<Longrightarrow> sems_ok s' Q = sems_ok s Q"
  by (simp add: sems_ok_def)

lemma layout_cong:
  "(\<And>i. device_sem i s' = device_sem i s) \<Longrightarrow> device_sem_addr s' = device_sem_addr s \<Longrightarrow>
   semdTable_addr s' = semdTable_addr s \<Longrightarrow> layout s' = layout s"
  by (simp add: layout_def in_devs_def lastSemd_def)

lemma dframe_layout: "dframe s s' \<Longrightarrow> layout s' = layout s"
  by (rule layout_cong) (simp_all add: dframe_def device_sem_def)

lemma kinvD:
  assumes "kinv s cur rd fr Q K"
  shows "kst s cur rd fr Q K" "counts s fr Q" "sems_ok s Q" "Q INTERVALTMR = []" "layout s"
    "NULL \<noteq> lastSemd s"
  using assms layout_addrs(1) [of s] by (auto simp: kinv_def)

lemma kinv_quiet:
  assumes "quiet s s'" "kinv s cur rd fr Q K" "kst s' cur' rd' fr Q K'"
  shows "kinv s' cur' rd' fr Q K'"
  using assms sems_ok_cong [OF quietD(6,14) [OF assms(1)]]
  by (simp add: kinv_def quietD(16) [OF assms(1)] quiet_layout [OF assms(1)])

lemma agrees_cong: "mem s' = mem s \<Longrightarrow> (\<And>a. in_devs s' a = in_devs s a) \<Longrightarrow> agrees s' M = agrees s M"
  by (simp add: agrees_def)

lemma agrees_quiet: "quiet s s' \<Longrightarrow> agrees s' M = agrees s M"
  by (rule agrees_cong) (simp_all add: quietD in_devs_def)

lemma agrees_poke: "agrees s M \<Longrightarrow> agrees (poke a v s) (M(a := map_option (\<lambda>_. v) (M a)))"
  "agrees s M \<Longrightarrow> in_devs s a \<Longrightarrow> agrees (poke a v s) M"
  by (auto simp: agrees_def in_devs_def)

lemma dispatched_ends:
  assumes d: "dispatched s e s' rd fr Q K" and k: "kinv s [] rd fr Q K" and g: "agrees s M" and r: "r = Some (e, s')"
  shows "ends r (dispatch (os_of None rd fr Q K M))"
proof -
  have q: "quiet s s'" using d by (simp add: dispatched_def)
  then have g': "agrees s' M" using g by (simp add: agrees_quiet)
  show ?thesis
  proof (cases rd)
    case Nil
    then have "kinv s' [] [] fr Q K" "currentP s' = None" "e \<in> {HALT, PANIC, WAIT}"
      using d kinv_quiet [OF q k, of "[]" "[]" K] by (auto simp: dispatched_def)
    then show ?thesis using endsI [OF r, of None "[]" fr Q K] g' Nil by simp
  next
    case (Cons x xs)
    then have "kinv s' [x] xs fr Q K" "currentP s' = Some x" "e = LDST (p_s (pcbs s x))"
      using d kinv_quiet [OF q k, of "[x]" xs K] by (auto simp: dispatched_def)
    then show ?thesis using endsI [OF r, of "Some x" xs fr Q K] g' Cons by simp
  qed
qed

lemma scheduler_ends: "kinv s [] rd fr Q K \<Longrightarrow> agrees s M \<Longrightarrow> ends (scheduler s) (dispatch (os_of None rd fr Q K M))"
  using kst_dispatch [OF kinvD(1,2)] dispatched_ends by metis

lemma resume_ends:
  assumes "kinv s (cur_list (currentP s)) rd fr Q K" "agrees s M"
  shows "ends (resume s) (dispatch (os_of (currentP s) rd fr Q K M))"
  using assms scheduler_ends [of s rd fr Q K M] endsI [of "resume s" "LDST (bios s)" s "currentP s" rd fr Q K M]
  by (cases "currentP s") (auto simp: resume_def)

section \<open>Leaving a system call\<close>

lemma charged_inv [simp]: "kinv (charged c s) cur rd fr Q K = kinv s cur rd fr Q K"
  and saved_inv [simp]: "kinv (saved c s) cur rd fr Q K = kinv s cur rd fr Q K"
proof -
  have l: "layout (charged c s) = layout s" "layout (saved c s) = layout s"
     apply (rule layout_cong, simp, simp add: charged_def upd_pcb_def upd_bios_def,
        simp add: charged_def upd_pcb_def upd_bios_def)
    apply (rule layout_cong, simp, simp add: saved_def upd_pcb_def upd_bios_def,
        simp add: saved_def upd_pcb_def upd_bios_def)
    done
  have "sems_ok (charged c s) Q = sems_ok s Q" "sems_ok (saved c s) Q = sems_ok s Q"
    by (rule sems_ok_cong; simp add: in_devs_def)+
  then show "kinv (charged c s) cur rd fr Q K = kinv s cur rd fr Q K"
    and "kinv (saved c s) cur rd fr Q K = kinv s cur rd fr Q K" by (simp_all add: kinv_def l)
qed

lemma agrees_exit [simp]: "agrees (charged c s) M = agrees s M" "agrees (saved c s) M = agrees s M"
  by (rule agrees_cong; simp add: in_devs_def)+

lemma non_blocking_ends:
  "currentP s = Some c \<Longrightarrow> kinv s [c] rd fr Q K \<Longrightarrow> agrees s M \<Longrightarrow>
   ends (helper_non_blocking_syscall_handler s) (os_of (Some c) rd fr Q K M)"
  by (rule endsI [where s' = "charged c s"]) (auto simp: non_blocking_exit)

lemma blocking_ends:
  "currentP s = Some c \<Longrightarrow> kinv s [] rd fr Q K \<Longrightarrow> agrees s M \<Longrightarrow>
   ends (helper_blocking_syscall_handler s) (dispatch (os_of None rd fr Q K M))"
  using scheduler_ends [of "saved c s"] by (simp add: blocking_exit)

section \<open>P and V\<close>

lemma kinv_poke:
  assumes k: "kinv s cur rd fr Q K" and a: "in_devs s a \<or> Q a = []"
  shows "kinv (poke a v s) cur rd fr Q K"
proof -
  have "sems_ok (poke a v s) Q" using kinvD(3) [OF k] a by (auto simp: sems_ok_def in_devs_def)
  then show ?thesis using k by (simp add: kinv_def)
qed

text \<open>The running process blocks; on a device semaphore the caller then counts it.\<close>

lemma P_block_inv:
  assumes k: "kinv s cur rd fr Q K" and c: "currentP s = Some c" "c \<in> set cur"
    and a: "a \<noteq> lastSemd s" "a \<noteq> INTERVALTMR" and neg: "sint (mem s a - 1) < 0"
    and sem: "in_devs s a \<or> Q a \<noteq> [] \<or> mem s a = 0" and room: "Q a \<noteq> [] \<or> semdFree_h s \<noteq> None"
  shows "\<exists>s'. helper_PASSEREN a s = Some s' \<and>
     insertBlocked a (Some c) (poke a (mem s a - 1) s) = Some (FALSE, s') \<and> currentP s' = Some c \<and>
     kinv (if in_devs s a then s'\<lparr>softBlock_count := softBlock_count s' + 1\<rparr> else s')
       (remove1 c cur) rd fr (Q(a := Q a @ [c])) K \<and> quiet (poke a (mem s a - 1) s) s'"
proof -
  note k1 = kinvD(1) [OF k]
  from helper_P_block [OF k1 c a(1) neg room] obtain s' where
    s': "helper_PASSEREN a s = Some s'" "insertBlocked a (Some c) (poke a (mem s a - 1) s) = Some (FALSE, s')"
      "kst s' (remove1 c cur) rd fr (Q(a := Q a @ [c])) K" "quiet (poke a (mem s a - 1) s) s'" "currentP s' = Some c"
    by blast
  let ?Q = "Q(a := Q a @ [c])" and ?s = "if in_devs s a then s'\<lparr>softBlock_count := softBlock_count s' + 1\<rparr> else s'"
  note q = quietD [OF s'(4)]
  have "layout s'" using quiet_layout [OF s'(4)] kinvD(5) [OF k] by simp
  then have l: "layout ?s" using layout_cong [of ?s s'] by (auto simp: device_sem_def)
  have w: "waiting ?s X = waiting s X" for X
    using s'(4) by (intro waiting_cong) (simp add: quiet_def poke_def)
  have "counts ?s fr ?Q"
  proof (cases "in_devs s a")
    case True
    have "waiting (s\<lparr>softBlock_count := softBlock_count s + 1\<rparr>) X = waiting s X" for X
      by (rule waiting_cong) simp
    then show ?thesis using counts_block_device [OF k1 kinvD(2) [OF k] True c(2)] True q(4,5) w
      by (simp add: counts_def)
  next
    case False
    then show ?thesis using counts_block_other [OF kinvD(2) [OF k] False, of "Q a @ [c]"] q(4,5) w
      by (simp add: counts_def)
  qed
  moreover have "sems_ok ?s ?Q"
  proof -
    have "sint (mem s a - 1) = - int (length (Q a @ [c]))" if d: "\<not> in_devs s a"
    proof -
      have "sint (mem s a) = - int (length (Q a))"
        using sem d kinvD(3) [OF k] by (cases "Q a = []") (auto simp: sems_ok_def)
      then show ?thesis using sint_pred [of "mem s a"] kst_len [OF k1, of a] by simp
    qed
    moreover have "in_devs ?s b = in_devs s b" for b using q(12) by (simp add: in_devs_def)
    moreover have "mem ?s = (mem s)(a := mem s a - 1)" using q(6) by simp
    ultimately show ?thesis using kinvD(3) [OF k] by (simp add: sems_ok_def)
  qed
  moreover have "kst ?s (remove1 c cur) rd fr ?Q K" using s'(3) by simp
  moreover have "?Q INTERVALTMR = []" using kinvD(4) [OF k] a(2) by simp
  ultimately show ?thesis using s' l by (auto simp: kinv_def)
qed

lemma V_wakes:
  assumes k: "kinv s cur rd fr Q K" and g: "agrees s M" and a: "a = s_reg (bios s) R_a1" "a \<noteq> lastSemd s" "\<not> in_devs s a"
  shows "\<exists>r s' rd' Q' M'. VERHOGEN s = Some (r, s') \<and> kinv s' cur rd' fr Q' K \<and> currentP s' = currentP s \<and> agrees s' M' \<and>
     (\<forall>c. os_of c rd' fr Q' K M' = wake a (add_sem a 1 (os_of c rd fr Q K M)))"
proof (cases "0 < sint (mem s a + 1) \<or> Q a = []")
  case True
  let ?M = "M(a := map_option (\<lambda>u. u + 1) (M a))"
  have "Q a = []"
  proof (rule ccontr)
    assume n: "Q a \<noteq> []"
    then have "sint (mem s a) = - int (length (Q a))" using kinvD(3) [OF k] a(3) by (simp add: sems_ok_def)
    moreover have "0 < length (Q a)" using n by simp
    ultimately show False using True n sint_succ [of "mem s a"] kst_len [OF kinvD(1) [OF k], of a] by simp
  qed
  then have "\<forall>c. os_of c rd fr Q K ?M = wake a (add_sem a 1 (os_of c rd fr Q K M))" by (simp add: wake_def add_sem_def)
  moreover have "VERHOGEN s = Some (None, poke a (mem s a + 1) s)" by (rule V_idle [OF kinvD(1) [OF k] a(1,2) True])
  moreover have "kinv (poke a (mem s a + 1) s) cur rd fr Q K" using kinv_poke [OF k, of a] \<open>Q a = []\<close> by simp
  moreover have "agrees (poke a (mem s a + 1) s) ?M" using g a(3) by (auto simp: agrees_def in_devs_def)
  ultimately show ?thesis by fastforce
next
  case False
  then obtain p ps where q: "sint (mem s a + 1) \<le> 0" "Q a = p # ps" by (cases "Q a") auto
  from V_wake [OF kinvD(1) [OF k] a(1) kinvD(6) [OF k] q] obtain s' where
    s': "VERHOGEN s = Some (Some p, s')" "kst s' cur (rd @ [p]) fr (Q(a := ps)) K"
      "quiet (poke a (mem s a + 1) s) s'" "currentP s' = currentP s" by blast
  note u = quietD [OF s'(3)]
  have "sint (mem s a) = - int (length (Q a))" using kinvD(3) [OF k] a(3) q(2) by (simp add: sems_ok_def)
  then have m: "sint (mem s a + 1) = - int (length ps)"
    using sint_succ [of "mem s a"] kst_len [OF kinvD(1) [OF k], of a] q(2) by simp
  have d: "in_devs s' b = in_devs s b" for b using u(12) by (simp add: in_devs_def)
  have "sems_ok s' (Q(a := ps))"
    using kinvD(3) [OF k] m u(6) by (simp add: sems_ok_def d)
  moreover have "counts s' fr (Q(a := ps))"
    using counts_block_other [OF kinvD(2) [OF k] a(3), of ps] u(16) by simp
  moreover have "layout s'" using quiet_layout [OF s'(3)] kinvD(5) [OF k] by simp
  moreover have "(Q(a := ps)) INTERVALTMR = []" using kinvD(4) [OF k] q(2) by auto
  moreover have "\<forall>c. os_of c (rd @ [p]) fr (Q(a := ps)) K (M(a := map_option (\<lambda>u. u + 1) (M a))) = wake a (add_sem a 1 (os_of c rd fr Q K M))"
    using q(2) by (simp add: wake_def add_sem_def)
  moreover have "agrees s' (M(a := map_option (\<lambda>u. u + 1) (M a)))" using g a(3) u(6) by (auto simp: agrees_def d)
  ultimately show ?thesis using s' unfolding kinv_def by blast
qed

section \<open>Interrupts\<close>

lemma counts_fields [simp]:
  "counts (upd_bios f s) fr Q = counts s fr Q" "counts (upd_dev a g s) fr Q = counts s fr Q"
  "counts (upd_support a h s) fr Q = counts s fr Q"
  by (simp_all add: counts_def waiting_def in_devs_def) (simp_all add: upd_dev_def upd_support_def)

lemma layout_fields [simp]:
  "layout (upd_bios f s) = layout s" "layout (upd_dev a g s) = layout s" "layout (upd_support a h s) = layout s"
  by (rule layout_cong; simp add: upd_bios_def upd_dev_def upd_support_def device_sem_def)+

lemma kinv_fields [simp]:
  "kinv (upd_bios f s) cur rd fr Q K = kinv s cur rd fr Q K"
  "kinv (upd_dev a g s) cur rd fr Q K = kinv s cur rd fr Q K"
  "kinv (upd_support a h s) cur rd fr Q K = kinv s cur rd fr Q K"
proof -
  have "sems_ok (upd_bios f s) Q = sems_ok s Q" "sems_ok (upd_dev a g s) Q = sems_ok s Q"
      "sems_ok (upd_support a h s) Q = sems_ok s Q"
    by (rule sems_ok_cong; simp add: in_devs_def device_sem_def upd_dev_def upd_support_def upd_bios_def)+
  then show "kinv (upd_bios f s) cur rd fr Q K = kinv s cur rd fr Q K"
    "kinv (upd_dev a g s) cur rd fr Q K = kinv s cur rd fr Q K"
    "kinv (upd_support a h s) cur rd fr Q K = kinv s cur rd fr Q K" by (simp_all add: kinv_def)
qed

text \<open>The completion of an operation wakes a process if the semaphore says that one waits.\<close>

definition done_event :: "u32 \<Rightarrow> 'a kstate_scheme \<Rightarrow> event" where
  "done_event a s = (if 0 < sint (mem s a + 1) then Stay else Wake a)"

lemma complete_io_sim:
  assumes k: "kinv s (cur_list (currentP s)) rd fr Q K" and g: "agrees s M" and a: "a = s_reg (bios s) R_a1" "in_devs s a"
  shows "simulates (complete_io st s) (done_event a s) (os_of (currentP s) rd fr Q K M)"
proof -
  have Ma: "os_sems (os_of (currentP s) rd fr Q K M) a = None" using g a(2) by (simp add: agrees_def)
  show ?thesis
  proof (cases "0 < sint (mem s a + 1) \<or> Q a = []")
    case True
    have "a \<noteq> lastSemd s" using kinvD(5) [OF k] a(2) by (auto simp: layout_def)
    then have "complete_io st s = resume (poke a (mem s a + 1) s)" by (rule complete_io_idle [OF kinvD(1) [OF k] a(1) _ True])
    moreover have "kinv (poke a (mem s a + 1) s) (cur_list (currentP s)) rd fr Q K" using kinv_poke [OF k, of a] a(2) by simp
    moreover have "agrees (poke a (mem s a + 1) s) M" by (rule agrees_poke(2) [OF g a(2)])
    ultimately have "ends (complete_io st s) (dispatch (os_of (currentP s) rd fr Q K M))"
      using resume_ends [of "poke a (mem s a + 1) s" rd fr Q K M] by simp
    then show ?thesis using True os_step.stay os_step.wake [OF Ma]
      by (auto simp: simulates_def done_event_def wake_def)
  next
    case False
    then obtain p ps where q: "sint (mem s a + 1) \<le> 0" "Q a = p # ps" by (cases "Q a") auto
    from complete_io_wake [OF kinvD(1,2) [OF k] a kinvD(6) [OF k] q, of st] obtain s1 where
      s1: "complete_io st s = resume s1" "kst s1 (cur_list (currentP s)) (rd @ [p]) fr (Q(a := ps)) K"
        "counts s1 fr (Q(a := ps))" "currentP s1 = currentP s" "mem s1 = (mem s)(a := mem s a + 1)"
        "device_sem_addr s1 = device_sem_addr s" "semdTable_addr s1 = semdTable_addr s" by blast
    have d: "device_sem i s1 = device_sem i s" for i using s1(6) by (simp add: device_sem_def)
    then have i: "in_devs s1 b = in_devs s b" for b by (simp add: in_devs_def)
    have "sems_ok s1 (Q(a := ps))" using kinvD(3) [OF k] a(2) s1(5) by (auto simp: sems_ok_def i)
    moreover have g1: "agrees s1 M" using g a(2) s1(5) by (auto simp: agrees_def i)
    moreover have "layout s1" using layout_cong [OF d s1(6,7)] kinvD(5) [OF k] by simp
    moreover have "(Q(a := ps)) INTERVALTMR = []" using kinvD(4) [OF k] q(2) by auto
    ultimately have "kinv s1 (cur_list (currentP s1)) (rd @ [p]) fr (Q(a := ps)) K"
      using s1(2,3,4) by (simp add: kinv_def)
    from resume_ends [OF this g1] show ?thesis using q s1(1,4) os_step.wake [OF Ma]
      by (auto simp: simulates_def done_event_def wake_def)
  qed
qed

lemma device_index:
  assumes "3 \<le> l" "l < 8" "d < 8"
  shows "devSemIdx (of_nat l) (of_nat d) FALSE \<le> 48" "l = 7 \<Longrightarrow> devSemIdx 7 (of_nat d) TRUE \<le> 48"
proof -
  have "\<forall>l\<in>set [3..<8]. \<forall>d\<in>set [0..<8]. devSemIdx (of_nat l) (of_nat d) FALSE \<le> 48 \<and> devSemIdx 7 (of_nat d) TRUE \<le> 48"
    by code_simp
  moreover have "l \<in> set [3..<8]" "d \<in> set [0..<8]" unfolding set_upt using assms by auto
  ultimately show "devSemIdx (of_nat l) (of_nat d) FALSE \<le> 48" "l = 7 \<Longrightarrow> devSemIdx 7 (of_nat d) TRUE \<le> 48"
    by blast+
qed

definition device_event :: "nat \<Rightarrow> nat \<Rightarrow> 'a kstate_scheme \<Rightarrow> event" where
  "device_event l d s = done_event (device_sem (devSemIdx (of_nat l) (of_nat d)
     (if l = 7 \<and> d_status (devregs s (devAddrBase 7 (of_nat d))) AND 0xFF = 5 then TRUE else FALSE)) s) s"

lemma serve_device_sim:
  assumes k: "kinv s (cur_list (currentP s)) rd fr Q K" and g: "agrees s M" and l: "3 \<le> l" "l < 8" "d < 8"
  shows "simulates (serve_device l d s) (device_event l d s) (os_of (currentP s) rd fr Q K M)"
proof -
  have io: "simulates (complete_io st (upd_bios (set_reg R_a1 (device_sem i s)) (upd_dev b g s))) (done_event (device_sem i s) s)
      (os_of (currentP s) rd fr Q K M)" if "i \<le> 48" for i b g st
  proof -
    let ?s = "upd_bios (set_reg R_a1 (device_sem i s)) (upd_dev b g s)"
    have c: "currentP ?s = currentP s" by simp (simp add: upd_dev_def)
    have "kinv ?s (cur_list (currentP ?s)) rd fr Q K" using k unfolding c by simp
    moreover have "agrees ?s M" using g by (simp add: agrees_def in_devs_def) (simp add: upd_dev_def)
    moreover have "in_devs ?s (device_sem i s)"
      using layout_addrs(5) [OF kinvD(5) [OF k] that] by (simp add: in_devs_def)
    moreover have "done_event (device_sem i s) ?s = done_event (device_sem i s) s"
      by (simp add: done_event_def) (simp add: upd_dev_def)
    ultimately show ?thesis using complete_io_sim [of ?s rd fr Q K M "device_sem i s" st] c by simp
  qed
  show ?thesis
    using device_index [OF l] io [of "devSemIdx (of_nat l) (of_nat d) FALSE"] io [of "devSemIdx 7 (of_nat d) TRUE"]
    by (auto simp: serve_device_def device_event_def non_terminal_eval terminal_eval TRUE_def FALSE_def)
qed

lemma tick_sim:
  assumes k: "kinv s (cur_list (currentP s)) rd fr Q K" and g: "agrees s M"
  shows "simulates (pseudo_clock_interrupts s) (WakeAll (device_sem 48 s)) (os_of (currentP s) rd fr Q K M)"
proof -
  let ?a = "device_sem 48 s"
  have Ma: "os_sems (os_of (currentP s) rd fr Q K M) ?a = None"
    using g layout_addrs(5) [OF kinvD(5) [OF k], of 48] by (simp add: agrees_def)
  from tick_spec [OF kinvD(1,2,5) [OF k]] obtain s1 where
    s1: "pseudo_clock_interrupts s = resume s1" "kst s1 (cur_list (currentP s)) (rd @ Q ?a) fr (Q(?a := [])) K"
      "counts s1 fr (Q(?a := []))" "dframe s s1"
      "mem s1 = (mem s)(INTERVALTMR := 100000 * mem s TIMESCALEADDR, ?a := 0)" by blast
  have "sems_ok s1 (Q(?a := []))"
    using kinvD(3,4) [OF k] dframe_addrs [OF s1(4)] s1(5) by (auto simp: sems_ok_def)
  moreover have c: "currentP s1 = currentP s" using s1(4) by (simp add: dframe_def)
  ultimately have "kinv s1 (cur_list (currentP s1)) (rd @ Q ?a) fr (Q(?a := [])) K"
    using s1 kinvD(4,5) [OF k] dframe_layout [OF s1(4)] by (simp add: kinv_def)
  moreover have "agrees s1 M"
    using g s1(5) dframe_addrs [OF s1(4)] layout_addrs(5) [OF kinvD(5) [OF k], of 48] by (auto simp: agrees_def)
  ultimately show ?thesis using resume_ends [of s1] s1(1) c os_step.wake_all [OF Ma]
    by (auto simp: simulates_def wake_all_def)
qed

lemma slice_end_sim:
  assumes k: "kinv s [c] rd fr Q K" and g: "agrees s M" and c: "currentP s = Some c"
  shows "simulates (process_local_timer_interrupts s) Preempt (os_of (Some c) rd fr Q K M)"
proof -
  from slice_end_spec [OF kinvD(1,2) [OF k] c] obtain s1 e s' where
    s1: "process_local_timer_interrupts s = Some (e, s')" "quiet (preempted c s) s1"
      "kst s1 [] (rd @ [c]) fr Q K" "dispatched s1 e s' (rd @ [c]) fr Q K" by blast
  have "layout (preempted c s)" using layout_cong [of "preempted c s" s] kinvD(5) [OF k]
    by (simp add: preempted_def upd_pcb_def device_sem_def)
  moreover have "sems_ok (preempted c s) Q"
    using sems_ok_cong [of "preempted c s" s Q] kinvD(3) [OF k]
    by (simp add: preempted_def in_devs_def upd_pcb_def device_sem_def)
  ultimately have "kinv (preempted c s) [c] rd fr Q K" using k by (simp add: kinv_def)
  then have "kinv s1 [] (rd @ [c]) fr Q K" by (rule kinv_quiet [OF s1(2) _ s1(3)])
  moreover have "agrees (preempted c s) M"
    using agrees_cong [of "preempted c s" s M] g by (simp add: preempted_def in_devs_def upd_pcb_def device_sem_def)
  then have "agrees s1 M" using agrees_quiet [OF s1(2)] by simp
  note dispatched_ends [OF s1(4) calculation this s1(1)]
  then show ?thesis using os_step.preempt [of "os_of (Some c) rd fr Q K M" c]
    by (auto simp: simulates_def preempt_def)
qed

definition interrupt_event :: "'a kstate_scheme \<Rightarrow> event" where
  "interrupt_event s =
     (case find (line_pending s) [1..<8] of None \<Rightarrow> Stay
      | Some l \<Rightarrow> if l = 1 then Preempt else if l = 2 then WakeAll (device_sem 48 s)
          else (case find (device_pending l s) [0..<8] of None \<Rightarrow> Stay | Some d \<Rightarrow> device_event l d s))"

lemma interrupt_sim:
  assumes k: "kinv s (cur_list (currentP s)) rd fr Q K" and g: "agrees s M"
    and plt: "find (line_pending s) [1..<8] = Some 1 \<Longrightarrow> currentP s \<noteq> None"
  shows "simulates (interrupt_exception_handler s) (interrupt_event s) (os_of (currentP s) rd fr Q K M)"
proof (cases "find (line_pending s) [1..<8]")
  case None
  then show ?thesis using simulatesI [OF os_step.stay resume_ends [OF k g]] by (simp add: handler_find interrupt_event_def)
next
  case (Some l)
  then have l: "line_pending s l" "1 \<le> l" "l < 8" by (auto simp: find_Some_iff dest: nth_mem)
  consider "l = 1" | "l = 2" | "3 \<le> l" using l(2) by linarith
  then show ?thesis
  proof cases
    case 1
    then obtain c where "currentP s = Some c" using plt Some by auto
    then show ?thesis using slice_end_sim [of s c] k g Some 1 by (simp add: handler_find serve_line_def interrupt_event_def)
  next
    case 2
    then show ?thesis using tick_sim [OF k g] Some by (simp add: handler_find serve_line_def interrupt_event_def)
  next
    case 3
    then obtain d where d: "find (device_pending l s) [0..<8] = Some d" using l(1) by (auto simp: line_pending_def)
    then have "d < 8" by (auto simp: find_Some_iff dest: nth_mem)
    then show ?thesis using serve_device_sim [OF k g 3 l(3), of d] Some d 3
      by (simp add: handler_find serve_line_def interrupt_event_def)
  qed
qed

section \<open>System calls and traps\<close>

lemma removed_inv:
  assumes k: "kinv s cur rd fr Q K" and r: "removed D s cur rd fr Q K s' fr'"
  shows "kinv s' (without D cur) (without D rd) fr' (\<lambda>a. without D (Q a)) (\<lambda>r. without D (K r))"
  using removed_ok [OF r kinvD(3) [OF k]] r k dframe_layout [of s s'] by (simp add: kinv_def removed_def)

lemma terminate_sim:
  assumes k: "kinv s [c] rd fr Q K" and g: "agrees s M" and c: "currentP s = Some c"
  shows "simulates (TERMINATEPROCESS s) Kill (os_of (Some c) rd fr Q K M)"
proof -
  have "c \<in> live fr" using placesD(11) [OF kstD(4) [OF kinvD(1) [OF k]]] by simp
  from terminate_spec [OF kinvD(1,2) [OF k] this kinvD(3) [OF k]] obtain s' fr' where
    s': "helper_terminate_process (Some c) s = Some s'" "removed (insert c (desc K c)) s [c] rd fr Q K s' fr'"
    by blast
  let ?D = "insert c (desc K c)"
  have "without ?D [c] = []" by (simp add: without_def)
  moreover have g': "agrees s' (\<lambda>a. map_option (\<lambda>v. v + of_nat (length (Q a) - length (without ?D (Q a)))) (M a))"
  proof -
    have df: "dframe s s'" "sem_gain s Q s' (\<lambda>a. without ?D (Q a))" using s'(2) by (simp_all add: removed_def)
    then have d: "in_devs s' a = in_devs s a" for a using dframe_addrs by blast
    have "mem s a + of_nat (length (Q a) - length (without ?D (Q a))) = mem s' a" if a: "\<not> in_devs s' a" for a
    proof -
      let ?n = "length (Q a) - length (without ?D (Q a))"
      have "length (without ?D (Q a)) \<le> length (Q a)" by (simp add: without_def)
      then have "sint (mem s' a) = sint (mem s a) + int ?n" using df(2) a d by (simp add: sem_gain_def)
      then have "of_int (sint (mem s' a)) = (of_int (sint (mem s a) + int ?n) :: u32)" by simp
      then show ?thesis by (simp add: scast_id)
    qed
    then show ?thesis using g d by (simp add: agrees_def)
  qed
  ultimately have "ends (scheduler s') (dispatch (remove ?D fr' (os_of (Some c) rd fr Q K M)))"
    using scheduler_ends [OF _ g'] removed_inv [OF k s'(2)] by (simp add: remove_def)
  moreover have "os_step Kill (os_of (Some c) rd fr Q K M) (dispatch (remove ?D fr' (os_of (Some c) rd fr Q K M)))"
    by (rule os_step.kill) (use s'(2) in \<open>simp_all add: removed_def\<close>)
  ultimately show ?thesis using s'(1) c by (auto simp: TERMINATEPROCESS_def simulates_def)
qed

definition trap_event :: "'a kstate_scheme \<Rightarrow> event" where
  "trap_event s = (case currentP s of None \<Rightarrow> Stay
     | Some c \<Rightarrow> if p_supportStruct (pcbs s c) = NULL then Kill else Stay)"

lemma pass_up_sim:
  assumes k: "kinv s [c] rd fr Q K" and g: "agrees s M" and c: "currentP s = Some c"
  shows "simulates (pass_up_or_die n s) (trap_event s) (os_of (Some c) rd fr Q K M)"
proof (cases "p_supportStruct (pcbs s c) = NULL")
  case True
  then have "pass_up_or_die n s = TERMINATEPROCESS s"
    using c by (simp add: pass_up_or_die_def TERMINATEPROCESS_def)
  then show ?thesis using terminate_sim [OF k g c] True c by (simp add: trap_event_def)
next
  case False
  let ?sup = "p_supportStruct (pcbs s c)"
  obtain sp st pc s' where p: "pass_up_or_die n s = Some (LDCXT sp st pc, s')" "\<exists>h. s' = upd_support ?sup h s"
    using False c by (auto simp: pass_up_or_die_def Let_def)
  then obtain h where h: "s' = upd_support ?sup h s" by blast
  have "currentP s' = Some c" unfolding h using c by (simp add: upd_support_def)
  moreover have "kinv s' (cur_list (Some c)) rd fr Q K" unfolding h using k by simp
  moreover have "agrees s' M" unfolding h using g by (simp add: agrees_def upd_support_def in_devs_def device_sem_def)
  ultimately show ?thesis using endsI [OF p(1)] stays [of "pass_up_or_die n s" c rd fr Q K M] False c by (simp add: trap_event_def)
qed

text \<open>What a caller of P, V and the two waits must respect.\<close>

definition p_ok :: "u32 \<Rightarrow> 'a kstate_scheme \<Rightarrow> bool" where
  "p_ok a s \<longleftrightarrow> a \<noteq> lastSemd s \<and> a \<noteq> INTERVALTMR \<and> \<not> in_devs s a \<and>
     (0 < sint (mem s a) \<or> semdFree_h s \<noteq> None \<and> (mem s a = 0 \<or> headBlocked a s \<noteq> Some None))"

definition v_ok :: "u32 \<Rightarrow> 'a kstate_scheme \<Rightarrow> bool" where
  "v_ok a s \<longleftrightarrow> a \<noteq> lastSemd s \<and> \<not> in_devs s a"

definition wait_ok :: "u32 \<Rightarrow> 'a kstate_scheme \<Rightarrow> bool" where
  "wait_ok i s \<longleftrightarrow> i \<le> 48 \<and> semdFree_h s \<noteq> None \<and> sint (mem s (device_sem i s) - 1) < 0"

lemma passeren_sim:
  assumes k: "kinv s [c] rd fr Q K" and g: "agrees s M" and c: "currentP s = Some c" and a: "a = s_reg (bios s) R_a1" and ok: "p_ok a s"
  shows "simulates (PASSEREN s) (Down a) (os_of (Some c) rd fr Q K M)"
proof -
  let ?s = "poke a (mem s a - 1) s" and ?M = "M(a := map_option (\<lambda>u. u + (- 1)) (M a))"
  have Ma: "M a = Some (mem s a)" using g ok by (simp add: agrees_def p_ok_def)
  then have g1: "agrees ?s ?M" using agrees_poke(1) [OF g, of a "mem s a - 1"] by simp
  obtain h ds t fl where A: "asl s h ds t fl Q" using kstD(3) [OF kinvD(1) [OF k]] by blast
  have sem: "0 < sint (mem s a) \<or> semdFree_h s \<noteq> None \<and> (Q a \<noteq> [] \<or> mem s a = 0)"
    using ok headBlocked_spec [OF A, of a] by (auto simp: p_ok_def)
  show ?thesis
  proof (cases "0 < sint (mem s a)")
    case True
    then have v: "sint (mem s a - 1) = sint (mem s a) - 1" by (simp add: sint_pred)
    have "Q a = []" using True kinvD(3) [OF k] ok by (auto simp: sems_ok_def p_ok_def)
    then have "kinv ?s [c] rd fr Q K" using kinv_poke [OF k] by simp
    then have "ends (helper_non_blocking_syscall_handler ?s) (os_of (Some c) rd fr Q K ?M)" using non_blocking_ends [of ?s c] c g1 by simp
    moreover have "PASSEREN s = helper_non_blocking_syscall_handler ?s" using True v a by (simp add: PASSEREN_def Let_def)
    ultimately show ?thesis using os_step.pass [of "os_of (Some c) rd fr Q K M" c a "mem s a"] True Ma by (simp add: simulates_def add_sem_def) blast
  next
    case False
    have m: "sint (mem s a - 1) < 0"
    proof (cases "mem s a = 0")
      case False
      have "sint (mem s a) = - int (length (Q a))"
        using sem \<open>\<not> 0 < sint (mem s a)\<close> False kinvD(3) [OF k] ok by (auto simp: sems_ok_def p_ok_def)
      then show ?thesis using sint_pred [of "mem s a"] kst_len [OF kinvD(1) [OF k], of a] by simp
    qed simp
    from P_block_inv [OF k c _ _ _ m, of] sem False ok obtain s' where
      s': "insertBlocked a (Some c) ?s = Some (FALSE, s')" "currentP s' = Some c"
        "kinv s' [] rd fr (Q(a := Q a @ [c])) K" "quiet ?s s'" by (auto simp: p_ok_def)
    have "PASSEREN s = helper_blocking_syscall_handler s'" using m c s'(1) a by (simp add: PASSEREN_def Let_def)
    moreover have "agrees s' ?M" using g1 agrees_quiet [OF s'(4)] by simp
    ultimately show ?thesis using blocking_ends [OF s'(2,3)] os_step.down [of "os_of (Some c) rd fr Q K M" c a "mem s a"] False Ma
      by (auto simp: simulates_def suspend_def add_sem_def)
  qed
qed

lemma wait_sim:
  assumes k: "kinv s [c] rd fr Q K" and g: "agrees s M" and c: "currentP s = Some c" and ok: "wait_ok i s"
  shows "\<exists>s'. helper_PASSEREN (device_sem i s) s = Some s' \<and>
     simulates (helper_blocking_syscall_handler (s'\<lparr>softBlock_count := softBlock_count s' + 1\<rparr>)) (Suspend (device_sem i s))
       (os_of (Some c) rd fr Q K M)"
proof -
  let ?a = "device_sem i s"
  have i: "i \<le> 48" "sint (mem s ?a - 1) < 0" "semdFree_h s \<noteq> None" using ok by (simp_all add: wait_ok_def)
  note l = kinvD(5) [OF k]
  have d: "in_devs s ?a" "?a \<noteq> lastSemd s" "?a \<noteq> INTERVALTMR"
    using layout_addrs(4,5) [OF l i(1)] layout_addrs(6) [OF l _ i(1), of INTERVALTMR] by (simp_all add: const_defs)
  from P_block_inv [OF k c _ d(2,3) i(2)] d(1) i(3) obtain s' where
    s': "helper_PASSEREN ?a s = Some s'" "currentP s' = Some c"
      "kinv (s'\<lparr>softBlock_count := softBlock_count s' + 1\<rparr>) [] rd fr (Q(?a := Q ?a @ [c])) K"
      "quiet (poke ?a (mem s ?a - 1) s) s'" by auto
  have "agrees s' M" using agrees_quiet [OF s'(4)] agrees_poke(2) [OF g d(1)] by simp
  then have "agrees (s'\<lparr>softBlock_count := softBlock_count s' + 1\<rparr>) M" by (simp add: agrees_def in_devs_def device_sem_def)
  moreover have "os_sems (os_of (Some c) rd fr Q K M) ?a = None" using g d(1) by (simp add: agrees_def)
  ultimately show ?thesis using s' blocking_ends [OF _ s'(3), of c M] os_step.suspend [of "os_of (Some c) rd fr Q K M" c ?a]
    by (auto simp: simulates_def suspend_def)
qed

lemma create_spawns:
  assumes k: "kinv s [c] rd fr Q K" and g: "agrees s M" and c: "currentP s = Some c"
  shows "\<exists>s' rd' fr' K'. CREATEPROCESS s = Some s' \<and> currentP s' = Some c \<and> kinv s' [c] rd' fr' Q K' \<and> agrees s' M \<and>
     os_of (Some c) rd' fr' Q K' M = spawn c (os_of (Some c) rd fr Q K M)"
proof (cases fr)
  case Nil
  have "kinv (upd_bios (set_reg R_v0 (- 1)) s) [c] rd fr Q K" using k by simp
  moreover have "CREATEPROCESS s = Some (upd_bios (set_reg R_v0 (- 1)) s)"
    by (rule CREATEPROCESS_full [OF kinvD(1) [OF k, unfolded Nil]])
  moreover have "os_of (Some c) rd fr Q K M = spawn c (os_of (Some c) rd fr Q K M)" using Nil by (simp add: spawn_def)
  moreover have "agrees (upd_bios (set_reg R_v0 (- 1)) s) M" using g by (simp add: agrees_def in_devs_def)
  ultimately show ?thesis using c by (metis bios_kernel(4))
next
  case (Cons n fr')
  from CREATEPROCESS_spec [OF kinvD(1,2) [OF k, unfolded Cons] c kinvD(6) [OF k]] obtain s' where
    s': "CREATEPROCESS s = Some s'" "kst s' [c] (rd @ [n]) fr' Q (K(c := K c @ [n]))" "counts s' fr' Q"
      "currentP s' = Some c" "mem s' = mem s" "lastSemd s' = lastSemd s" "\<And>i. device_sem i s' = device_sem i s"
    by blast
  have "sems_ok s' Q" using sems_ok_cong [of s' s Q] s'(5,7) kinvD(3) [OF k] by (simp add: in_devs_def)
  moreover have "layout s'" using layout_cong [of s' s] s'(6,7) s'(7) [of 0] kinvD(5) [OF k]
    by (simp add: device_sem_def lastSemd_def)
  ultimately have "kinv s' [c] (rd @ [n]) fr' Q (K(c := K c @ [n]))"
    using s'(2,3) kinvD(4) [OF k] by (simp add: kinv_def)
  moreover have "agrees s' M" using g s'(5,7) by (simp add: agrees_def in_devs_def)
  moreover have "os_of (Some c) (rd @ [n]) fr' Q (K(c := K c @ [n])) M = spawn c (os_of (Some c) rd fr Q K M)"
    using Cons by (simp add: spawn_def)
  ultimately show ?thesis using s'(1,4) by blast
qed

lemma cputime_keeps:
  assumes k: "kinv s [c] rd fr Q K" and g: "agrees s M" and c: "currentP s = Some c"
  shows "\<exists>s'. GETCPUTIME s = Some s' \<and> currentP s' = Some c \<and> kinv s' [c] rd fr Q K \<and> agrees s' M"
proof -
  let ?s = "s\<lparr>plt_reads := Suc (plt_reads s)\<rparr>"
  have "sems_ok ?s Q = sems_ok s Q" by (rule sems_ok_cong) (simp_all add: in_devs_def)
  moreover have "layout ?s = layout s" by (rule layout_cong) simp_all
  moreover have "counts ?s fr Q = counts s fr Q"
    using waiting_cong [of ?s s] by (simp add: counts_def)
  ultimately have "kinv ?s [c] rd fr Q K" using k by (simp add: kinv_def)
  moreover have "agrees ?s M" using g by (simp add: agrees_def in_devs_def device_sem_def)
  ultimately show ?thesis using c by (simp add: GETCPUTIME_def getTIMER_def agrees_def in_devs_def)
qed

section \<open>Every exception\<close>

definition call_ok :: "'a kstate_scheme \<Rightarrow> bool" where
  "call_ok s \<longleftrightarrow>
     (let a0 = s_reg (bios s) R_a0; a1 = s_reg (bios s) R_a1
      in (a0 = 3 \<longrightarrow> p_ok a1 s) \<and> (a0 = 4 \<longrightarrow> v_ok a1 s) \<and>
         (a0 = 5 \<longrightarrow> wait_ok (devSemIdx a1 (s_reg (bios s) R_a2) (s_reg (bios s) R_a3)) s) \<and>
         (a0 = 7 \<longrightarrow> wait_ok 48 s))"

definition request_ok :: "'a kstate_scheme \<Rightarrow> bool" where
  "request_ok s \<longleftrightarrow>
     (let exc = CauseExcCode (s_cause (bios s))
      in if exc = 0 then find (line_pending s) [1..<8] = Some 1 \<longrightarrow> currentP s \<noteq> None
         else exc \<le> 12 \<and> currentP s \<noteq> None \<and> (exc = 8 \<and> check_KU_mode_bit s = 0 \<longrightarrow> call_ok s))"

text \<open>The abstract step of a system call from kernel mode.\<close>

definition call_event :: "'a kstate_scheme \<Rightarrow> event" where
  "call_event s =
     (let a0 = s_reg (bios s) R_a0; a1 = s_reg (bios s) R_a1
      in if a0 = 1 then Spawn
         else if a0 = 2 then Kill
         else if a0 = 3 then Down a1
         else if a0 = 4 then Up a1
         else if a0 = 5 then Suspend (device_sem (devSemIdx a1 (s_reg (bios s) R_a2) (s_reg (bios s) R_a3)) s)
         else if a0 = 7 then Suspend (device_sem 48 s)
         else if a0 = 6 \<or> a0 = 8 then Stay
         else trap_event s)"

lemma bind_non_blocking:
  assumes "r = Some s'" "currentP s' = Some c" "kinv s' [c] rd' fr' Q' K'" "agrees s' M'"
    "os_step e x (os_of (Some c) rd' fr' Q' K' M')"
  shows "simulates (r \<bind> helper_non_blocking_syscall_handler) e x"
  using simulatesI [OF assms(5) non_blocking_ends [OF assms(2,3,4)]] assms(1) by simp

lemma kernel_call_sim:
  assumes k: "kinv s [c] rd fr Q K" and g: "agrees s M" and c: "currentP s = Some c" and ok: "call_ok s" and u: "check_KU_mode_bit s = 0"
  shows "simulates (SYSCALL_handler s) (call_event s) (os_of (Some c) rd fr Q K M)"
proof -
  let ?x = "os_of (Some c) rd fr Q K M" and ?a0 = "s_reg (bios s) R_a0" and ?a1 = "s_reg (bios s) R_a1"
  have st: "os_step Stay ?x ?x" using os_step.stay [of ?x] by simp
  note ok = ok [unfolded call_ok_def Let_def]
  note d = SYSCALL_handler_def call_event_def
  consider "?a0 = 1" | "?a0 = 2" | "?a0 = 3" | "?a0 = 4" | "?a0 = 5" | "?a0 = 6" | "?a0 = 7" | "?a0 = 8" |
    "?a0 \<notin> {1, 2, 3, 4, 5, 6, 7, 8}" by blast
  then show ?thesis
  proof cases
    case 1
    obtain s' rd' fr' K' where s': "CREATEPROCESS s = Some s'" "currentP s' = Some c" "kinv s' [c] rd' fr' Q K'" "agrees s' M"
      "os_of (Some c) rd' fr' Q K' M = spawn c ?x" using create_spawns [OF k g c] by blast
    then have "os_step Spawn ?x (os_of (Some c) rd' fr' Q K' M)" using os_step.spawn [of ?x c] by simp
    from bind_non_blocking [OF s'(1-4) this] show ?thesis using u 1 by (simp add: d Let_def)
  next
    case 2
    then show ?thesis using u terminate_sim [OF k g c] by (simp add: d Let_def)
  next
    case 3
    then show ?thesis using u passeren_sim [OF k g c refl] ok by (simp add: d Let_def)
  next
    case 4
    then obtain r s' rd' Q' M' where s': "VERHOGEN s = Some (r, s')" "kinv s' [c] rd' fr Q' K" "currentP s' = Some c" "agrees s' M'"
      "os_of (Some c) rd' fr Q' K M' = wake ?a1 (add_sem ?a1 1 ?x)" using V_wakes [OF k g refl] ok c by (auto simp: v_ok_def)
    then have "os_step (Up ?a1) ?x (os_of (Some c) rd' fr Q' K M')" using os_step.up [of ?x c ?a1] by simp
    from simulatesI [OF this non_blocking_ends [OF s'(3,2,4)]] show ?thesis using u 4 s'(1) by (simp add: d Let_def)
  next
    case 5
    then show ?thesis using u ok wait_sim [OF k g c, of "devSemIdx ?a1 (s_reg (bios s) R_a2) (s_reg (bios s) R_a3)"]
      by (auto simp: d WAITIO_def Let_def)
  next
    case 6
    obtain s' where s': "GETCPUTIME s = Some s'" "currentP s' = Some c" "kinv s' [c] rd fr Q K" "agrees s' M"
      using cputime_keeps [OF k g c] by blast
    from bind_non_blocking [OF s' st] show ?thesis using u 6 by (simp add: d Let_def)
  next
    case 7
    then show ?thesis using u ok wait_sim [OF k g c, of 48]
      by (auto simp: d WAITCLOCK_def Let_def pseudo_clock_idx_def)
  next
    case 8
    have "GETSUPPORTPTR s = Some (upd_bios (set_reg R_v0 (p_supportStruct (pcbs s c))) s)" using c by (simp add: GETSUPPORTPTR_def)
    moreover have g': "agrees (upd_bios (set_reg R_v0 (p_supportStruct (pcbs s c))) s) M" using g by (simp add: agrees_def in_devs_def)
    ultimately show ?thesis using bind_non_blocking [OF _ _ _ g' st] u 8 k c by (simp add: d Let_def)
  next
    case 9
    then show ?thesis using u pass_up_sim [OF k g c] by (simp add: d Let_def)
  qed
qed

lemma syscall_sim:
  assumes k: "kinv s [c] rd fr Q K" and g: "agrees s M" and c: "currentP s = Some c" and ok: "check_KU_mode_bit s = 0 \<longrightarrow> call_ok s"
  shows "simulates (SYSCALL_handler s) (if check_KU_mode_bit s = 0 then call_event s else trap_event s) (os_of (Some c) rd fr Q K M)"
proof (cases "check_KU_mode_bit s = 0")
  case False
  let ?s = "upd_bios (\<lambda>st. st\<lparr>s_cause := s_cause st AND 0xFFFFFFEB\<rparr>)
    (upd_bios (\<lambda>st. st\<lparr>s_cause := s_cause st OR 0x28\<rparr>) s)"
  have s: "kinv ?s [c] rd fr Q K" "currentP ?s = Some c" and e: "trap_event ?s = trap_event s" using k c by (simp_all add: trap_event_def)
  have "agrees ?s M" using g by (simp add: agrees_def in_devs_def)
  from pass_up_sim [OF s(1) this s(2), of GENERALEXCEPT] have "simulates (pass_up_or_die GENERALEXCEPT ?s) (trap_event s) (os_of (Some c) rd fr Q K M)"
    unfolding e .
  with pass_up_sim [OF k g c] show ?thesis using False by (simp add: SYSCALL_handler_def Let_def)
next
  case True
  then show ?thesis using kernel_call_sim [OF k g c] ok by simp
qed

lemma small_word: "(x::u32) \<le> 12 \<Longrightarrow> x \<in> {0,1,2,3,4,5,6,7,8,9,10,11,12}"
proof -
  assume "x \<le> 12"
  then have "unat x \<in> set [0..<13]" by (auto simp: word_le_nat_alt)
  moreover have "x = of_nat (unat x)" by simp
  ultimately have "x \<in> of_nat ` set [0..<13]" by blast
  also have "(of_nat ` set [0..<13] :: u32 set) = {0,1,2,3,4,5,6,7,8,9,10,11,12}" by (simp add: upt_rec)
  finally show ?thesis .
qed

definition event_of :: "'a kstate_scheme \<Rightarrow> event" where
  "event_of s =
     (let exc = CauseExcCode (s_cause (bios s))
      in if exc = 0 then interrupt_event s
         else if exc = 8 \<and> check_KU_mode_bit s = 0 then call_event s
         else trap_event s)"

lemma exception_sim:
  assumes r: "represents s x" and ok: "request_ok s"
  shows "simulates (exception_handler s) (event_of s) x"
proof -
  obtain rd fr Q K M where x: "x = os_of (currentP s) rd fr Q K M" and k: "kinv s (cur_list (currentP s)) rd fr Q K"
      and g: "agrees s M"
    using r by (cases x) (auto simp: represents_def)
  let ?e = "CauseExcCode (s_cause (bios s))"
  show ?thesis
  proof (cases "?e = 0")
    case True
    then show ?thesis using interrupt_sim [OF k g] ok x by (simp add: exception_handler_def request_ok_def event_of_def)
  next
    case False
    with ok obtain c where c: "currentP s = Some c" and e: "?e \<le> 12" and sys: "?e = 8 \<Longrightarrow> check_KU_mode_bit s = 0 \<longrightarrow> call_ok s"
      by (auto simp: request_ok_def Let_def)
    have k1: "kinv s [c] rd fr Q K" using k c by simp
    have "simulates (SYSCALL_handler s) (event_of s) x" if "?e = 8"
      using syscall_sim [OF k1 g c sys [OF that]] that x c by (simp add: event_of_def)
    moreover have "simulates (pass_up_or_die n s) (event_of s) x" if "?e \<noteq> 8" for n
      using pass_up_sim [OF k1 g c] False that x c by (simp add: event_of_def)
    ultimately show ?thesis using small_word [OF e] False by (auto simp: exception_handler_def)
  qed
qed

lemma exception_ends:
  assumes "kernel_inv s" "request_ok s"
  shows "\<exists>e s'. exception_handler s = Some (e, s') \<and> kernel_inv s'"
proof -
  obtain x where "represents s x" using assms(1) by (auto simp: kernel_inv_represents)
  from exception_sim [OF this assms(2)] show ?thesis by (auto simp: simulates_def ends_def kernel_inv_represents)
qed

end
