(* ===== verification/Machine.thy ===== *)
theory Machine
  imports Invariant
begin

text \<open>
  The system as a step relation: \<open>main\<close> starts it, and then the processes and the devices run
  until the next exception, which the kernel handles. \<open>env\<close> says what they may do in between:
  change any memory, register or device, except the tables and counters of the kernel and the
  semaphores on which processes wait.
\<close>

definition env :: "'a kstate_scheme \<Rightarrow> 'a kstate_scheme \<Rightarrow> bool" where
  "env s s' \<longleftrightarrow> same_struct s s' \<and> process_count s' = process_count s \<and> softBlock_count s' = softBlock_count s \<and>
     currentP s' = currentP s \<and> device_sem_addr s' = device_sem_addr s \<and>
     (\<forall>a. a \<noteq> lastSemd s \<and> headBlocked a s \<noteq> Some None \<longrightarrow> mem s' a = mem s a)"

inductive reach :: "'a kstate_scheme \<Rightarrow> bool" where
  boot: "layout s \<Longrightarrow> main s = Some (e, s') \<Longrightarrow> reach s'"
| exc: "reach s \<Longrightarrow> env s s1 \<Longrightarrow> request_ok s1 \<Longrightarrow> exception_handler s1 = Some (e, s2) \<Longrightarrow> reach s2"

inductive_cases reachE: "reach s"

lemma env_represents:
  assumes r: "represents s x" and e: "env s s'"
  shows "represents s' (x\<lparr>os_sems := sems_of s'\<rparr>)"
proof -
  obtain rd fr Q K M where x: "x = os_of (currentP s) rd fr Q K M" and k: "kinv s (cur_list (currentP s)) rd fr Q K"
    using r by (cases x) (auto simp: represents_def)
  note d = e [unfolded env_def]
  obtain h ds t fl where A: "asl s h ds t fl Q" using kstD(3) [OF kinvD(1) [OF k]] by blast
  have ss: "same_struct s s'" using d by blast
  have l: "lastSemd s' = lastSemd s" using ss by (simp add: same_struct_def lastSemd_def)
  have dv: "device_sem i s' = device_sem i s" for i using d by (simp add: device_sem_def)
  then have i: "in_devs s' a = in_devs s a" for a by (simp add: in_devs_def)
  have "mem s' a = mem s a" if "Q a \<noteq> []" for a
    using d that kst_Q_lastSemd [OF kinvD(1) [OF k] that] headBlocked_spec [OF A, of a] by auto
  then have "sems_ok s' Q" using kinvD(3) [OF k] by (simp add: sems_ok_def i)
  moreover have "layout s'" using layout_cong [OF dv] d ss kinvD(5) [OF k] by (simp add: same_struct_def)
  moreover have "counts s' fr Q" using d kinvD(2) [OF k] waiting_cong [of s' s] by (simp add: counts_def)
  moreover have "kst s' (cur_list (currentP s')) rd fr Q K"
    using kinvD(1) [OF k] same_struct_kst [OF ss] d by simp
  ultimately show ?thesis using kinvD(4) [OF k] d x by (simp add: represents_def kinv_def agrees_def sems_of_def)
qed

lemma env_inv: "kernel_inv s \<Longrightarrow> env s s' \<Longrightarrow> kernel_inv s'"
  unfolding kernel_inv_represents using env_represents by blast

lemma boot_inv:
  assumes l: "layout s"
  shows "\<exists>s'. main s = Some (LDST (boot_state s), s') \<and> kinv s' [0] [] [1..<MAXPROC] (\<lambda>_. []) (\<lambda>_. []) \<and>
     currentP s' = Some 0 \<and> plt s' = 5000 \<and> mem s' = boot_mem s \<and> semdFree_h s' = Some 2"
proof -
  from main_eval [OF l] obtain s' where
    s': "main s = Some (LDST (boot_state s), s')" "kst s' [0] [] [1..<MAXPROC] (\<lambda>_. []) (\<lambda>_. [])"
     "currentP s' = Some 0" "plt s' = 5000" "process_count s' = 1" "softBlock_count s' = 0"
     "mem s' = boot_mem s" "device_sem_addr s' = device_sem_addr s" "semdTable_addr s' = semdTable_addr s"
     "semdFree_h s' = Some 2" by blast
  have "live [1..<MAXPROC] = {0}" by (auto simp: live_def MAXPROC_def)
  then have "counts s' [1..<MAXPROC] (\<lambda>_. [])" using s'(5,6) by (simp add: counts_def waiting_def)
  moreover have "layout s'" using layout_cong [OF _ s'(8,9)] s'(8) l by (simp add: device_sem_def)
  ultimately have "kinv s' [0] [] [1..<MAXPROC] (\<lambda>_. []) (\<lambda>_. [])"
    using s'(2) by (simp add: kinv_def sems_ok_def)
  with s' show ?thesis by blast
qed

lemma reach_kernel_inv: "reach s \<Longrightarrow> kernel_inv s"
proof (induction rule: reach.induct)
  case (boot s e s')
  with boot_inv [OF boot(1)] show ?case unfolding kernel_inv_def by (metis cur_list_simps(2) option.inject prod.inject)
next
  case (exc s s1 e s2)
  with exception_ends [OF env_inv] show ?case by fastforce
qed

section \<open>Runs\<close>

text \<open>A run from a state: at each step processes and devices do something, and the kernel handles the next
  exception. It is given as the list of the states before and after each exception.\<close>

inductive trail :: "'a kstate_scheme \<Rightarrow> ('a kstate_scheme \<times> 'a kstate_scheme) list \<Rightarrow> bool" where
  Nil: "trail s []"
| Cons: "env s s1 \<Longrightarrow> request_ok s1 \<Longrightarrow> exception_handler s1 = Some (e, s2) \<Longrightarrow> trail s2 xs \<Longrightarrow> trail s ((s1, s2) # xs)"

definition events :: "event \<Rightarrow> ('a kstate_scheme \<times> 'a kstate_scheme) list \<Rightarrow> nat" where
  "events e xs = length (filter (\<lambda>(s, _). event_of s = e) xs)"

lemma events_simps [simp]: "events e [] = 0" "events e ((s, t) # xs) = (if event_of s = e then 1 else 0) + events e xs"
  by (simp_all add: events_def)

text \<open>Process \<open>p\<close> runs in state \<open>s\<close>, or its pcb is in the free list.\<close>

definition served_or_gone :: "nat \<Rightarrow> 'a kstate_scheme \<Rightarrow> bool" where
  "served_or_gone p s \<longleftrightarrow> currentP s = Some p \<or> (\<exists>fr. pcbFree s fr \<and> p \<in> set fr)"

lemma served_or_gone_represents: "represents s x \<Longrightarrow> runs_or_gone p x \<Longrightarrow> served_or_gone p s"
  using kstD(1) kinvD(1) unfolding represents_def runs_or_gone_def served_or_gone_def by metis

lemma trail_progress:
  assumes "trail s xs" "represents s x" "ahead p x n" "n < events Preempt xs"
  shows "\<exists>(s, t)\<in>set xs. served_or_gone p t"
  using assms
proof (induction arbitrary: x n)
  case (Cons s s1 e s2 xs)
  let ?x = "x\<lparr>os_sems := sems_of s1\<rparr>"
  from exception_sim [OF env_represents [OF Cons.prems(1) Cons.hyps(1)] Cons.hyps(2)] Cons.hyps(3) obtain y where
    y: "os_step (event_of s1) ?x y" "represents s2 y" by (auto simp: simulates_def ends_def)
  have "ahead p ?x n" using Cons.prems(2) by (simp add: ahead_def)
  from ahead_step [OF y(1) this] show ?case
  proof
    assume "runs_or_gone p y"
    then show ?thesis using served_or_gone_represents [OF y(2)] by auto
  next
    assume "\<exists>m\<le>n. ahead p y m \<and> (event_of s1 = Preempt \<longrightarrow> m < n)"
    then obtain m where m: "m \<le> n" "ahead p y m" "event_of s1 = Preempt \<longrightarrow> m < n" by blast
    then have "m < events Preempt xs" using Cons.prems(3) by (auto split: if_splits)
    from Cons.IH [OF y(2) m(2) this] show ?thesis by auto
  qed
qed simp

text \<open>\<open>untouched a s xs\<close>: no process writes to \<open>a\<close> by itself, and none is terminated; \<open>last_state s xs\<close>: the state at the
  end of the run.\<close>

fun untouched :: "u32 \<Rightarrow> 'a kstate_scheme \<Rightarrow> ('a kstate_scheme \<times> 'a kstate_scheme) list \<Rightarrow> bool" where
  "untouched a s [] = True"
| "untouched a s ((t, u) # xs) = (mem t a = mem s a \<and> event_of t \<noteq> Kill \<and> untouched a u xs)"

fun last_state :: "'a kstate_scheme \<Rightarrow> ('a kstate_scheme \<times> 'a kstate_scheme) list \<Rightarrow> 'a kstate_scheme" where
  "last_state s [] = s"
| "last_state s ((t, u) # xs) = last_state u xs"

lemma represents_sems: "represents s x \<Longrightarrow> os_sems x = sems_of s"
  by (auto simp: represents_def agrees_def sems_of_def)

lemma represents_len: "represents s x \<Longrightarrow> length (os_waits x a) \<le> 20"
  using kst_len [OF kinvD(1)] by (auto simp: represents_def)

lemma trail_sem:
  assumes "trail s xs" "represents s x" "sem_at a x v" "untouched a s xs" "sint v + int (events (Up a) xs) < 2147483648"
  shows "\<exists>y w. represents (last_state s xs) y \<and> sem_at a y w \<and> sint w = sint v + int (events (Up a) xs) - int (events (Down a) xs)"
  using assms
proof (induction arbitrary: x v)
  case (Cons s s1 e s2 xs)
  let ?x = "x\<lparr>os_sems := sems_of s1\<rparr>"
  note r = env_represents [OF Cons.prems(1) Cons.hyps(1)]
  from exception_sim [OF r Cons.hyps(2)] Cons.hyps(3) obtain y where
    y: "os_step (event_of s1) ?x y" "represents s2 y" by (auto simp: simulates_def ends_def)
  have v: "sems_of s a = Some v" using Cons.prems(2) represents_sems [OF Cons.prems(1)] by (simp add: sem_at_def)
  have "device_sem i s1 = device_sem i s" for i using Cons.hyps(1) by (simp add: env_def device_sem_def)
  then have "sems_of s1 a = Some v" using v Cons.prems(3) by (simp add: sems_of_def in_devs_def split: if_splits)
  then have x: "sem_at a ?x v" using Cons.prems(2) by (simp add: sem_at_def)
  have "length (os_waits ?x a) < 2147483647" using represents_len [OF r, of a] by simp
  moreover have "event_of s1 = Up a \<Longrightarrow> sint v < 2147483647" using Cons.prems(4) by simp
  moreover have "event_of s1 \<noteq> Kill" using Cons.prems(3) by simp
  ultimately obtain w where w: "sem_at a y w"
      "sint w = sint v + (if event_of s1 = Up a then 1 else 0) - (if event_of s1 = Down a then 1 else 0)"
    using sem_at_step [OF y(1) _ x] by blast
  then have "sint w + int (events (Up a) xs) < 2147483648" using Cons.prems(4) by (auto split: if_splits)
  with Cons.IH [OF y(2) w(1)] Cons.prems(3) obtain z w' where
    "represents (last_state s2 xs) z" "sem_at a z w'" "sint w' = sint w + int (events (Up a) xs) - int (events (Down a) xs)"
    by auto
  then show ?case using w(2) by (intro exI [of _ z] exI [of _ w']) auto
qed auto

section \<open>A concrete machine\<close>

text \<open>The state at reset of a machine whose memory is clear, with the tables at two addresses of
  its RAM, and the state after \<open>main\<close> has run on it: where the theorems are tried out.\<close>

definition reset_state :: kstate where
  "reset_state = \<lparr>pcbs = (\<lambda>_. fresh_pcb), pcbFree_h = None,
     semds = (\<lambda>_. \<lparr>s_next = None, s_semAdd = 0, s_procQ = None\<rparr>), semdFree_h = None, semd_h = None,
     semdTable_addr = 0x20020000, process_count = 0, softBlock_count = 0, readyQ = None, currentP = None,
     device_sem_addr = 0x20010000, fn_addr = (\<lambda>_. 0x20002000), mem = (\<lambda>_. 0),
     states = (\<lambda>_. p_s fresh_pcb), supports = (\<lambda>_. \<lparr>sup_asid = 0, sup_exceptState = (\<lambda>_. p_s fresh_pcb),
       sup_exceptContext = (\<lambda>_. \<lparr>c_stackPtr = 0, c_status = 0, c_pc = 0\<rparr>),
       sup_privatePgTbl = (\<lambda>_. \<lparr>EntryHi = 0, EntryLo = 0\<rparr>)\<rparr>),
     devregs = (\<lambda>_. \<lparr>d_status = 0, d_command = 0, d_data0 = 0, d_data1 = 0\<rparr>), status = 0, plt = 0,
     plt_lag = (\<lambda>n. of_nat n + 10), plt_reads = 0\<rparr>"

definition booted :: kstate where
  "booted = snd (the (main reset_state))"

lemma reset_layout: "layout reset_state"
  by code_simp

lemma booted_kinv: "kinv booted [0] [] [1..<MAXPROC] (\<lambda>_. []) (\<lambda>_. [])"
  and booted_fields: "currentP booted = Some 0" "plt booted = 5000" "mem booted = boot_mem reset_state"
    "semdFree_h booted = Some 2" "main reset_state = Some (LDST (boot_state reset_state), booted)"
  using boot_inv [OF reset_layout] by (auto simp: booted_def)

lemma booted_addrs: "device_sem_addr booted = 0x20010000" "semdTable_addr booted = 0x20020000"
  "lastSemd booted = 0x200200FC" "device_sem i booted = 0x20010000 + 4 * i"
  "in_devs booted a = (0x20010000 \<le> a \<and> a \<le> 0x200100C0)"
proof -
  show a: "device_sem_addr booted = 0x20010000" "semdTable_addr booted = 0x20020000"
    using main_eval [OF reset_layout] by (auto simp: booted_def reset_state_def)
  then show "lastSemd booted = 0x200200FC" "device_sem i booted = 0x20010000 + 4 * i"
    "in_devs booted a = (0x20010000 \<le> a \<and> a \<le> 0x200100C0)"
    by (simp_all add: lastSemd_def MAXPROC_def device_sem_def in_devs_def)
qed

text \<open>Process \<open>c\<close> executes a system call: the BIOS has saved these registers.\<close>

definition request :: "u32 \<Rightarrow> u32 \<Rightarrow> (reg \<Rightarrow> u32) \<Rightarrow> 'a kstate_scheme \<Rightarrow> 'a kstate_scheme" where
  "request c st r = upd_bios (\<lambda>_. \<lparr>s_entryHI = 0, s_cause = c, s_status = st, s_pc = 0x20003000, s_reg = r\<rparr>)"

lemma request_simps [simp]:
  "kinv (request c st r s) cur rd fr Q K = kinv s cur rd fr Q K" "currentP (request c st r s) = currentP s"
  "bios (request c st r s) = \<lparr>s_entryHI = 0, s_cause = c, s_status = st, s_pc = 0x20003000, s_reg = r\<rparr>"
  "mem (request c st r s) = mem s" "semdFree_h (request c st r s) = semdFree_h s"
  "device_sem i (request c st r s) = device_sem i s" "lastSemd (request c st r s) = lastSemd s"
  "in_devs (request c st r s) a = in_devs s a" "pcbs (request c st r s) = pcbs s"
  by (simp_all add: request_def in_devs_def)

text \<open>Process 0 has created process 1; then process 0 blocks on a semaphore of its own.\<close>

lemma created_machine:
  "\<exists>s :: kstate. kinv s [0] [1] [2..<MAXPROC] (\<lambda>_. []) ((\<lambda>_. [])(0 := [1])) \<and> currentP s = Some 0 \<and>
     mem s = mem booted \<and> (\<forall>i. device_sem i s = device_sem i booted) \<and> lastSemd s = lastSemd booted \<and>
     semdFree_h s = Some 2"
proof -
  have u: "[1..<MAXPROC] = 1 # [2..<MAXPROC]" by (simp add: MAXPROC_def upt_rec)
  note k = kinvD(1,2) [OF booted_kinv, unfolded u]
  from CREATEPROCESS_spec [OF k booted_fields(1) kinvD(6) [OF booted_kinv]] obtain s :: kstate where
    s: "kst s [0] ([] @ [1]) [2..<MAXPROC] (\<lambda>_. []) ((\<lambda>_. [])(0 := [] @ [1]))" "counts s [2..<MAXPROC] (\<lambda>_. [])"
      "currentP s = Some 0" "mem s = mem booted" "lastSemd s = lastSemd booted"
      "\<forall>i. device_sem i s = device_sem i booted" "semdFree_h s = semdFree_h booted" by blast
  have "layout s" using layout_cong [of s booted] s(5,6) kinvD(5) [OF booted_kinv]
    by (simp add: device_sem_def lastSemd_def)
  then have "kinv s [0] [1] [2..<MAXPROC] (\<lambda>_. []) ((\<lambda>_. [])(0 := [1]))"
    using s(1,2) by (simp add: kinv_def sems_ok_def)
  with s(3-7) booted_fields(4) show ?thesis by auto
qed

lemma blocked_machine:
  "\<exists>s :: kstate. kinv s [1] [] [2..<MAXPROC] ((\<lambda>_. [])(0x20005000 := [0])) ((\<lambda>_. [])(0 := [1])) \<and>
     currentP s = Some 1 \<and> (\<forall>i. device_sem i s = device_sem i booted) \<and> lastSemd s = lastSemd booted"
proof -
  from created_machine obtain s0 :: kstate where
    s0: "kinv s0 [0] [1] [2..<MAXPROC] (\<lambda>_. []) ((\<lambda>_. [])(0 := [1]))" "currentP s0 = Some 0"
      "\<forall>i. device_sem i s0 = device_sem i booted" "lastSemd s0 = lastSemd booted" "semdFree_h s0 = Some 2" by blast
  let ?a = "0x20005000 :: u32" and ?s0 = "poke 0x20005000 0 s0"
  have k: "kinv ?s0 [0] [1] [2..<MAXPROC] (\<lambda>_. []) ((\<lambda>_. [])(0 := [1]))" by (rule kinv_poke [OF s0(1)]) simp
  have d: "\<not> in_devs ?s0 ?a" "?a \<noteq> lastSemd ?s0" "?a \<noteq> INTERVALTMR" "sint (mem ?s0 ?a - 1) < 0"
    using s0(3,4) booted_addrs(3,4) by (simp_all add: in_devs_def INTERVALTMR_def)
  from P_block_inv [OF k _ _ d(2-4)] d(1) s0(2,5) obtain s1 :: kstate where
    s1: "kinv s1 [] [1] [2..<MAXPROC] ((\<lambda>_. [])(?a := [0])) ((\<lambda>_. [])(0 := [1]))"
      "quiet (poke ?a (mem ?s0 ?a - 1) ?s0) s1" by auto
  from kst_scheduler_run [OF kinvD(1) [OF s1(1)]] obtain s2 :: kstate where
    s2: "kst s2 [1] [] [2..<MAXPROC] ((\<lambda>_. [])(?a := [0])) ((\<lambda>_. [])(0 := [1]))" "currentP s2 = Some 1" "quiet s1 s2"
    by blast
  from kinv_quiet [OF s2(3) s1(1) s2(1)] s2(2) quietD(12,13) [OF s2(3)] quietD(12,13) [OF s1(2)] s0(3,4)
  show ?thesis by auto
qed

end
