(* ===== verification/Props_Kernel.thy ===== *)
theory Props_Kernel
  imports Machine
begin

text \<open>
  The properties of the nucleus, each with an application to the machine of \<^verbatim>\<open>Machine\<close> where it
  has hypotheses.
\<close>

lemmas booted_kst = kinvD(1) [OF booted_kinv] and booted_counts = kinvD(2) [OF booted_kinv]

lemma upt_20: "[1..<MAXPROC] = 1 # [2..<MAXPROC]"
  by (simp add: MAXPROC_def upt_rec)

section \<open>The kernel as a whole\<close>

text \<open>C1: The nucleus implements the abstract kernel of \<open>OsSpec\<close>. Every exception that respects the interface of the kernel
  (\<open>request_ok\<close>) is handled to its end: \<open>exception_handler\<close> leaves the kernel by one of its exits, to a process
  exactly if one runs, and its tables, which stood for the abstract state \<open>x\<close> before, then stand for the state
  after the abstract step that the exception means (\<open>event_of\<close>): a process is created, ends with its
  descendants, waits or goes on. In particular every pcb is in one of the free list, the
  ready queue, the queue of one semaphore or running; the process trees, the semaphore list, both counters and the
  values of the semaphores agree with these queues.\<close>

theorem kernel_refines:
  assumes "represents s x" "request_ok s"
  shows "\<exists>e s' y. exception_handler s = Some (e, s') \<and> os_step (event_of s) x y \<and> represents s' y \<and>
     (os_cur y = None \<longleftrightarrow> e \<in> {HALT, PANIC, WAIT})"
  using exception_sim [OF assms] unfolding simulates_def ends_def
  by (elim exE conjE) (intro exI conjI; assumption)

text \<open>The booted machine, with an exception of the first process.\<close>

lemma booted_represents: "represents (request c st r booted) (os_of (Some 0) [] [1..<MAXPROC] (\<lambda>_. []) (\<lambda>_. []) (sems_of booted))"
  using booted_kinv by (simp add: represents_def booted_fields agrees_def sems_of_def in_devs_def)

lemma ask_end_ok: "request_ok (request 32 0 ((\<lambda>_. 0)(R_a0 := 2)) booted)"
proof -
  have "CauseExcCode 32 = 8" by code_simp
  then show ?thesis by (simp add: request_ok_def call_ok_def check_KU_mode_bit_def booted_fields)
qed

theorem kernel_refines_witness:
  "\<exists>e s' y. exception_handler (request 32 0 ((\<lambda>_. 0)(R_a0 := 2)) booted) = Some (e, s') \<and> represents s' y \<and>
     os_cur y = None \<and> e \<in> {HALT, PANIC, WAIT}"
proof -
  let ?s = "request 32 0 ((\<lambda>_. 0)(R_a0 := 2)) booted"
  from kernel_refines [OF booted_represents ask_end_ok] obtain e s' y where
    k: "exception_handler ?s = Some (e, s')" "os_step (event_of ?s) (os_of (Some 0) [] [1..<MAXPROC] (\<lambda>_. []) (\<lambda>_. []) (sems_of booted)) y"
      "represents s' y" "os_cur y = None \<longleftrightarrow> e \<in> {HALT, PANIC, WAIT}" by (elim exE conjE) (rule that)
  have "CauseExcCode 32 = 8" by code_simp
  then have "event_of ?s = Kill" by (simp add: event_of_def call_event_def check_KU_mode_bit_def)
  then have "os_cur y = None" using k(2) by (auto elim!: os_stepE simp: remove_def dispatch_def)
  with k show ?thesis by blast
qed

text \<open>C2: \<open>main\<close> boots: it fills the pass up vector, loads the interval timer, clears the 49 device
  semaphores, and dispatches the first process, which is alone in the system, in the state that
  \<open>main\<close> prepared: kernel mode, interrupts enabled, at \<open>test\<close> with its stack at the top of RAM.\<close>

theorem main_boots:
  assumes "layout s"
  shows "\<exists>s'. main s = Some (LDST (boot_state s), s') \<and> kst s' [0] [] [1..<MAXPROC] (\<lambda>_. []) (\<lambda>_. []) \<and>
     counts s' [1..<MAXPROC] (\<lambda>_. []) \<and> currentP s' = Some 0 \<and> plt s' = 5000 \<and> mem s' = boot_mem s"
  using boot_inv [OF assms] by (auto simp: kinv_def)

theorem main_boots_witness:
  "\<exists>s'. main reset_state = Some (LDST (boot_state reset_state), s') \<and> currentP s' = Some 0 \<and>
     mem s' PASSUPVECTOR = 0x20002000 \<and> mem s' 0x20010000 = 0"
proof -
  have "PASSUPVECTOR < RAMSTART" by code_simp
  then have "\<forall>i\<in>{0..<num_device_sems}. PASSUPVECTOR \<noteq> device_sem (of_nat i) reset_state"
    using device_sem_notin [OF reset_layout] by fastforce
  then have "boot_mem reset_state PASSUPVECTOR = 0x20002000"
    by (simp add: boot_mem_def) (simp add: reset_state_def const_defs)
  moreover have "\<exists>i\<in>{0..<num_device_sems}. 0x20010000 = device_sem (of_nat i) reset_state"
    by (rule bexI [of _ 0]) (simp_all add: device_sem_def reset_state_def num_device_sems_def)
  then have "boot_mem reset_state 0x20010000 = 0"
    by (simp add: boot_mem_def INTERVALTMR_def)
  ultimately show ?thesis using main_boots [OF reset_layout] by auto
qed


lemma request_env: "env s (request c st r s)"
  by (simp add: env_def) (simp add: same_struct_def request_def, simp add: upd_bios_def)



text \<open>The first process asks for P on a semaphore with the value \<open>v\<close>.\<close>

abbreviation asking_P :: "u32 \<Rightarrow> kstate" where
  "asking_P v \<equiv> request 32 0 ((\<lambda>_. 0)(R_a0 := 3, R_a1 := 0x20005000)) (poke 0x20005000 v booted)"


section \<open>Scheduling\<close>

text \<open>A process that waits for the clock, and nothing else, in the booted machine.\<close>

lemma waiting_machine:
  "\<exists>s :: kstate. kst s [] [] [1..<MAXPROC] ((\<lambda>_. [])(0x200100C0 := [0])) (\<lambda>_. []) \<and>
     counts s [1..<MAXPROC] ((\<lambda>_. [])(0x200100C0 := [0])) \<and> in_devs s 0x200100C0"
proof -
  let ?b = "poke 0x200100C0 0 booted"
  have k: "kinv ?b [0] [] [1..<MAXPROC] (\<lambda>_. []) (\<lambda>_. [])" using kinv_poke [OF booted_kinv] by simp
  have d: "in_devs ?b 0x200100C0" using booted_addrs(5) by (simp add: in_devs_def)
  have "0x200100C0 \<noteq> lastSemd ?b" "0x200100C0 \<noteq> INTERVALTMR" "sint (mem ?b 0x200100C0 - 1) < 0"
    using booted_addrs(3) by (simp_all add: INTERVALTMR_def)
  from P_block_inv [OF k _ _ this] d booted_fields(1,4) obtain s' :: kstate where
    s': "kinv (s'\<lparr>softBlock_count := softBlock_count s' + 1\<rparr>) [] [] [1..<MAXPROC] ((\<lambda>_. [])(0x200100C0 := [0])) (\<lambda>_. [])"
      "quiet (poke 0x200100C0 (mem ?b 0x200100C0 - 1) ?b) s'" by auto
  then have "in_devs (s'\<lparr>softBlock_count := softBlock_count s' + 1\<rparr>) 0x200100C0"
    using quietD(12) [OF s'(2)] d by (simp add: in_devs_def)
  with s'(1) show ?thesis unfolding kinv_def by blast
qed





section \<open>System calls\<close>

text \<open>C7: \<open>CREATEPROCESS\<close> takes the first free pcb, which becomes a child of the caller behind its
  older children and joins the end of the ready queue, with the processor state at the address
  in \<open>a1\<close>, the support structure in \<open>a2\<close> (0 and NULL both mean none) and no processor time; \<open>v0\<close>
  is 0, the process is counted, and no other process is touched. With all 20 pcbs in use it returns -1 in
  the caller's \<open>v0\<close> and changes nothing else.\<close>

theorem create_process:
  assumes "kst s [c] rd fr Q K" "counts s fr Q" "currentP s = Some c" "NULL \<noteq> lastSemd s"
  shows "\<exists>s'. CREATEPROCESS s = Some s' \<and>
     (case fr of [] \<Rightarrow> s' = upd_bios (set_reg R_v0 (- 1)) s
      | n # fr' \<Rightarrow> kst s' [c] (rd @ [n]) fr' Q (K(c := K c @ [n])) \<and> counts s' fr' Q \<and>
          currentP s' = Some c \<and> bios s' = set_reg R_v0 0 (bios s) \<and> mem s' = mem s \<and>
          p_s (pcbs s' n) = states s (s_reg (bios s) R_a1) \<and>
          p_supportStruct (pcbs s' n) =
            (if s_reg (bios s) R_a2 \<noteq> NULL \<and> s_reg (bios s) R_a2 \<noteq> 0 then s_reg (bios s) R_a2 else NULL) \<and>
          p_time (pcbs s' n) = 0 \<and> (\<forall>i. i \<noteq> n \<longrightarrow> p_s (pcbs s' i) = p_s (pcbs s i)))"
proof (cases fr)
  case Nil
  with CREATEPROCESS_full assms(1) show ?thesis by simp
next
  case (Cons n fr')
  with CREATEPROCESS_spec [OF assms [unfolded Cons]] show ?thesis by auto
qed

text \<open>A machine in which all pcbs are in use: \<open>n\<close> processes are created one after the other.\<close>

lemma create_many:
  "n \<le> 19 \<Longrightarrow> \<exists>s :: kstate. \<exists>rd K. kst s [0] rd [Suc n..<MAXPROC] (\<lambda>_. []) K \<and>
     counts s [Suc n..<MAXPROC] (\<lambda>_. []) \<and> currentP s = Some 0 \<and> NULL \<noteq> lastSemd s"
proof (induction n)
  case 0
  show ?case using booted_kst booted_counts booted_fields(1) kinvD(6) [OF booted_kinv] by (metis One_nat_def)
next
  case (Suc n)
  then obtain s :: kstate and rd K where
    s: "kst s [0] rd [Suc n..<MAXPROC] (\<lambda>_. []) K" "counts s [Suc n..<MAXPROC] (\<lambda>_. [])"
      "currentP s = Some 0" "NULL \<noteq> lastSemd s" by auto
  have "[Suc n..<MAXPROC] = Suc n # [Suc (Suc n)..<MAXPROC]"
    using Suc.prems by (simp add: MAXPROC_def upt_conv_Cons)
  from CREATEPROCESS_spec [OF s(1,2) [unfolded this] s(3,4)] s(4) show ?case by metis
qed

theorem create_process_witness:
  "(\<exists>s'. CREATEPROCESS booted = Some s' \<and> kst s' [0] [1] [2..<MAXPROC] (\<lambda>_. []) ((\<lambda>_. [])(0 := [1]))) \<and>
   (\<exists>s :: kstate. CREATEPROCESS s = Some (upd_bios (set_reg R_v0 (- 1)) s) \<and> currentP s = Some 0)"
proof
  show "\<exists>s'. CREATEPROCESS booted = Some s' \<and> kst s' [0] [1] [2..<MAXPROC] (\<lambda>_. []) ((\<lambda>_. [])(0 := [1]))"
    using create_process [OF booted_kst [unfolded upt_20] booted_counts [unfolded upt_20] booted_fields(1)
      kinvD(6) [OF booted_kinv]] by fastforce
  have "[Suc 19..<MAXPROC] = []" by (simp add: MAXPROC_def)
  with create_many [of 19] obtain s :: kstate and rd K where
    "kst s [0] rd [] (\<lambda>_. []) K" "counts s [] (\<lambda>_. [])" "currentP s = Some 0" "NULL \<noteq> lastSemd s" by auto
  from create_process [OF this] this(3) show "\<exists>s :: kstate. CREATEPROCESS s = Some (upd_bios (set_reg R_v0 (- 1)) s) \<and> currentP s = Some 0"
    by auto
qed



text \<open>C9: V on a semaphore on which processes wait wakes exactly the first of them, which joins the
  end of the ready queue and forgets the semaphore; the caller stays current, and nothing but
  the semaphore's value changes in memory.\<close>

theorem V_wakes_first:
  assumes "kst s cur rd fr Q K" "a = s_reg (bios s) R_a1" "NULL \<noteq> lastSemd s"
    and "sint (mem s a + 1) \<le> 0" "Q a = p # ps"
  shows "\<exists>s'. VERHOGEN s = Some (Some p, s') \<and> kst s' cur (rd @ [p]) fr (Q(a := ps)) K \<and>
     mem s' = (mem s)(a := mem s a + 1) \<and> currentP s' = currentP s \<and> p_semAdd (pcbs s' p) = NULL \<and>
     (\<forall>i. p_s (pcbs s' i) = p_s (pcbs s i))"
proof -
  from V_wake [OF assms] obtain s' where
    s': "VERHOGEN s = Some (Some p, s')" "kst s' cur (rd @ [p]) fr (Q(a := ps)) K" "currentP s' = currentP s"
      "quiet (poke a (mem s a + 1) s) s'" "p_semAdd (pcbs s' p) = NULL" by blast
  then show ?thesis using quietD(1,6) [OF s'(4)] by auto
qed

theorem V_wakes_first_witness:
  "\<exists>s s'. s_reg (bios s) R_a1 = 0x20005000 \<and> VERHOGEN (s :: kstate) = Some (Some 0, s') \<and> mem s' 0x20005000 = 0"
proof -
  from blocked_machine obtain s0 :: kstate where
    s0: "kinv s0 [1] [] [2..<MAXPROC] ((\<lambda>_. [])(0x20005000 := [0])) ((\<lambda>_. [])(0 := [1]))"
      "\<forall>i. device_sem i s0 = device_sem i booted" by blast
  let ?s = "request 32 0 ((\<lambda>_. 0)(R_a0 := 4, R_a1 := 0x20005000)) s0"
  have k: "kinv ?s [1] [] [2..<MAXPROC] ((\<lambda>_. [])(0x20005000 := [0])) ((\<lambda>_. [])(0 := [1]))" using s0(1) by simp
  have "\<not> in_devs s0 0x20005000" using s0(2) booted_addrs(4) by (simp add: in_devs_def)
  then have "sint (mem ?s 0x20005000) = - 1" using kinvD(3) [OF s0(1)] by (simp add: sems_ok_def)
  then have m: "mem ?s 0x20005000 = - 1" by (intro signed_word_eqI) simp
  have r: "0x20005000 = s_reg (bios ?s) R_a1" by simp
  from V_wakes_first [OF kinvD(1) [OF k] r kinvD(6) [OF k], of 0 "[]"] m obtain s' where
    "VERHOGEN ?s = Some (Some 0, s')" "mem s' 0x20005000 = 0" by auto
  with r show ?thesis by metis
qed



text \<open>C11: A process that waits for a device whose semaphore is positive (an interrupt came before the
  wait) is lost: P lets it pass, but SYS5 has already counted it as blocked and calls the
  scheduler without putting it anywhere. When the scheduler has left the kernel, it is in no
  queue, is not running, and \<open>softBlock_count\<close> is one too high.\<close>

theorem wait_loses_process:
  assumes "kst s [c] (x # rd) fr Q K" "counts s fr Q" "currentP s = Some c"
    and "i = devSemIdx (s_reg (bios s) R_a1) (s_reg (bios s) R_a2) (s_reg (bios s) R_a3)"
    and "0 < sint (mem s (device_sem i s))"
  shows "\<exists>e s'. do { s \<leftarrow> WAITIO s; helper_blocking_syscall_handler s } = Some (e, s') \<and>
     kst s' [x, c] rd fr Q K \<and> currentP s' = Some x \<and>
     softBlock_count s' = of_nat (card (waiting s' Q)) + 1"
proof -
  let ?a = "device_sem i s"
  let ?s1 = "(poke ?a (mem s ?a - 1) s)\<lparr>softBlock_count := softBlock_count s + 1\<rparr>"
  have "0 \<le> sint (mem s ?a - 1)" using assms(5) sint_pred [of "mem s ?a"] by simp
  then have w: "WAITIO s = Some ?s1"
    using assms(4) helper_P_pass [of s ?a] by (simp add: WAITIO_def)
  have "kst (saved c ?s1) [c] (x # rd) fr Q K" using assms(1) by simp
  from kst_scheduler_run [OF this] obtain s' where
    s': "scheduler (saved c ?s1) = Some (LDST (p_s (pcbs (saved c ?s1) x)), s')" "kst s' [x, c] rd fr Q K"
      "currentP s' = Some x" "quiet (saved c ?s1) s'" by blast
  have "helper_blocking_syscall_handler ?s1 = scheduler (saved c ?s1)" using assms(3) by (intro blocking_exit) simp
  moreover have "waiting s' Q = waiting s Q"
    using quietD(15) [OF s'(4)] waiting_cong [of ?s1 s] by (simp add: poke_def)
  ultimately show ?thesis using w s' assms(2) quietD(5) [OF s'(4)] by (simp add: counts_def)
qed

theorem wait_loses_process_witness:
  "\<exists>s e s'. do { s \<leftarrow> WAITIO s; helper_blocking_syscall_handler s } = Some (e, s' :: kstate) \<and>
     currentP s = Some 0 \<and> currentP s' = Some 1"
proof -
  from created_machine obtain s0 :: kstate where
    s0: "kinv s0 [0] [1] [2..<MAXPROC] (\<lambda>_. []) ((\<lambda>_. [])(0 := [1]))" "currentP s0 = Some 0"
      "\<forall>i. device_sem i s0 = device_sem i booted" by blast
  let ?s = "request 32 0 ((\<lambda>_. 0)(R_a0 := 5, R_a1 := 3, R_a2 := 2)) (poke 0x20010008 1 s0)"
  have k: "kinv ?s [0] [1] [2..<MAXPROC] (\<lambda>_. []) ((\<lambda>_. [])(0 := [1]))" using kinv_poke [OF s0(1)] by simp
  have "devSemIdx 3 2 0 = 2" by code_simp
  with wait_loses_process [OF kinvD(1,2) [OF k], of 2] s0(2,3) booted_addrs(4)
  have "\<exists>e s'. do { s \<leftarrow> WAITIO ?s; helper_blocking_syscall_handler s } = Some (e, s') \<and> currentP s' = Some 1"
    by fastforce
  then show ?thesis using s0(2) by (intro exI [of _ ?s]) simp
qed

text \<open>SYS6 returns, in \<open>v0\<close>, the processor time recorded for the caller plus what the timer shows
  it has used of the current slice, and resumes the caller behind the \<open>SYSCALL\<close>.\<close>

lemma cpu_time_value:
  assumes "currentP s = Some c"
  shows "\<exists>s'. do { s \<leftarrow> GETCPUTIME s; helper_non_blocking_syscall_handler s } =
     Some (LDST (after_call (set_reg R_v0 (p_time (pcbs s c) + elapsed s) (bios s))), s')"
proof -
  let ?s1 = "upd_bios (set_reg R_v0 (p_time (pcbs s c) + elapsed s)) (s\<lparr>plt_reads := Suc (plt_reads s)\<rparr>)"
  have "GETCPUTIME s = Some ?s1"
    using assms by (simp add: GETCPUTIME_def getTIMER_def elapsed_def algebra_simps)
  moreover have "currentP ?s1 = Some c" using assms by simp
  ultimately show ?thesis by (simp add: non_blocking_exit)
qed



section \<open>Termination and exceptions of the processes\<close>

text \<open>C13: Termination takes a process and all its descendants, and no other process, out of every
  structure of the kernel: the ready queue, the queue of every semaphore, the lists of children
  and the running process. Their pcbs are free again, both counters are right, and the other
  processes keep their places, their order and their data. The semaphores that are not devices stay in
  balance: each of them is raised by one for every process of the subtree that waited on it. The
  semaphores of the devices keep their values, for the interrupt that is still to come.\<close>

theorem terminate_subtree:
  assumes "kst s cur rd fr Q K" "counts s fr Q" "i \<in> live fr" "sems_ok s Q"
  shows "\<exists>s' fr'. helper_terminate_process (Some i) s = Some s' \<and>
     (let D = insert i (desc K i) in
       kst s' (without D cur) (without D rd) fr' (\<lambda>a. without D (Q a)) (\<lambda>r. without D (K r)) \<and>
       set fr' = D \<union> set fr \<and> counts s' fr' (\<lambda>a. without D (Q a)) \<and> dframe s s' \<and>
       (\<forall>a. sint (mem s' a) = sint (mem s a) + (if in_devs s a then 0
          else int (length (Q a)) - int (length (without D (Q a))))))"
  using terminate_spec [OF assms] by (auto simp: removed_def sem_gain_def Let_def)

theorem terminate_subtree_witness:
  "\<exists>(s :: kstate) s'. kst s [1] [] [2..<MAXPROC] ((\<lambda>_. [])(0x20005000 := [0])) ((\<lambda>_. [])(0 := [1])) \<and>
     helper_terminate_process (Some 0) s = Some s' \<and> process_count s' = 0"
proof -
  from blocked_machine obtain s :: kstate where
    k: "kinv s [1] [] [2..<MAXPROC] ((\<lambda>_. [])(0x20005000 := [0])) ((\<lambda>_. [])(0 := [1]))" by blast
  have l: "0 \<in> live [2..<MAXPROC]" by (simp add: live_def MAXPROC_def)
  let ?K = "(\<lambda>_. [])(0 := [1]) :: nat \<Rightarrow> nat list"
  from terminate_subtree [OF kinvD(1,2) [OF k] l kinvD(3) [OF k]] obtain s' fr' where
    s': "helper_terminate_process (Some 0) s = Some s'" "set fr' = insert 0 (desc ?K 0) \<union> set [2..<MAXPROC]"
      "counts s' fr' (\<lambda>a. without (insert 0 (desc ?K 0)) (((\<lambda>_. [])(0x20005000 := [0])) a))"
    unfolding Let_def by (elim exE conjE) (rule that)
  have "1 \<in> desc ?K 0" by (rule desc_child) simp
  then have "x \<in> set fr'" if "x < MAXPROC" for x
    using that s'(2) by (cases "x < 2") (auto dest: less_2_cases)
  then have "live fr' = {}" by (auto simp: live_def)
  then have "process_count s' = 0" using s'(3) by (simp add: counts_def)
  with kinvD(1) [OF k] s'(1) show ?thesis by blast
qed

lemma passes_up:
  assumes "currentP s = Some c" "p_supportStruct (pcbs s c) = a" "a \<noteq> NULL"
  shows "\<exists>s'. pass_up_or_die n s = Some (LDCXT (c_stackPtr (sup_exceptContext (supports s a) n))
       (c_status (sup_exceptContext (supports s a) n)) (c_pc (sup_exceptContext (supports s a) n)), s') \<and>
     sup_exceptState (supports s' a) n = bios s \<and> (\<forall>m. m \<noteq> n \<longrightarrow> sup_exceptState (supports s' a) m = sup_exceptState (supports s a) m) \<and>
     (\<forall>b. b \<noteq> a \<longrightarrow> supports s' b = supports s b) \<and> pcbs s' = pcbs s \<and> mem s' = mem s \<and>
     (\<forall>cur rd fr Q K. kst s' cur rd fr Q K = kst s cur rd fr Q K)"
  using assms
  by (intro exI [of _ "upd_support a (\<lambda>sup. sup\<lparr>sup_exceptState := (sup_exceptState sup)(n := bios s)\<rparr>) s"])
    (simp_all add: pass_up_or_die_def deep_copy_eq Let_def, simp_all add: upd_support_def)

lemma dies:
  assumes "kst s [c] rd fr Q K" "counts s fr Q" "sems_ok s Q" "currentP s = Some c"
    and "p_supportStruct (pcbs s c) = NULL" "D = insert c (desc K c)"
  shows "\<exists>e s1 s' fr'. pass_up_or_die n s = Some (e, s') \<and> TERMINATEPROCESS s = Some (e, s') \<and>
     set fr' = D \<union> set fr \<and>
     dispatched s1 e s' (without D rd) fr' (\<lambda>a. without D (Q a)) (\<lambda>r. without D (K r))"
proof -
  have "c \<in> live fr" using placesD(11) [OF kstD(4) [OF assms(1)]] by simp
  from terminate_spec [OF assms(1,2) this assms(3)] obtain s1 fr' where
    s1: "helper_terminate_process (Some c) s = Some s1" "removed D s [c] rd fr Q K s1 fr'"
    unfolding assms(6) by blast
  have "without D [c] = []" by (simp add: without_def assms(6))
  then have "kst s1 [] (without D rd) fr' (\<lambda>a. without D (Q a)) (\<lambda>r. without D (K r))"
      "counts s1 fr' (\<lambda>a. without D (Q a))" "set fr' = D \<union> set fr" using s1(2) by (simp_all add: removed_def)
  moreover from kst_dispatch [OF this(1,2)] obtain e s' where
    "scheduler s1 = Some (e, s')" "dispatched s1 e s' (without D rd) fr' (\<lambda>a. without D (Q a)) (\<lambda>r. without D (K r))"
    by blast
  ultimately show ?thesis using s1(1) assms(4,5)
    by (intro exI [of _ e] exI [of _ s1] exI [of _ s'] exI [of _ fr']) (simp add: pass_up_or_die_def TERMINATEPROCESS_def)
qed

text \<open>C14: Pass up or die. An exception of a process with a support structure is passed up: the state at the
  exception is saved in the slot of the structure for that kind of exception, the kernel loads the context
  the process has registered for it, and nothing else in the kernel changes. An exception of a process without a support
  structure is its end, and that of its descendants, as if it had asked for SYS2; the scheduler then runs in the
  system without them.\<close>

theorem pass_up_or_dies:
  assumes "currentP s = Some c" "a = p_supportStruct (pcbs s c)"
  shows "(a \<noteq> NULL \<longrightarrow>
     (\<exists>s'. pass_up_or_die n s = Some (LDCXT (c_stackPtr (sup_exceptContext (supports s a) n))
         (c_status (sup_exceptContext (supports s a) n)) (c_pc (sup_exceptContext (supports s a) n)), s') \<and>
       sup_exceptState (supports s' a) n = bios s \<and> (\<forall>m. m \<noteq> n \<longrightarrow> sup_exceptState (supports s' a) m = sup_exceptState (supports s a) m) \<and>
       (\<forall>b. b \<noteq> a \<longrightarrow> supports s' b = supports s b) \<and> pcbs s' = pcbs s \<and> mem s' = mem s \<and>
       (\<forall>cur rd fr Q K. kst s' cur rd fr Q K = kst s cur rd fr Q K))) \<and>
     (a = NULL \<and> kst s [c] rd fr Q K \<and> counts s fr Q \<and> sems_ok s Q \<and> D = insert c (desc K c) \<longrightarrow>
     (\<exists>e s1 s' fr'. pass_up_or_die n s = Some (e, s') \<and> TERMINATEPROCESS s = Some (e, s') \<and> set fr' = D \<union> set fr \<and>
       dispatched s1 e s' (without D rd) fr' (\<lambda>a. without D (Q a)) (\<lambda>r. without D (K r))))"
proof (rule conjI; rule impI; (elim conjE)?)
  assume "a \<noteq> NULL"
  then show "\<exists>s'. pass_up_or_die n s = Some (LDCXT (c_stackPtr (sup_exceptContext (supports s a) n))
         (c_status (sup_exceptContext (supports s a) n)) (c_pc (sup_exceptContext (supports s a) n)), s') \<and>
       sup_exceptState (supports s' a) n = bios s \<and> (\<forall>m. m \<noteq> n \<longrightarrow> sup_exceptState (supports s' a) m = sup_exceptState (supports s a) m) \<and>
       (\<forall>b. b \<noteq> a \<longrightarrow> supports s' b = supports s b) \<and> pcbs s' = pcbs s \<and> mem s' = mem s \<and>
       (\<forall>cur rd fr Q K. kst s' cur rd fr Q K = kst s cur rd fr Q K)"
    by (rule passes_up [OF assms(1) assms(2) [symmetric]])
next
  assume "a = NULL" "kst s [c] rd fr Q K" "counts s fr Q" "sems_ok s Q" "D = insert c (desc K c)"
  then show "\<exists>e s1 s' fr'. pass_up_or_die n s = Some (e, s') \<and> TERMINATEPROCESS s = Some (e, s') \<and> set fr' = D \<union> set fr \<and>
       dispatched s1 e s' (without D rd) fr' (\<lambda>a. without D (Q a)) (\<lambda>r. without D (K r))"
    using assms by (intro dies) simp_all
qed

theorem pass_up_or_dies_witness:
  "(\<exists>e s'. pass_up_or_die GENERALEXCEPT (upd_pcb 0 (\<lambda>p. p\<lparr>p_supportStruct := 0x20006000\<rparr>) booted) = Some (e, s') \<and>
     sup_exceptState (supports s' 0x20006000) GENERALEXCEPT = bios booted) \<and>
   (\<exists>s'. pass_up_or_die GENERALEXCEPT (upd_pcb 0 (\<lambda>p. p\<lparr>p_supportStruct := NULL\<rparr>) booted) = Some (HALT, s'))"
proof
  let ?t = "upd_pcb 0 (\<lambda>p. p\<lparr>p_supportStruct := 0x20006000\<rparr>) booted"
  have t: "currentP ?t = Some 0" "0x20006000 = p_supportStruct (pcbs ?t 0)" "(0x20006000 :: u32) \<noteq> NULL" "bios ?t = bios booted"
    by (simp_all add: booted_fields NULL_def upd_pcb_sel)
  show "\<exists>e s'. pass_up_or_die GENERALEXCEPT ?t = Some (e, s') \<and> sup_exceptState (supports s' 0x20006000) GENERALEXCEPT = bios booted"
    using pass_up_or_dies [OF t(1,2), of GENERALEXCEPT] t(3,4) by metis
next
  let ?s = "upd_pcb 0 (\<lambda>p. p\<lparr>p_supportStruct := NULL\<rparr>) booted"
  have k: "kst ?s [0] [] [1..<MAXPROC] (\<lambda>_. []) (\<lambda>_. [])" using booted_kst by simp
  have c: "counts ?s [1..<MAXPROC] (\<lambda>_. [])"
    using booted_counts waiting_cong [of ?s booted] by (simp add: counts_def) (simp add: upd_pcb_def)
  have o: "sems_ok ?s (\<lambda>_. [])" "currentP ?s = Some 0" "p_supportStruct (pcbs ?s 0) = NULL"
    by (simp_all add: sems_ok_def booted_fields upd_pcb_sel)
  let ?D = "insert 0 (desc (\<lambda>_. []) 0)"
  have h: "NULL = NULL \<and> kst ?s [0] [] [1..<MAXPROC] (\<lambda>_. []) (\<lambda>_. []) \<and> counts ?s [1..<MAXPROC] (\<lambda>_. []) \<and>
      sems_ok ?s (\<lambda>_. []) \<and> ?D = ?D" using k c o(1) by blast
  from mp [OF conjunct2 [OF pass_up_or_dies [OF o(2) o(3) [symmetric], where n = GENERALEXCEPT]] h] obtain e s1 s' fr' where
    "pass_up_or_die GENERALEXCEPT ?s = Some (e, s')" and f: "set fr' = insert 0 (desc (\<lambda>_. []) 0) \<union> set [1..<MAXPROC]"
    and d: "dispatched s1 e s' (without (insert 0 (desc (\<lambda>_. []) 0)) []) fr'
      (\<lambda>a. without (insert 0 (desc (\<lambda>_. []) 0)) []) (\<lambda>r. without (insert 0 (desc (\<lambda>_. []) 0)) [])"
    by (elim exE conjE) (rule that)
  have "x \<in> set fr'" if "x < MAXPROC" for x
    unfolding f using that by (cases "x = 0") auto
  then have "live fr' = {}" by (auto simp: live_def)
  with d have "e = HALT" by (simp add: dispatched_def)
  with \<open>pass_up_or_die GENERALEXCEPT ?s = Some (e, s')\<close> show "\<exists>s'. pass_up_or_die GENERALEXCEPT ?s = Some (HALT, s')" by blast
qed

lemma mask_absorb: "((c OR a) AND b) AND m = (((c AND m) OR a) AND b) AND m" for c :: u32
  by (rule bit_word_eqI) (auto simp: bit_and_iff bit_or_iff)

lemma reserved_instruction:
  "CauseExcCode c = 8 \<Longrightarrow> CauseExcCode ((c OR 0x28) AND 0xFFFFFFEB) = 10"
proof -
  assume "CauseExcCode c = 8"
  moreover have "take_bit 2 EXECCODEBITS = 0" by code_simp
  then have "take_bit 2 (c AND EXECCODEBITS) = 0" by (simp only: take_bit_and and_zero_eq)
  ultimately have "c AND EXECCODEBITS = push_bit 2 8 + 0"
    using bits_ident [of 2 "c AND EXECCODEBITS"] by (simp only: CauseExcCode_def and.commute)
  moreover have "EXECCODEBITS AND ((c OR 0x28) AND 0xFFFFFFEB) = (((c AND EXECCODEBITS) OR 0x28) AND 0xFFFFFFEB) AND EXECCODEBITS"
    by (subst and.commute) (rule mask_absorb)
  moreover have "drop_bit 2 ((((push_bit 2 8 + 0) OR 0x28) AND 0xFFFFFFEB) AND EXECCODEBITS) = (10 :: u32)" by code_simp
  ultimately show ?thesis by (simp only: CauseExcCode_def)
qed

text \<open>C15: A system call 1 to 8 (or with a negative number) from user mode is not served: it is turned
  into a reserved instruction exception, code 10, of the same process, and passed up.\<close>

theorem privileged_call:
  assumes "check_KU_mode_bit s \<noteq> 0" "sint (s_reg (bios s) R_a0) \<le> 8" "CauseExcCode (s_cause (bios s)) = 8"
  shows "\<exists>s'. SYSCALL_handler s = pass_up_or_die GENERALEXCEPT s' \<and> CauseExcCode (s_cause (bios s')) = 10 \<and>
     s_reg (bios s') = s_reg (bios s) \<and> s_pc (bios s') = s_pc (bios s) \<and> pcbs s' = pcbs s \<and> mem s' = mem s \<and>
     currentP s' = currentP s"
  using assms reserved_instruction
  by (intro exI [of _ "upd_bios (\<lambda>st. st\<lparr>s_cause := s_cause st AND 0xFFFFFFEB\<rparr>)
      (upd_bios (\<lambda>st. st\<lparr>s_cause := s_cause st OR 0x28\<rparr>) s)"]) (simp add: SYSCALL_handler_def Let_def)

theorem privileged_call_witness:
  "\<exists>s'. SYSCALL_handler (request 32 8 ((\<lambda>_. 0)(R_a0 := 2)) booted) = pass_up_or_die GENERALEXCEPT s' \<and>
     CauseExcCode (s_cause (bios s')) = 10"
proof -
  have "CauseExcCode 32 = 8" by code_simp
  with privileged_call [of "request 32 8 ((\<lambda>_. 0)(R_a0 := 2)) booted"] show ?thesis
    by (auto simp: check_KU_mode_bit_def)
qed

end
