(* ===== verification/Props_Devices.thy ===== *)
theory Props_Devices
  imports Machine
begin

text \<open>
  The properties of the interrupt handlers: the completion of a device operation, the clock, the
  end of a time slice, and the order in which pending interrupts are served.
\<close>

section \<open>Device operations\<close>

text \<open>Process 0 waits for the device with semaphore \<open>i\<close>, and process 1 runs.\<close>

lemma io_machine:
  assumes "i \<le> 48"
  shows "\<exists>s :: kstate. kinv s [1] [] [2..<MAXPROC] ((\<lambda>_. [])(device_sem i s := [0])) ((\<lambda>_. [])(0 := [1])) \<and>
     currentP s = Some 1 \<and> mem s (device_sem i s) = -1"
proof -
  from created_machine obtain s0 :: kstate where
    s0: "kinv s0 [0] [1] [2..<MAXPROC] (\<lambda>_. []) ((\<lambda>_. [])(0 := [1]))" "currentP s0 = Some 0" "semdFree_h s0 = Some 2"
    by blast
  let ?a = "device_sem i s0" let ?s0 = "poke ?a 0 s0"
  have k: "kinv ?s0 [0] [1] [2..<MAXPROC] (\<lambda>_. []) ((\<lambda>_. [])(0 := [1]))" by (rule kinv_poke [OF s0(1)]) simp
  note l = layout_addrs [OF kinvD(5) [OF s0(1)]]
  have "INTERVALTMR < RAMSTART" by (simp add: INTERVALTMR_def RAMSTART_def)
  then have d: "in_devs ?s0 ?a" "?a \<noteq> lastSemd ?s0" "?a \<noteq> INTERVALTMR" "sint (mem ?s0 ?a - 1) < 0"
    using l(4,5) [OF assms] l(6) [OF _ assms] by (simp_all add: in_devs_def)
  from P_block_inv [OF k _ _ d(2-4)] d(1) s0(2,3) obtain s1 :: kstate where
    s1: "kinv (s1\<lparr>softBlock_count := softBlock_count s1 + 1\<rparr>) [] [1] [2..<MAXPROC] ((\<lambda>_. [])(?a := [0])) ((\<lambda>_. [])(0 := [1]))"
      "quiet (poke ?a (mem ?s0 ?a - 1) ?s0) s1" by auto
  let ?s1 = "s1\<lparr>softBlock_count := softBlock_count s1 + 1\<rparr>"
  from kst_scheduler_run [OF kinvD(1) [OF s1(1)]] obtain s2 :: kstate where
    s2: "kst s2 [1] [] [2..<MAXPROC] ((\<lambda>_. [])(?a := [0])) ((\<lambda>_. [])(0 := [1]))" "currentP s2 = Some 1" "quiet ?s1 s2"
    by blast
  have "mem s2 ?a = -1" "device_sem i s2 = ?a" using quietD(6,12) [OF s2(3)] quietD(6,12) [OF s1(2)] by simp_all
  then show ?thesis using kinv_quiet [OF s2(3) s1(1) s2(1)] s2(2) by (intro exI [of _ s2]) simp
qed

lemma upd_dev_sel [simp]:
  "mem (upd_dev r g s) = mem s" "pcbs (upd_dev r g s) = pcbs s" "currentP (upd_dev r g s) = currentP s"
  "devregs (upd_dev r g s) = (devregs s)(r := g (devregs s r))" "bios (upd_dev r g s) = bios s"
  by (simp_all add: upd_dev_def)

text \<open>Both handlers, once the register \<open>reg\<close> has been read and acknowledged.\<close>

lemma io_completion:
  assumes "kst s cur rd fr Q K" "counts s fr Q" "layout s" "i \<le> 48" "a = device_sem i s"
    and "sint (mem s a + 1) \<le> 0" "Q a = p # ps"
  shows "\<exists>s1. complete_io st (upd_bios (set_reg R_a1 a) (upd_dev reg g s)) = resume s1 \<and>
     kst s1 cur (rd @ [p]) fr (Q(a := ps)) K \<and> counts s1 fr (Q(a := ps)) \<and> currentP s1 = currentP s \<and>
     p_s (pcbs s1 p) = set_reg R_v0 st (p_s (pcbs s p)) \<and> (\<forall>i. i \<noteq> p \<longrightarrow> p_s (pcbs s1 i) = p_s (pcbs s i)) \<and>
     mem s1 = (mem s)(a := mem s a + 1) \<and> devregs s1 = (devregs s)(reg := g (devregs s reg))"
proof -
  let ?s = "upd_bios (set_reg R_a1 a) (upd_dev reg g s)"
  have k: "kst ?s cur rd fr Q K" "counts ?s fr Q" using assms(1,2) by simp_all
  have a: "a = s_reg (bios ?s) R_a1" "in_devs ?s a" "NULL \<noteq> lastSemd ?s"
    using layout_addrs(5) [OF assms(3,4)] layout_addrs(1) [OF assms(3)] assms(5) by (simp_all add: in_devs_def)
  have m: "sint (mem ?s a + 1) \<le> 0" using assms(6) by simp
  from complete_io_wake [OF k a m assms(7), of st] show ?thesis by auto
qed

lemma io_nobody:
  assumes "kst s cur rd fr Q K" "layout s" "i \<le> 48" "a = device_sem i s" "0 < sint (mem s a + 1) \<or> Q a = []"
  shows "complete_io st (upd_bios (set_reg R_a1 a) (upd_dev reg g s)) =
     resume (poke a (mem s a + 1) (upd_bios (set_reg R_a1 a) (upd_dev reg g s)))"
proof -
  let ?s = "upd_bios (set_reg R_a1 a) (upd_dev reg g s)"
  have "kst ?s cur rd fr Q K" "a = s_reg (bios ?s) R_a1" using assms(1) by simp_all
  moreover have "a \<noteq> lastSemd ?s" using layout_addrs(4) [OF assms(2,3)] assms(4) by simp
  moreover have "0 < sint (mem ?s a + 1) \<or> Q a = []" using assms(5) by simp
  ultimately show ?thesis using complete_io_idle [of ?s cur rd fr Q K a st] by simp
qed

text \<open>C16: When a device that is not a terminal completes an operation a process waits for, the handler
  acknowledges the interrupt, raises the semaphore of that device, and wakes the process that has waited
  longest: it joins the end of the ready queue with the status of the device in \<open>v0\<close>, and the soft block
  count drops by one. Then the interrupted process goes on (\<open>resume\<close>).\<close>

theorem device_completion:
  assumes "kst s cur rd fr Q K" "counts s fr Q" "layout s" "3 \<le> l" "l < 7" "d < 8"
    and "reg = devAddrBase (of_nat l) (of_nat d)" "a = device_sem (devSemIdx (of_nat l) (of_nat d) FALSE) s"
    and "sint (mem s a + 1) \<le> 0" "Q a = p # ps"
  shows "\<exists>s1. helper_non_terminal_device (of_nat l) (of_nat d) s = resume s1 \<and>
     kst s1 cur (rd @ [p]) fr (Q(a := ps)) K \<and> counts s1 fr (Q(a := ps)) \<and> currentP s1 = currentP s \<and>
     p_s (pcbs s1 p) = set_reg R_v0 (d_status (devregs s reg)) (p_s (pcbs s p)) \<and>
     (\<forall>i. i \<noteq> p \<longrightarrow> p_s (pcbs s1 i) = p_s (pcbs s i)) \<and> mem s1 = (mem s)(a := mem s a + 1) \<and>
     devregs s1 = (devregs s)(reg := (devregs s reg)\<lparr>d_command := ACK\<rparr>)"
  using device_index(1) [of l d] assms(4-6) io_completion [OF assms(1-3) _ assms(8-10)]
  unfolding non_terminal_eval assms(7,8) [symmetric] by simp

theorem device_completion_witness:
  "\<exists>(s :: kstate) s1. currentP s = Some 1 \<and> helper_non_terminal_device 6 0 s = Some (LDST (bios s1), s1) \<and>
     kst s1 [1] [0] [2..<MAXPROC] (\<lambda>_. []) ((\<lambda>_. [])(0 := [1])) \<and>
     s_reg (p_s (pcbs s1 0)) R_v0 = d_status (devregs s (devAddrBase 6 0))"
proof -
  have i: "devSemIdx 6 0 FALSE \<le> 48" by code_simp
  from io_machine [OF this] obtain s :: kstate where
    s: "kinv s [1] [] [2..<MAXPROC] ((\<lambda>_. [])(device_sem (devSemIdx 6 0 FALSE) s := [0])) ((\<lambda>_. [])(0 := [1]))"
      "currentP s = Some 1" "mem s (device_sem (devSemIdx 6 0 FALSE) s) = -1" by blast
  from device_completion [OF kinvD(1,2,5) [OF s(1)] _ _ _ refl refl, where l = 6 and d = 0 and p = 0 and ps = "[]"] s(2,3)
  show ?thesis by (rule_tac exI [of _ s]) (fastforce simp: resume_def fun_upd_Nil)
qed

text \<open>C17: A terminal is two devices behind one interrupt. When a character has been received
  (\<open>r\<close> is not 0) the handler takes the status of the receiver, acknowledges the receiver and serves
  the process that waits to read; otherwise it takes the status of the transmitter, acknowledges
  that and serves the process that waits to write. The two have different semaphores.\<close>

theorem terminal_completion:
  assumes "kst s cur rd fr Q K" "counts s fr Q" "layout s" "d < 8" "r = TRUE \<or> r = FALSE"
    and "reg = devAddrBase 7 (of_nat d)" "a = device_sem (devSemIdx 7 (of_nat d) r) s"
    and "sint (mem s a + 1) \<le> 0" "Q a = p # ps"
  shows "\<exists>s1. helper_terminal_device 7 (of_nat d) r s = resume s1 \<and>
     kst s1 cur (rd @ [p]) fr (Q(a := ps)) K \<and> counts s1 fr (Q(a := ps)) \<and> currentP s1 = currentP s \<and>
     p_s (pcbs s1 p) = set_reg R_v0
       (if r = TRUE then t_recv_status (devregs s reg) else t_transm_status (devregs s reg)) (p_s (pcbs s p)) \<and>
     (\<forall>i. i \<noteq> p \<longrightarrow> p_s (pcbs s1 i) = p_s (pcbs s i)) \<and> mem s1 = (mem s)(a := mem s a + 1) \<and>
     devregs s1 = (devregs s)(reg := (if r = TRUE then t_recv_command_update (\<lambda>_. ACK) (devregs s reg)
        else t_transm_command_update (\<lambda>_. ACK) (devregs s reg))) \<and>
     device_sem (devSemIdx 7 (of_nat d) TRUE) s \<noteq> device_sem (devSemIdx 7 (of_nat d) FALSE) s"
proof -
  have i: "devSemIdx 7 (of_nat d) FALSE \<le> 48" "devSemIdx 7 (of_nat d) TRUE \<le> 48"
    using device_index [of 7 d] assms(4) by simp_all
  then have le: "devSemIdx 7 (of_nat d) r \<le> 48" using assms(5) by auto
  have "devSemIdx 7 (of_nat d) TRUE \<noteq> devSemIdx 7 (of_nat d) FALSE"
    by (simp add: devSemIdx_def TRUE_def FALSE_def)
  with i have "device_sem (devSemIdx 7 (of_nat d) TRUE) s \<noteq> device_sem (devSemIdx 7 (of_nat d) FALSE) s"
    by (simp add: layout_addrs(7) [OF assms(3)])
  then show ?thesis
    using assms(5) io_completion [OF assms(1-3) le assms(7-9)]
    unfolding terminal_eval assms(6,7) [symmetric] by (auto simp: TRUE_def FALSE_def)
qed

theorem terminal_completion_witness:
  "\<exists>(s :: kstate) s1. currentP s = Some 1 \<and> helper_terminal_device 7 0 TRUE s = Some (LDST (bios s1), s1) \<and>
     kst s1 [1] [0] [2..<MAXPROC] (\<lambda>_. []) ((\<lambda>_. [])(0 := [1])) \<and>
     s_reg (p_s (pcbs s1 0)) R_v0 = t_recv_status (devregs s (devAddrBase 7 0))"
proof -
  have i: "devSemIdx 7 0 TRUE \<le> 48" by code_simp
  from io_machine [OF this] obtain s :: kstate where
    s: "kinv s [1] [] [2..<MAXPROC] ((\<lambda>_. [])(device_sem (devSemIdx 7 0 TRUE) s := [0])) ((\<lambda>_. [])(0 := [1]))"
      "currentP s = Some 1" "mem s (device_sem (devSemIdx 7 0 TRUE) s) = -1" by blast
  from terminal_completion [OF kinvD(1,2,5) [OF s(1)] _ _ refl refl, where r = TRUE and d = 0 and p = 0 and ps = "[]"] s(2,3)
  show ?thesis by (rule_tac exI [of _ s]) (fastforce simp: resume_def fun_upd_Nil)
qed

text \<open>C18: An interrupt of a device that nobody waits for corrupts the process it interrupts: the
  handler passes the address of the semaphore to \<open>helper_verhogen\<close> in the \<open>a1\<close> of the saved state,
  and that is the state it resumes. The process goes on with another \<open>a1\<close> than it had.\<close>

theorem interrupt_clobbers_a1:
  assumes "kst s [c] rd fr Q K" "layout s" "currentP s = Some c" "3 \<le> l" "l < 7" "d < 8"
    and "a = device_sem (devSemIdx (of_nat l) (of_nat d) FALSE) s" "Q a = []"
  shows "\<exists>s'. helper_non_terminal_device (of_nat l) (of_nat d) s = Some (LDST (set_reg R_a1 a (bios s)), s') \<and>
     currentP s' = Some c \<and> mem s' = (mem s)(a := mem s a + 1) \<and> (\<forall>rd fr Q K. kst s' [c] rd fr Q K = kst s [c] rd fr Q K)"
proof -
  have i: "devSemIdx (of_nat l) (of_nat d) FALSE \<le> 48" using device_index(1) [of l d] assms(4-6) by simp
  have n: "0 < sint (mem s a + 1) \<or> Q a = []" using assms(8) by simp
  from io_nobody [OF assms(1,2) i assms(7) n] show ?thesis
    unfolding non_terminal_eval assms(7) [symmetric]
    by (intro exI [of _ "poke a (mem s a + 1) (upd_bios (set_reg R_a1 a)
        (upd_dev (devAddrBase (of_nat l) (of_nat d)) (d_command_update (\<lambda>_. ACK)) s))"]) (simp add: resume_def assms(3))
qed

theorem interrupt_clobbers_a1_witness:
  "\<exists>s'. helper_non_terminal_device 6 0 booted = Some (LDST (set_reg R_a1 0x20010060 (bios booted)), s')"
proof -
  have "devSemIdx (of_nat 6) (of_nat 0) FALSE = (24 :: u32)" by code_simp
  then have "0x20010060 = device_sem (devSemIdx (of_nat 6) (of_nat 0) FALSE) booted" by (simp add: booted_addrs)
  from interrupt_clobbers_a1 [OF kinvD(1,5) [OF booted_kinv] booted_fields(1) _ _ _ this] show ?thesis by auto
qed

section \<open>The clock and the time slice\<close>

text \<open>C19: A clock tick wakes every process that waits for the clock: they join the ready queue in the
  order in which they have waited, none of them stays blocked, the semaphore is reset to 0, and the
  interval timer is loaded for the next 100 ms. Then the interrupted process goes on.\<close>

theorem clock_tick:
  assumes "kst s cur rd fr Q K" "counts s fr Q" "layout s"
  shows "\<exists>s1. pseudo_clock_interrupts s = resume s1 \<and>
     kst s1 cur (rd @ Q (device_sem 48 s)) fr (Q(device_sem 48 s := [])) K \<and>
     counts s1 fr (Q(device_sem 48 s := [])) \<and> dframe s s1 \<and>
     mem s1 = (mem s)(INTERVALTMR := 100000 * mem s TIMESCALEADDR, device_sem 48 s := 0)"
  using tick_spec [OF assms] .

theorem clock_tick_witness:
  "\<exists>(s :: kstate) s1. currentP s = Some 1 \<and> pseudo_clock_interrupts s = Some (LDST (bios s), s1) \<and>
     kst s1 [1] [0] [2..<MAXPROC] (\<lambda>_. []) ((\<lambda>_. [])(0 := [1])) \<and> softBlock_count s1 = 0"
proof -
  from io_machine [of 48] obtain s :: kstate where
    s: "kinv s [1] [] [2..<MAXPROC] ((\<lambda>_. [])(device_sem 48 s := [0])) ((\<lambda>_. [])(0 := [1]))" "currentP s = Some 1"
    by auto
  from clock_tick [OF kinvD(1,2,5) [OF s(1)]] obtain s1 where
    "pseudo_clock_interrupts s = resume s1" "kst s1 [1] [0] [2..<MAXPROC] (\<lambda>_. []) ((\<lambda>_. [])(0 := [1]))"
    "counts s1 [2..<MAXPROC] (\<lambda>_. [])" "dframe s s1" by (auto simp: fun_upd_Nil)
  with s(2) show ?thesis
    by (intro exI [of _ s] exI [of _ s1]) (simp add: resume_def dframe_def counts_def waiting_def)
qed

text \<open>C20: At the end of its time slice the running process goes to the end of the ready queue with its
  state saved, and the next one runs. The slice is not charged to it: the timer is reloaded before it
  is read, so its time grows only by what the timer counts between these two statements.\<close>

theorem slice_end:
  assumes "kst s [c] rd fr Q K" "counts s fr Q" "currentP s = Some c"
  shows "\<exists>s1 e s'. process_local_timer_interrupts s = Some (e, s') \<and> dispatched s1 e s' (rd @ [c]) fr Q K \<and>
     p_s (pcbs s1 c) = bios s \<and> p_time (pcbs s1 c) = p_time (pcbs s c) + plt_lag s (plt_reads s) \<and>
     (\<forall>i. i \<noteq> c \<longrightarrow> p_s (pcbs s1 i) = p_s (pcbs s i) \<and> p_time (pcbs s1 i) = p_time (pcbs s i))"
proof -
  from slice_end_spec [OF assms] obtain s1 e s' where
    "process_local_timer_interrupts s = Some (e, s')" "quiet (preempted c s) s1" "dispatched s1 e s' (rd @ [c]) fr Q K"
    by blast
  then show ?thesis
    by (intro exI [of _ s1] exI [of _ e] exI [of _ s']) (simp add: quietD(1,2) [of _ s1] preempted_def upd_pcb_sel)
qed

theorem slice_end_witness:
  "\<exists>s'. process_local_timer_interrupts booted = Some (LDST (bios booted), s') \<and> currentP s' = Some 0"
proof -
  from slice_end [OF kinvD(1,2) [OF booted_kinv] booted_fields(1)] show ?thesis
    by (auto simp: dispatched_def)
qed

text \<open>C21: The interrupt that is served is the one with the highest priority: the lowest line that has
  one (the slice timer, the clock, then the device lines 3 to 7), and on a device line the lowest
  device. A device line without a device to serve is passed over, and without any the interrupted
  process just goes on.\<close>

theorem interrupt_priority:
  "interrupt_exception_handler s =
     (case find (line_pending s) [1..<8] of
        None \<Rightarrow> resume s
      | Some l \<Rightarrow> if l = 1 then process_local_timer_interrupts s
          else if l = 2 then pseudo_clock_interrupts s
          else do {
            d \<leftarrow> find (device_pending l s) [0..<8];
            if l \<noteq> 7 then helper_non_terminal_device (of_nat l) (of_nat d) s
            else helper_terminal_device 7 (of_nat d)
              (if d_status (devregs s (devAddrBase 7 (of_nat d))) AND 0xFF = 5 then TRUE else FALSE) s
          })"
  unfolding handler_find serve_line_def serve_device_def ..

end
