(* ===== verification/P1test.thy ===== *)
theory P1test
  imports Kernel
begin

text \<open>
  \<^verbatim>\<open>phase1/p1test.c\<close>: the program that tests the tables of phase 1. It is modelled with its calls, its
  messages and the polling of the terminal. A test that fails prints a message and ends in \<open>PANIC\<close>; \<open>k\<close> is the
  part of the program that follows. The theorems say that on the operations of \<open>Pcb\<close> and \<open>Asl\<close> no
  test fails.
\<close>

section \<open>State and messages\<close>

text \<open>\<open>sem\<close> is the address of the array of semaphores and \<open>onesem\<close> that of a single one; \<open>okbuf\<close> has the
  characters before \<open>mp\<close>. The status register of the terminal changes on its own: \<open>term_status n\<close> is the value
  of its \<open>n\<close>-th reading, and \<open>term_cmds\<close> are the commands written to it.\<close>

record p1mem = aslmem +
  okbuf :: string
  errbuf :: string
  sem :: u32
  onesem :: u32
  procp :: "nat \<Rightarrow> ptr"
  term_status :: "nat \<Rightarrow> u32"
  term_reads :: nat
  term_cmds :: "u32 list"

definition TRANSMITTED :: u32 where "TRANSMITTED = 5"
definition CHAROFFSET :: nat where "CHAROFFSET = 8"
definition STATUSMASK :: u32 where "STATUSMASK = 0xFF"
definition BUSY :: u32 where "BUSY = 3"

definition termstat :: "'a p1mem_scheme \<Rightarrow> u32 \<times> 'a p1mem_scheme" where
  "termstat s = (term_status s (term_reads s) AND STATUSMASK, s\<lparr>term_reads := Suc (term_reads s)\<rparr>)"

partial_function (option) busy_wait :: "'a p1mem_scheme \<Rightarrow> (u32 \<times> 'a p1mem_scheme) option" where
  "busy_wait s = (let (stat, s) = termstat s in if stat = BUSY then busy_wait s else Some (stat, s))"

text \<open>The print cycle; it returns \<open>error\<close>.\<close>

fun print_cycle :: "string \<Rightarrow> 'a p1mem_scheme \<Rightarrow> (bool \<times> 'a p1mem_scheme) option" where
  "print_cycle [] s = Some (False, s)"
| "print_cycle (c # str) s = do {
     let s = s\<lparr>term_cmds := term_cmds s @ [push_bit CHAROFFSET (of_char c) OR PRINTCHR]\<rparr>;
     (stat, s) \<leftarrow> busy_wait s;
     if stat \<noteq> TRANSMITTED then Some (True, s) else print_cycle str s
   }"

definition termprint :: "string \<Rightarrow> nat \<Rightarrow> 'a p1mem_scheme \<Rightarrow> (u32 \<times> 'a p1mem_scheme) option" where
  "termprint str term s = do {
     (error, s) \<leftarrow>
       (if term < DEVPERINT then
          (let (stat, s) = termstat s
           in if stat = READY \<or> stat = TRANSMITTED then print_cycle str s else Some (True, s))
        else Some (True, s));
     Some (if error then FALSE else TRUE, s)
   }"

text \<open>\<open>okbuf\<close> has room for 2048 characters, with the one that ends the string.\<close>

definition addokbuf :: "string \<Rightarrow> 'a p1mem_scheme \<Rightarrow> 'a p1mem_scheme option" where
  "addokbuf strp s =
     (if 2048 \<le> length (okbuf s) + length strp then None
      else do {
        let s = s\<lparr>okbuf := okbuf s @ strp\<rparr>;
        (_, s) \<leftarrow> termprint strp 0 s;
        Some s
      })"

type_synonym 's outcome = "(exit option \<times> 's) option"

definition adderrbuf :: "string \<Rightarrow> 'a p1mem_scheme \<Rightarrow> 'a p1mem_scheme outcome" where
  "adderrbuf strp s =
     (if 128 \<le> length strp then None
      else do {
        let s = s\<lparr>errbuf := strp\<rparr>;
        (_, s) \<leftarrow> termprint strp 0 s;
        Some (Some PANIC, s)
      })"

text \<open>A message that ends with a newline.\<close>

definition line :: "string \<Rightarrow> string" where
  "line msg = msg @ [CHR 0x0A]"

section \<open>The pool and the queues\<close>

fun p1_alloc :: "nat list \<Rightarrow> ('a p1mem_scheme \<Rightarrow> 'a p1mem_scheme outcome) \<Rightarrow> 'a p1mem_scheme \<Rightarrow> 'a p1mem_scheme outcome" where
  "p1_alloc [] k s = k s"
| "p1_alloc (i # is) k s = do {
     (p, s) \<leftarrow> allocPcb s;
     let s = s\<lparr>procp := (procp s)(i := p)\<rparr>;
     if procp s i = None then adderrbuf ''allocPcb: unexpected NULL   '' s
     else p1_alloc is k s
   }"

fun p1_free :: "nat list \<Rightarrow> 'a p1mem_scheme \<Rightarrow> 'a p1mem_scheme option" where
  "p1_free [] s = Some s"
| "p1_free (i # is) s = do { s \<leftarrow> freePcb (procp s i) s; p1_free is s }"

definition p1_pool :: "('a p1mem_scheme \<Rightarrow> 'a p1mem_scheme outcome) \<Rightarrow> 'a p1mem_scheme \<Rightarrow> 'a p1mem_scheme outcome" where
  "p1_pool k s = do {
     let s = initPcbs s;
     s \<leftarrow> addokbuf (line ''Initialized process control blocks   '') s;
     p1_alloc [0..<MAXPROC] (\<lambda>s. do {
       (p, s) \<leftarrow> allocPcb s;
       if p \<noteq> None then adderrbuf ''allocPcb: allocated more than MAXPROC entries   '' s
       else do {
         s \<leftarrow> addokbuf (line ''allocPcb ok   '') s;
         s \<leftarrow> p1_free [10..<MAXPROC] s;
         s \<leftarrow> addokbuf (line ''freed 10 entries   '') s;
         k s
       }
     }) s
   }"

text \<open>The loop that fills the queue passes on its tail and the three pcbs it remembers.\<close>

fun p1_insert :: "nat list \<Rightarrow> (ptr \<Rightarrow> ptr \<Rightarrow> ptr \<Rightarrow> ptr \<Rightarrow> 'a p1mem_scheme \<Rightarrow> 'a p1mem_scheme outcome) \<Rightarrow>
    ptr \<Rightarrow> ptr \<Rightarrow> ptr \<Rightarrow> ptr \<Rightarrow> 'a p1mem_scheme \<Rightarrow> 'a p1mem_scheme outcome" where
  "p1_insert [] k qa firstproc midproc lastproc s = k qa firstproc midproc lastproc s"
| "p1_insert (i # is) k qa firstproc midproc lastproc s = do {
     (q, s) \<leftarrow> allocPcb s;
     if q = None then adderrbuf ''allocPcb: unexpected NULL while insert   '' s
     else do {
       let firstproc = (if i = 0 then q else firstproc);
       let midproc = (if i = 5 then q else midproc);
       let lastproc = (if i = 9 then q else lastproc);
       (qa, s) \<leftarrow> insertProcQ qa q s;
       p1_insert is k qa firstproc midproc lastproc s
     }
   }"

fun p1_remove :: "nat list \<Rightarrow> (ptr \<Rightarrow> ptr \<Rightarrow> 'a p1mem_scheme \<Rightarrow> 'a p1mem_scheme outcome) \<Rightarrow>
    ptr \<Rightarrow> ptr \<Rightarrow> 'a p1mem_scheme \<Rightarrow> 'a p1mem_scheme outcome" where
  "p1_remove [] k qa q s = k qa q s"
| "p1_remove (i # is) k qa q s = do {
     (q, qa, s) \<leftarrow> removeProcQ qa s;
     if q = None then adderrbuf ''removeProcQ: unexpected NULL   '' s
     else do { s \<leftarrow> freePcb q s; p1_remove is k qa q s }
   }"

definition p1_drain :: "('a p1mem_scheme \<Rightarrow> 'a p1mem_scheme outcome) \<Rightarrow> ptr \<Rightarrow> ptr \<Rightarrow> ptr \<Rightarrow>
    'a p1mem_scheme \<Rightarrow> 'a p1mem_scheme outcome" where
  "p1_drain k lastproc qa q s = do {
     s \<leftarrow> addokbuf (line ''Removing...   '') s;
     p1_remove [0..<8] (\<lambda>qa q s.
       if q \<noteq> lastproc then adderrbuf ''removeProcQ: failed on last entry   '' s
       else do {
         (q, qa, s) \<leftarrow> removeProcQ qa s;
         if q \<noteq> None then adderrbuf ''removeProcQ: removes too many entries   '' s
         else if \<not> emptyProcQ qa then adderrbuf ''emptyProcQ: unexpected FALSE   '' s
         else do {
           s \<leftarrow> addokbuf (line ''insertProcQ, removeProcQ and emptyProcQ ok   '') s;
           s \<leftarrow> addokbuf (line ''process queues module ok      '') s;
           k s
         }
       }) qa q s
   }"

definition p1_queues :: "('a p1mem_scheme \<Rightarrow> 'a p1mem_scheme outcome) \<Rightarrow> 'a p1mem_scheme \<Rightarrow> 'a p1mem_scheme outcome" where
  "p1_queues k s =
     (let qa = None
      in if \<not> emptyProcQ qa then adderrbuf ''emptyProcQ: unexpected FALSE   '' s
         else do {
           s \<leftarrow> addokbuf (line ''Inserting...   '') s;
           p1_insert [0..<10] (\<lambda>qa firstproc midproc lastproc s. do {
             s \<leftarrow> addokbuf (line ''inserted 10 elements   '') s;
             if emptyProcQ qa then adderrbuf ''emptyProcQ: unexpected TRUE'' s
             else do {
               hd \<leftarrow> headProcQ qa s;
               if hd \<noteq> firstproc then adderrbuf ''headProcQ failed   '' s
               else do {
                 (q, qa, s) \<leftarrow> outProcQ qa firstproc s;
                 if q = None \<or> q \<noteq> firstproc then adderrbuf ''outProcQ failed on first entry   '' s
                 else do {
                   s \<leftarrow> freePcb q s;
                   (q, qa, s) \<leftarrow> outProcQ qa midproc s;
                   if q = None \<or> q \<noteq> midproc then adderrbuf ''outProcQ failed on middle entry   '' s
                   else do {
                     s \<leftarrow> freePcb q s;
                     (out, qa, s) \<leftarrow> outProcQ qa (procp s 0) s;
                     if out \<noteq> None then adderrbuf ''outProcQ failed on nonexistent entry   '' s
                     else do {
                       s \<leftarrow> addokbuf (line ''outProcQ ok   '') s;
                       p1_drain k lastproc qa q s
                     }
                   }
                 }
               }
             }
           }) qa None None None s
         })"

section \<open>The trees\<close>

fun p1_children :: "nat list \<Rightarrow> 'a p1mem_scheme \<Rightarrow> 'a p1mem_scheme option" where
  "p1_children [] s = Some s"
| "p1_children (i # is) s = do { s \<leftarrow> insertChild (procp s 0) (procp s i) s; p1_children is s }"

fun p1_orphan :: "nat list \<Rightarrow> ('a p1mem_scheme \<Rightarrow> 'a p1mem_scheme outcome) \<Rightarrow> 'a p1mem_scheme \<Rightarrow> 'a p1mem_scheme outcome" where
  "p1_orphan [] k s = k s"
| "p1_orphan (i # is) k s = do {
     (q, s) \<leftarrow> removeChild (procp s 0) s;
     if q = None then adderrbuf ''removeChild: unexpected NULL   '' s else p1_orphan is k s
   }"

definition p1_remove_children :: "('a p1mem_scheme \<Rightarrow> 'a p1mem_scheme outcome) \<Rightarrow> 'a p1mem_scheme \<Rightarrow> 'a p1mem_scheme outcome" where
  "p1_remove_children k s = do {
     s \<leftarrow> addokbuf (line ''Removing...   '') s;
     p1_orphan [0..<7] (\<lambda>s. do {
       (q, s) \<leftarrow> removeChild (procp s 0) s;
       if q \<noteq> None then adderrbuf ''removeChild: removes too many children   '' s
       else do {
         e \<leftarrow> emptyChild (procp s 0) s;
         if \<not> e then adderrbuf ''emptyChild: unexpected FALSE   '' s
         else do {
           s \<leftarrow> addokbuf (line ''insertChild, removeChild and emptyChild ok   '') s;
           s \<leftarrow> addokbuf (line ''process tree module ok      '') s;
           s \<leftarrow> p1_free [0..<10] s;
           k s
         }
       }
     }) s
   }"

definition p1_trees :: "('a p1mem_scheme \<Rightarrow> 'a p1mem_scheme outcome) \<Rightarrow> 'a p1mem_scheme \<Rightarrow> 'a p1mem_scheme outcome" where
  "p1_trees k s = do {
     s \<leftarrow> addokbuf (line ''checking process trees...'') s;
     e \<leftarrow> emptyChild (procp s 2) s;
     if \<not> e then adderrbuf ''emptyChild: unexpected FALSE   '' s
     else do {
       s \<leftarrow> addokbuf (line ''Inserting...   '') s;
       s \<leftarrow> p1_children [1..<10] s;
       s \<leftarrow> addokbuf (line ''Inserted 9 children   '') s;
       e \<leftarrow> emptyChild (procp s 0) s;
       if e then adderrbuf ''emptyChild: unexpected TRUE   '' s
       else do {
         (q, s) \<leftarrow> outChild (procp s 1) s;
         if q = None \<or> q \<noteq> procp s 1 then adderrbuf ''outChild failed on first child   '' s
         else do {
           (q, s) \<leftarrow> outChild (procp s 4) s;
           if q = None \<or> q \<noteq> procp s 4 then adderrbuf ''outChild failed on middle child   '' s
           else do {
             (q, s) \<leftarrow> outChild (procp s 0) s;
             if q \<noteq> None then adderrbuf ''outChild failed on nonexistent child   '' s
             else do {
               s \<leftarrow> addokbuf (line ''outChild ok   '') s;
               p1_remove_children k s
             }
           }
         }
       }
     }
   }"

section \<open>The semaphores\<close>

text \<open>\<open>&sem[i]\<close>.\<close>

definition sem_at :: "nat \<Rightarrow> 'a p1mem_scheme \<Rightarrow> u32" where
  "sem_at i s = sem s + 4 * of_nat i"

fun p1_block :: "string \<Rightarrow> nat list \<Rightarrow> ('a p1mem_scheme \<Rightarrow> 'a p1mem_scheme outcome) \<Rightarrow> 'a p1mem_scheme \<Rightarrow> 'a p1mem_scheme outcome" where
  "p1_block msg [] k s = k s"
| "p1_block msg (i # is) k s = do {
     (p, s) \<leftarrow> allocPcb s;
     let s = s\<lparr>procp := (procp s)(i := p)\<rparr>;
     (full, s) \<leftarrow> insertBlocked (sem_at i s) (procp s i) s;
     if full \<noteq> 0 then adderrbuf msg s else p1_block msg is k s
   }"

fun p1_move :: "nat list \<Rightarrow> ('a p1mem_scheme \<Rightarrow> 'a p1mem_scheme outcome) \<Rightarrow> 'a p1mem_scheme \<Rightarrow> 'a p1mem_scheme outcome" where
  "p1_move [] k s = k s"
| "p1_move (i # is) k s = do {
     (q, s) \<leftarrow> removeBlocked (sem_at i s) s;
     if q = None then adderrbuf ''removeBlocked: wouldn't remove   '' s
     else if q \<noteq> procp s i then adderrbuf ''removeBlocked: removed wrong element   '' s
     else do {
       (full, s) \<leftarrow> insertBlocked (sem_at (i - 10) s) q s;
       if full \<noteq> 0 then adderrbuf ''insertBlocked(3): unexpected TRUE   '' s else p1_move is k s
     }
   }"

definition p1_heads :: "('a p1mem_scheme \<Rightarrow> 'a p1mem_scheme outcome) \<Rightarrow> 'a p1mem_scheme \<Rightarrow> 'a p1mem_scheme outcome" where
  "p1_heads k s = do {
     q \<leftarrow> headBlocked (sem_at 11 s) s;
     if q \<noteq> None then adderrbuf ''headBlocked: nonNULL for a nonexistent queue   '' s
     else do {
       q \<leftarrow> headBlocked (sem_at 9 s) s;
       if q = None then adderrbuf ''headBlocked(1): NULL for an existent queue   '' s
       else if q \<noteq> procp s 9 then adderrbuf ''headBlocked(1): wrong process returned   '' s
       else do {
         (p, s) \<leftarrow> outBlocked q s;
         if p \<noteq> q then adderrbuf ''outBlocked(1): couldn't remove from valid queue'' s
         else do {
           q \<leftarrow> headBlocked (sem_at 9 s) s;
           if q = None then adderrbuf ''headBlocked(2): NULL for an existent queue   '' s
           else if q \<noteq> procp s 19 then adderrbuf ''headBlocked(2): wrong process returned   '' s
           else do {
             (p, s) \<leftarrow> outBlocked q s;
             if p \<noteq> q then adderrbuf ''outBlocked(2): couldn't remove from valid queue   '' s
             else do {
               (p, s) \<leftarrow> outBlocked q s;
               if p \<noteq> None then adderrbuf ''outBlocked: removed same process twice.'' s
               else do {
                 q \<leftarrow> headBlocked (sem_at 9 s) s;
                 if q \<noteq> None then adderrbuf ''out/headBlocked: unexpected nonempty queue   '' s
                 else do {
                   s \<leftarrow> addokbuf (line ''headBlocked and outBlocked ok   '') s;
                   s \<leftarrow> addokbuf (line ''ASL module ok   '') s;
                   k s
                 }
               }
             }
           }
         }
       }
     }
   }"

definition p1_sems :: "('a p1mem_scheme \<Rightarrow> 'a p1mem_scheme outcome) \<Rightarrow> 'a p1mem_scheme \<Rightarrow> 'a p1mem_scheme outcome" where
  "p1_sems k s = do {
     s \<leftarrow> initASL s;
     s \<leftarrow> addokbuf (line ''Initialized active semaphore list   '') s;
     s \<leftarrow> addokbuf (line ''insertBlocked test #1 started  '') s;
     p1_block ''insertBlocked(1): unexpected TRUE   '' [10..<MAXPROC] (\<lambda>s. do {
       s \<leftarrow> addokbuf (line ''insertBlocked test #2 started  '') s;
       p1_block ''insertBlocked(2): unexpected TRUE   '' [0..<10] (\<lambda>s. do {
         (p, s) \<leftarrow> removeBlocked (sem_at 11 s) s;
         (full, s) \<leftarrow> insertBlocked (sem_at 11 s) p s;
         if full \<noteq> 0 then adderrbuf ''removeBlocked: fails to return to free list   '' s
         else do {
           (full, s) \<leftarrow> insertBlocked (onesem s) (procp s 9) s;
           if full = FALSE then adderrbuf ''insertBlocked: inserted more than MAXPROC   '' s
           else do {
             s \<leftarrow> addokbuf (line ''removeBlocked test started   '') s;
             p1_move [10..<MAXPROC] (\<lambda>s. do {
               (q, s) \<leftarrow> removeBlocked (sem_at 11 s) s;
               if q \<noteq> None then adderrbuf ''removeBlocked: removed nonexistent blocked proc   '' s
               else do {
                 s \<leftarrow> addokbuf (line ''insertBlocked and removeBlocked ok'') s;
                 p1_heads k s
               }
             }) s
           }
         }
       }) s
     }) s
   }"

definition p1_main :: "'a p1mem_scheme \<Rightarrow> 'a p1mem_scheme outcome" where
  "p1_main = p1_pool (p1_queues (p1_trees (p1_sems (\<lambda>s. do {
     s \<leftarrow> addokbuf (line ''So Long and Thanks for All the Fish'') s;
     Some (None, s)
   }))))"

end
