(* ===== verification/P1run.thy ===== *)
theory P1run
  imports P1test Boot
begin

text \<open>
  The test program of phase 1 runs through: each of its parts hands over to the next one (\<open>k\<close>), on the
  free list, the queue, the children and the semaphores that the specifications of \<open>Pcb\<close> and \<open>Asl\<close> give.
\<close>

section \<open>The terminal\<close>

text \<open>The terminal becomes ready again, and the buffer has room for \<open>n\<close> more characters.\<close>

definition talks :: "nat \<Rightarrow> 'a p1mem_scheme \<Rightarrow> bool" where
  "talks n s \<longleftrightarrow> (\<forall>i. \<exists>j\<ge>i. term_status s j AND STATUSMASK \<noteq> BUSY) \<and> length (okbuf s) + n < 2048"

definition polled :: "'a p1mem_scheme \<Rightarrow> 'a p1mem_scheme \<Rightarrow> bool" where
  "polled s s' \<longleftrightarrow> (\<exists>n c. s' = s\<lparr>term_reads := n, term_cmds := c\<rparr>)"

definition said :: "string \<Rightarrow> 'a p1mem_scheme \<Rightarrow> 'a p1mem_scheme \<Rightarrow> bool" where
  "said msg s s' \<longleftrightarrow> polled (s\<lparr>okbuf := okbuf s @ msg\<rparr>) s'"

lemma polledI: "polled s s" "polled s (s\<lparr>term_reads := n\<rparr>)" "polled s (s\<lparr>term_cmds := c\<rparr>)"
proof -
  have "s = s\<lparr>term_reads := term_reads s, term_cmds := term_cmds s\<rparr>"
    "s\<lparr>term_reads := n\<rparr> = s\<lparr>term_reads := n, term_cmds := term_cmds s\<rparr>"
    "s\<lparr>term_cmds := c\<rparr> = s\<lparr>term_reads := term_reads s, term_cmds := c\<rparr>" by simp_all
  then show "polled s s" "polled s (s\<lparr>term_reads := n\<rparr>)" "polled s (s\<lparr>term_cmds := c\<rparr>)"
    unfolding polled_def by blast+
qed

lemma polled_trans: "polled s s' \<Longrightarrow> polled s' s'' \<Longrightarrow> polled s s''"
  unfolding polled_def by (elim exE, rule exI, rule exI) simp

lemma polled_fields: "polled s s' \<Longrightarrow> term_status s' = term_status s \<and> okbuf s' = okbuf s"
  by (auto simp: polled_def)

lemma talks_le: "talks m s \<Longrightarrow> n \<le> m \<Longrightarrow> talks n s"
  by (simp add: talks_def)

lemma length_line [simp]: "length (line m) = Suc (length m)"
  by (simp add: line_def)

lemma busy_wait_ends:
  assumes "term_status s (term_reads s + n) AND STATUSMASK \<noteq> BUSY"
  shows "\<exists>r s'. busy_wait s = Some (r, s') \<and> polled s s'"
  using assms
proof (induction n arbitrary: s)
  case 0
  then show ?case by (subst busy_wait.simps) (auto simp: termstat_def intro: polledI)
next
  case (Suc n)
  let ?t = "s\<lparr>term_reads := Suc (term_reads s)\<rparr>"
  show ?case
  proof (cases "term_status s (term_reads s) AND STATUSMASK = BUSY")
    case True
    obtain r s' where "busy_wait ?t = Some (r, s')" "polled ?t s'" using Suc.IH [of ?t] Suc.prems by auto
    with True show ?thesis using polled_trans [OF polledI(2)]
      by (subst busy_wait.simps) (auto simp: termstat_def)
  next
    case False
    then show ?thesis by (subst busy_wait.simps) (auto simp: termstat_def intro: polledI)
  qed
qed

lemma print_cycle_ends:
  "(\<forall>i. \<exists>j\<ge>i. term_status s j AND STATUSMASK \<noteq> BUSY) \<Longrightarrow> \<exists>e s'. print_cycle str s = Some (e, s') \<and> polled s s'"
proof (induction str arbitrary: s)
  case (Cons a str)
  let ?s = "s\<lparr>term_cmds := term_cmds s @ [push_bit CHAROFFSET (of_char a) OR PRINTCHR]\<rparr>"
  obtain j where "term_reads s \<le> j" "term_status s j AND STATUSMASK \<noteq> BUSY" using Cons.prems by blast
  then have "term_status ?s (term_reads ?s + (j - term_reads s)) AND STATUSMASK \<noteq> BUSY" by simp
  from busy_wait_ends [OF this] obtain r t where w: "busy_wait ?s = Some (r, t)" "polled ?s t" by blast
  note p = polled_trans [OF polledI(3) w(2)]
  have "\<forall>i. \<exists>j\<ge>i. term_status t j AND STATUSMASK \<noteq> BUSY" using Cons.prems polled_fields [OF p] by simp
  then obtain e s' where "print_cycle str t = Some (e, s')" "polled t s'" using Cons.IH by blast
  then show ?case using w(1) p polled_trans [OF p] by (cases "r = TRANSMITTED") auto
qed (simp add: polledI exI [of _ False])

lemma termprint_ends:
  assumes "\<forall>i. \<exists>j\<ge>i. term_status s j AND STATUSMASK \<noteq> BUSY"
  shows "\<exists>r s'. termprint str 0 s = Some (r, s') \<and> polled s s'"
proof -
  let ?t = "s\<lparr>term_reads := Suc (term_reads s)\<rparr>" and ?st = "term_status s (term_reads s) AND STATUSMASK"
  have "\<forall>i. \<exists>j\<ge>i. term_status ?t j AND STATUSMASK \<noteq> BUSY" using assms by simp
  from print_cycle_ends [OF this] obtain e s' where c: "print_cycle str ?t = Some (e, s')" "polled ?t s'" by blast
  show ?thesis
  proof (cases "?st = READY \<or> ?st = TRANSMITTED")
    case True
    then show ?thesis using c(1) polled_trans [OF polledI(2) c(2)]
      by (intro exI conjI) (auto simp: termprint_def termstat_def DEVPERINT_def)
  next
    case False
    then have "termprint str 0 s = Some (FALSE, ?t)" by (simp add: termprint_def termstat_def DEVPERINT_def)
    then show ?thesis using polledI(2) by blast
  qed
qed

lemma addokbuf_ok:
  assumes "talks n s" "length msg \<le> n"
  shows "\<exists>s'. addokbuf msg s = Some s' \<and> said msg s s' \<and> talks (n - length msg) s'"
proof -
  let ?s = "s\<lparr>okbuf := okbuf s @ msg\<rparr>"
  have "\<forall>i. \<exists>j\<ge>i. term_status ?s j AND STATUSMASK \<noteq> BUSY" using assms(1) by (simp add: talks_def)
  from termprint_ends [OF this] obtain r s' where p: "termprint msg 0 ?s = Some (r, s')" "polled ?s s'" by blast
  then have "addokbuf msg s = Some s'" using assms by (simp add: addokbuf_def talks_def)
  moreover have "talks (n - length msg) s'" using assms polled_fields [OF p(2)] by (simp add: talks_def)
  ultimately show ?thesis using p(2) by (auto simp: said_def)
qed

section \<open>What the operations leave alone\<close>

text \<open>\<open>stays A s s'\<close>: nothing has changed but the tables, and of the pcbs only those in \<open>A\<close>.\<close>

definition stays :: "nat set \<Rightarrow> 'a p1mem_scheme \<Rightarrow> 'a p1mem_scheme \<Rightarrow> bool" where
  "stays A s s' \<longleftrightarrow> (\<forall>q. q \<notin> A \<longrightarrow> pcbs s' q = pcbs s q) \<and> okbuf s' = okbuf s \<and> sem s' = sem s \<and> onesem s' = onesem s \<and>
     term_status s' = term_status s \<and> semdTable_addr s' = semdTable_addr s"

lemma p1_more:
  assumes "aslmem.more s' = aslmem.more s"
  shows "okbuf s' = okbuf s" "sem s' = sem s" "onesem s' = onesem s" "term_status s' = term_status s" "procp s' = procp s"
  using assms by (cases s; cases s'; simp)+

lemma stays_refl [simp]: "stays A s s"
  by (simp add: stays_def)

lemma stays_then: "stays A s s' \<Longrightarrow> stays B s' s'' \<Longrightarrow> stays (A \<union> B) s s''"
  by (simp add: stays_def)

lemma stays_mono: "stays A s s' \<Longrightarrow> A \<subseteq> B \<Longrightarrow> stays B s s'"
  by (auto simp: stays_def)

lemma stays_talks: "stays A s s' \<Longrightarrow> talks n s' = talks n s"
  by (simp add: stays_def talks_def)

lemma stays_procp [simp]: "stays A s (t\<lparr>procp := f\<rparr>) = stays A s t" "stays A (s\<lparr>procp := f\<rparr>) t = stays A s t"
  by (simp_all add: stays_def)

text \<open>The addresses of the semaphores and of the table of descriptors.\<close>

definition addrs :: "'a p1mem_scheme \<Rightarrow> u32 \<times> u32 \<times> u32" where
  "addrs s = (sem s, onesem s, semdTable_addr s)"

lemma stays_addrs: "stays A s s' \<Longrightarrow> addrs s' = addrs s \<and> okbuf s' = okbuf s"
  by (simp add: stays_def addrs_def)

lemma said_fields:
  assumes "said msg s s'"
  shows "pcbs s' = pcbs s" "pcbFree_h s' = pcbFree_h s" "semds s' = semds s" "semdFree_h s' = semdFree_h s"
    "semd_h s' = semd_h s" "semdTable_addr s' = semdTable_addr s" "sem s' = sem s" "onesem s' = onesem s" "procp s' = procp s"
    "okbuf s' = okbuf s @ msg" "addrs s' = addrs s"
  using assms by (auto simp: said_def polled_def addrs_def)

lemma said_tables:
  assumes "said msg s s'"
  shows "pcbFree s' fl = pcbFree s fl" "procQ s' tp xs = procQ s tp xs" "children s' p xs = children s p xs"
    "asl s' h ds t fl Q = asl s h ds t fl Q"
  using said_fields [OF assms] by (simp_all add: pcbFree_def procQ_def children_def asl_def lastSemd_def)

lemma pframe_trans: "pframe A s s' \<Longrightarrow> pframe B s' s'' \<Longrightarrow> pframe (A \<union> B) s s''"
  by (auto simp: pframe_def)

lemma pframe_mono: "pframe A s s' \<Longrightarrow> A \<subseteq> B \<Longrightarrow> pframe B s s'"
  by (auto simp: pframe_def)

lemma qframe_pframe: "qframe A s s' \<Longrightarrow> pframe A s s'"
  by (auto simp: qframe_def pframe_def setq_def)

lemma pframe_stays: "pframe A s s' \<Longrightarrow> stays A s s' \<and> procp s' = procp s"
  unfolding pframe_def stays_def by (metis pcb_more_asl(4,5) p1_more)

lemma pframe_free: "pframe A s s' \<Longrightarrow> pcbFree_h s' = pcbFree_h s \<Longrightarrow> A \<inter> set fl = {} \<Longrightarrow> pcbFree s' fl = pcbFree s fl"
  unfolding pcbFree_def by (subst chain_cong [of fl "pnext s'" "pnext s"]) (auto simp: pframe_def)

lemma pframe_pcb: "pframe A s s' \<Longrightarrow> i \<notin> A \<Longrightarrow> pcbs s' i = pcbs s i"
  by (simp add: pframe_def)

section \<open>The pool\<close>

lemma procp_tables [simp]:
  "pcbFree (s\<lparr>procp := f\<rparr>) fl = pcbFree s fl" "procQ (s\<lparr>procp := f\<rparr>) tp xs = procQ s tp xs"
  "children (s\<lparr>procp := f\<rparr>) p xs = children s p xs" "asl (s\<lparr>procp := f\<rparr>) h ds t fs Q = asl s h ds t fs Q"
  "talks n (s\<lparr>procp := f\<rparr>) = talks n s"
  by (simp_all add: pcbFree_def procQ_def children_def asl_def lastSemd_def talks_def)

lemma p1_alloc_ok:
  "pcbFree s (ps @ fl) \<Longrightarrow> length ps = length is \<Longrightarrow> distinct is \<Longrightarrow>
   \<exists>s'. (\<forall>k. p1_alloc is k s = k s') \<and> pcbFree s' fl \<and> (\<forall>p\<in>set ps. pcbs s' p = fresh_pcb) \<and>
     map (procp s') is = map Some ps \<and> (\<forall>j. j \<notin> set is \<longrightarrow> procp s' j = procp s j) \<and> stays (set ps) s s'"
proof (induction "is" arbitrary: s ps)
  case (Cons i "is")
  then obtain p ps' where ps: "ps = p # ps'" by (cases ps) auto
  with Cons.prems(1) obtain t where t: "allocPcb s = Some (Some p, t)" "pcbFree t (ps' @ fl)" "pcbs t p = fresh_pcb" "pframe {p} s t"
    using allocPcb_spec [of s p "ps' @ fl"] by auto
  let ?t = "t\<lparr>procp := (procp t)(i := Some p)\<rparr>"
  have k: "stays {p} s ?t" "procp t = procp s" using pframe_stays [OF t(4)] by simp_all
  have "pcbFree ?t (ps' @ fl)" "length ps' = length is" "distinct is" using t(2) Cons.prems(2,3) ps by simp_all
  from Cons.IH [OF this] obtain s' where s': "\<forall>k. p1_alloc is k ?t = k s'" "pcbFree s' fl" "\<forall>p\<in>set ps'. pcbs s' p = fresh_pcb"
      "map (procp s') is = map Some ps'" "\<forall>j. j \<notin> set is \<longrightarrow> procp s' j = procp ?t j" "stays (set ps') ?t s'" by blast
  have "p \<notin> set ps'" using Cons.prems(1) ps by (auto simp: pcbFree_def)
  then have "pcbs s' p = fresh_pcb" using s'(6) t(3) by (simp add: stays_def)
  moreover have "stays (set ps) s s'" using stays_then [OF k(1) s'(6)] ps by simp
  moreover have "procp s' i = Some p" using s'(5) Cons.prems(3) by simp
  moreover have "\<forall>k. p1_alloc (i # is) k s = k s'" using s'(1) t(1) by simp
  moreover have "\<forall>j. j \<notin> set (i # is) \<longrightarrow> procp s' j = procp s j" using s'(5) k(2) by simp
  ultimately show ?case using s'(2-4) ps by (intro exI [of _ s']) simp
qed auto

lemma p1_free_ok:
  "pcbFree s fl \<Longrightarrow> \<forall>i\<in>set is. procp s i = Some (f i) \<Longrightarrow> distinct (map f is) \<Longrightarrow> set (map f is) \<inter> set fl = {} \<Longrightarrow>
   \<exists>s'. p1_free is s = Some s' \<and> pcbFree s' (rev (map f is) @ fl) \<and> stays (set (map f is)) s s' \<and> procp s' = procp s"
proof (induction "is" arbitrary: s fl)
  case (Cons i "is")
  have "f i \<notin> set fl" using Cons.prems(4) by simp
  from freePcb_spec [OF Cons.prems(1) this] obtain t where
    t: "freePcb (Some (f i)) s = Some t" "pcbFree t (f i # fl)" "pframe {f i} s t" by blast
  note k = pframe_stays [OF t(3)]
  have "\<exists>s'. p1_free is t = Some s' \<and> pcbFree s' (rev (map f is) @ f i # fl) \<and> stays (set (map f is)) t s' \<and> procp s' = procp t"
    by (rule Cons.IH) (use t(2) k Cons.prems in auto)
  then obtain s' where s': "p1_free is t = Some s'" "pcbFree s' (rev (map f is) @ f i # fl)" "stays (set (map f is)) t s'"
    "procp s' = procp t" by blast
  have "stays (set (map f (i # is))) s s'" using stays_then [OF conjunct1 [OF k] s'(3)] by simp
  then show ?case using s' t(1) k Cons.prems(2) by simp
qed simp

lemma p1_pool_ok:
  assumes "talks 2000 s"
  shows "\<exists>s'. (\<forall>k. p1_pool k s = k s') \<and> pcbFree s' (rev [10..<20]) \<and> (\<forall>i<20. procp s' i = Some i) \<and>
     (\<forall>i<10. pcbs s' i = fresh_pcb) \<and> talks 1900 s' \<and> addrs s' = addrs s \<and>
     okbuf s' = okbuf s @ line ''Initialized process control blocks   '' @ line ''allocPcb ok   '' @ line ''freed 10 entries   ''"
proof -
  have i: "stays UNIV s (initPcbs s)" using initPcbs_more [of s] unfolding stays_def by (metis UNIV_I pcb_more_asl(4,5) p1_more)
  then have "talks 2000 (initPcbs s)" using assms stays_talks by blast
  from addokbuf_ok [OF this, of "line ''Initialized process control blocks   ''"] obtain s1 where
    s1: "addokbuf (line ''Initialized process control blocks   '') (initPcbs s) = Some s1"
      "said (line ''Initialized process control blocks   '') (initPcbs s) s1" "talks 1962 s1" by auto
  have "pcbFree s1 ([0..<20] @ [])" using initPcbs_spec [of s] said_tables(1) [OF s1(2)] by (simp add: MAXPROC_def)
  from p1_alloc_ok [OF this, of "[0..<20]"] obtain s2 where
    s2: "\<forall>k. p1_alloc [0..<20] k s1 = k s2" "pcbFree s2 []" "\<forall>p\<in>set [0..<20]. pcbs s2 p = fresh_pcb"
      "map (procp s2) [0..<20] = map Some [0..<20]" "stays (set [0..<20]) s1 s2" by auto
  have "talks 1962 s2" using stays_talks [OF s2(5)] s1(3) by blast
  from addokbuf_ok [OF this, of "line ''allocPcb ok   ''"] obtain s3 where
    s3: "addokbuf (line ''allocPcb ok   '') s2 = Some s3" "said (line ''allocPcb ok   '') s2 s3" "talks 1947 s3" by auto
  have p: "\<forall>i<20. procp s3 i = Some i" using s2(4) unfolding map_eq_conv said_fields(9) [OF s3(2)] by simp
  have "\<exists>s'. p1_free [10..<20] s3 = Some s' \<and> pcbFree s' (rev (map id [10..<20]) @ []) \<and> stays (set (map id [10..<20])) s3 s' \<and>
      procp s' = procp s3"
    using s2(2) p by (intro p1_free_ok) (simp_all add: said_tables(1) [OF s3(2)] del: upt_Suc)
  then obtain s4 where s4: "p1_free [10..<20] s3 = Some s4" "pcbFree s4 (rev [10..<20])" "stays (set [10..<20]) s3 s4" "procp s4 = procp s3"
    by (auto simp del: upt_Suc)
  have "talks 1947 s4" using stays_talks [OF s4(3)] s3(3) by blast
  from addokbuf_ok [OF this, of "line ''freed 10 entries   ''"] obtain s5 where
    s5: "addokbuf (line ''freed 10 entries   '') s4 = Some s5" "said (line ''freed 10 entries   '') s4 s5" "talks 1927 s5" by auto
  have "\<forall>k. p1_pool k s = k s5"
    using s1(1) s2(1) allocPcb_empty [OF s2(2)] s3(1) s4(1) s5(1) by (simp add: p1_pool_def MAXPROC_def Let_def del: upt_Suc p1_free.simps p1_alloc.simps)
  moreover have "pcbs s5 i = fresh_pcb" if "i < 10" for i
    using s2(3) s4(3) that by (simp add: said_fields(1) [OF s5(2)] said_fields(1) [OF s3(2)] stays_def)
  moreover have "talks 1900 s5" using s5(3) by (simp add: talks_def)
  moreover have "addrs s5 = addrs s"
    using stays_addrs [OF i] stays_addrs [OF s2(5)] stays_addrs [OF s4(3)] by (simp add: said_fields(11) [OF s5(2)]
      said_fields(11) [OF s3(2)] said_fields(11) [OF s1(2)])
  moreover have "okbuf s5 = okbuf s @ line ''Initialized process control blocks   '' @ line ''allocPcb ok   '' @ line ''freed 10 entries   ''"
    using stays_addrs [OF i] stays_addrs [OF s2(5)] stays_addrs [OF s4(3)] by (simp add: said_fields(10) [OF s5(2)]
      said_fields(10) [OF s3(2)] said_fields(10) [OF s1(2)])
  ultimately show ?thesis using s4(2,4) p said_tables(1) [OF s5(2)] said_fields(9) [OF s5(2)]
    by (intro exI [of _ s5]) (simp del: upt_Suc)
qed

section \<open>The queues\<close>

definition pick :: "nat \<Rightarrow> ptr \<Rightarrow> nat list \<Rightarrow> nat list \<Rightarrow> ptr" where
  "pick j d is ps = fold (\<lambda>(i, p) d. if i = j then Some p else d) (zip is ps) d"

lemma qframe_stays: "qframe A s s' \<Longrightarrow> stays A s s' \<and> procp s' = procp s"
  by (rule pframe_stays [OF qframe_pframe])

lemma p1_insert_ok:
  "pcbFree s (ps @ fl) \<Longrightarrow> procQ s qa xs \<Longrightarrow> set xs \<inter> set (ps @ fl) = {} \<Longrightarrow> length ps = length is \<Longrightarrow>
   \<exists>qa' s'. (\<forall>k. p1_insert is k qa f m l s = k qa' (pick 0 f is ps) (pick 5 m is ps) (pick 9 l is ps) s') \<and>
     procQ s' qa' (xs @ ps) \<and> pcbFree s' fl \<and> stays (set xs \<union> set ps) s s' \<and> procp s' = procp s"
proof (induction "is" arbitrary: s ps xs qa f m l)
  case (Cons i "is")
  then obtain p ps' where ps: "ps = p # ps'" by (cases ps) auto
  with Cons.prems(1) obtain t where t: "allocPcb s = Some (Some p, t)" "pcbFree t (ps' @ fl)" "pframe {p} s t"
    using allocPcb_spec [of s p "ps' @ fl"] by auto
  note kt = pframe_stays [OF t(3)]
  have d: "p \<notin> set (ps' @ fl)" using Cons.prems(1) ps by (auto simp: pcbFree_def)
  have "procQ t qa xs" using Cons.prems(2,3) ps by (subst pframe_procQ [OF t(3)]) auto
  moreover have "p \<notin> set xs" using Cons.prems(3) ps by auto
  ultimately obtain u where u: "insertProcQ qa (Some p) t = Some (Some p, u)" "procQ u (Some p) (xs @ [p])"
      "qframe (insert p (set xs)) t u" using insertProcQ_spec by blast
  note ku = qframe_stays [OF u(3)]
  let ?f = "if i = 0 then Some p else f" and ?m = "if i = 5 then Some p else m" and ?l = "if i = 9 then Some p else l"
  have "pcbFree u (ps' @ fl)" using t(2) Cons.prems(3) d ps by (subst qframe_pcbFree [OF u(3)]) auto
  moreover have "set (xs @ [p]) \<inter> set (ps' @ fl) = {}" using Cons.prems(3) d ps by auto
  moreover have "length ps' = length is" using Cons.prems(4) ps by simp
  ultimately have "\<exists>qa' s'. (\<forall>k. p1_insert is k (Some p) ?f ?m ?l u = k qa' (pick 0 ?f is ps') (pick 5 ?m is ps') (pick 9 ?l is ps') s') \<and>
     procQ s' qa' ((xs @ [p]) @ ps') \<and> pcbFree s' fl \<and> stays (set (xs @ [p]) \<union> set ps') u s' \<and> procp s' = procp u"
    by (rule Cons.IH [OF _ u(2)])
  then obtain qa' s' where s': "\<forall>k. p1_insert is k (Some p) ?f ?m ?l u = k qa' (pick 0 ?f is ps') (pick 5 ?m is ps') (pick 9 ?l is ps') s'"
     "procQ s' qa' ((xs @ [p]) @ ps')" "pcbFree s' fl" "stays (set (xs @ [p]) \<union> set ps') u s'" "procp s' = procp u" by blast
  have pk: "pick j e (i # is) (p # ps') = pick j (if i = j then Some p else e) is ps'" for j e by (simp add: pick_def)
  have "\<forall>k. p1_insert (i # is) k qa f m l s = k qa' (pick 0 f (i # is) ps) (pick 5 m (i # is) ps) (pick 9 l (i # is) ps) s'"
    using s'(1) t(1) u(1) unfolding ps pk by simp
  moreover have "stays (set xs \<union> set ps) s s'"
    using stays_then [OF conjunct1 [OF kt] stays_then [OF conjunct1 [OF ku] s'(4)]] by (rule stays_mono) (auto simp: ps)
  ultimately show ?case using s'(2,3,5) kt ku ps by (intro exI [of _ qa'] exI [of _ s']) simp
next
  case Nil
  then show ?case by (intro exI [of _ qa] exI [of _ s]) (simp add: pick_def)
qed

lemma p1_remove_ok:
  "procQ s qa (ys @ xs) \<Longrightarrow> pcbFree s fl \<Longrightarrow> set (ys @ xs) \<inter> set fl = {} \<Longrightarrow> length ys = length is \<Longrightarrow>
   \<exists>qa' s'. (\<forall>k. p1_remove is k qa q s = k qa' (if ys = [] then q else Some (last ys)) s') \<and>
     procQ s' qa' xs \<and> pcbFree s' (rev ys @ fl) \<and> stays (set (ys @ xs)) s s' \<and> procp s' = procp s"
proof (induction "is" arbitrary: s ys qa q fl)
  case (Cons i "is")
  then obtain y ys' where ys: "ys = y # ys'" by (cases ys) auto
  have dis: "distinct (y # ys' @ xs)" using ring_distinct [OF Cons.prems(1) [unfolded procQ_def ys]] by simp
  from Cons.prems(1) obtain qb t where t: "removeProcQ qa s = Some (Some y, qb, t)" "procQ t qb (ys' @ xs)" "qframe (set (y # ys' @ xs)) s t"
    using removeProcQ_Cons [of s qa y "ys' @ xs"] ys by auto
  note kt = qframe_stays [OF t(3)]
  have "pcbFree t fl" using Cons.prems(2,3) ys by (subst qframe_pcbFree [OF t(3)]) auto
  moreover have "y \<notin> set fl" using Cons.prems(3) ys by auto
  ultimately obtain u where u: "freePcb (Some y) t = Some u" "pcbFree u (y # fl)" "pframe {y} t u" using freePcb_spec by blast
  note ku = pframe_stays [OF u(3)]
  have "procQ u qb (ys' @ xs)" using t(2) dis by (subst pframe_procQ [OF u(3)]) auto
  moreover have "set (ys' @ xs) \<inter> set (y # fl) = {}" using Cons.prems(3) dis ys by auto
  moreover have "length ys' = length is" using Cons.prems(4) ys by simp
  ultimately obtain qa' s' where s': "\<forall>k. p1_remove is k qb (Some y) u = k qa' (if ys' = [] then Some y else Some (last ys')) s'"
      "procQ s' qa' xs" "pcbFree s' (rev ys' @ y # fl)" "stays (set (ys' @ xs)) u s'" "procp s' = procp u"
    using Cons.IH [OF _ u(2)] by blast
  have "\<forall>k. p1_remove (i # is) k qa q s = k qa' (if ys = [] then q else Some (last ys)) s'"
    using s'(1) t(1) u(1) ys by simp
  moreover have "stays (set (ys @ xs)) s s'"
    using stays_then [OF conjunct1 [OF kt] stays_then [OF conjunct1 [OF ku] s'(4)]] by (rule stays_mono) (auto simp: ys)
  ultimately show ?case using s'(2,3,5) kt ku ys by (intro exI [of _ qa'] exI [of _ s']) simp
next
  case Nil
  then show ?case by (intro exI [of _ qa] exI [of _ s]) simp
qed

lemma p1_drain_ok:
  assumes "talks 1820 s" "procQ s qa ys" "length ys = 8" "pcbFree s fl" "set ys \<inter> set fl = {}" "lst = Some (last ys)"
  shows "\<exists>s'. (\<forall>k. p1_drain k lst qa q s = k s') \<and> pcbFree s' (rev ys @ fl) \<and> procp s' = procp s \<and>
     (\<forall>p. p \<notin> set ys \<longrightarrow> pcbs s' p = pcbs s p) \<and> talks 1720 s' \<and> addrs s' = addrs s \<and>
     okbuf s' = okbuf s @ line ''Removing...   '' @ line ''insertProcQ, removeProcQ and emptyProcQ ok   '' @
       line ''process queues module ok      ''"
proof -
  from addokbuf_ok [OF assms(1), of "line ''Removing...   ''"] obtain s1 where
    s1: "addokbuf (line ''Removing...   '') s = Some s1" "said (line ''Removing...   '') s s1" "talks 1805 s1" by auto
  note f1 = said_fields [OF s1(2)]
  have "procQ s1 qa (ys @ [])" "pcbFree s1 fl" "set (ys @ []) \<inter> set fl = {}" "length ys = length [0..<8]"
    using assms(2-5) said_tables [OF s1(2)] by simp_all
  from p1_remove_ok [OF this, of q] obtain qa' s2 where
    s2: "\<forall>k. p1_remove [0..<8] k qa q s1 = k qa' (if ys = [] then q else Some (last ys)) s2"
      "procQ s2 qa' []" "pcbFree s2 (rev ys @ fl)" "stays (set (ys @ [])) s1 s2" "procp s2 = procp s1" by blast
  have "talks 1805 s2" using stays_talks [OF s2(4)] s1(3) by blast
  from addokbuf_ok [OF this, of "line ''insertProcQ, removeProcQ and emptyProcQ ok   ''"] obtain s3 where
    s3: "addokbuf (line ''insertProcQ, removeProcQ and emptyProcQ ok   '') s2 = Some s3"
      "said (line ''insertProcQ, removeProcQ and emptyProcQ ok   '') s2 s3" "talks 1759 s3" by auto
  from addokbuf_ok [OF s3(3), of "line ''process queues module ok      ''"] obtain s4 where
    s4: "addokbuf (line ''process queues module ok      '') s3 = Some s4"
      "said (line ''process queues module ok      '') s3 s4" "talks 1728 s4" by auto
  note f3 = said_fields [OF s3(2)] and f4 = said_fields [OF s4(2)]
  have e: "qa' = None" using s2(2) by (simp add: procQ_def)
  have "ys \<noteq> []" using assms(3) by auto
  then have "\<forall>k. p1_drain k lst qa q s = k s4"
    using s1(1) s2(1) s3(1) s4(1) assms(6) removeProcQ_Nil [OF s2(2)]
    by (simp add: p1_drain_def e emptyProcQ_def del: p1_remove.simps)
  moreover have "talks 1720 s4" using s4(3) by (simp add: talks_def)
  moreover have "\<forall>p. p \<notin> set ys \<longrightarrow> pcbs s4 p = pcbs s p" using s2(4) by (simp add: f4(1) f3(1) f1(1) stays_def)
  ultimately show ?thesis using s2(3,5) stays_addrs [OF s2(4)] said_tables(1) [OF s4(2)] said_tables(1) [OF s3(2)]
    by (intro exI [of _ s4]) (simp add: f1(9-11) f3(9-11) f4(9-11))
qed

lemma p1_queues_ok:
  assumes "talks 1900 s" "pcbFree s (rev [10..<20])" "procp s 0 = Some 0"
  shows "\<exists>s'. (\<forall>k. p1_queues k s = k s') \<and> pcbFree s' [10, 11, 12, 13, 15, 16, 17, 18, 14, 19] \<and> procp s' = procp s \<and>
     (\<forall>p<10. pcbs s' p = pcbs s p) \<and> talks 1720 s' \<and> addrs s' = addrs s \<and>
     okbuf s' = okbuf s @ line ''Inserting...   '' @ line ''inserted 10 elements   '' @ line ''outProcQ ok   '' @ line ''Removing...   '' @
       line ''insertProcQ, removeProcQ and emptyProcQ ok   '' @ line ''process queues module ok      ''"
proof -
  let ?ps = "[19, 18, 17, 16, 15, 14, 13, 12, 11, 10]"
  have r: "rev [10..<20] = ?ps" by simp
  from addokbuf_ok [OF assms(1), of "line ''Inserting...   ''"] obtain s1 where
    s1: "addokbuf (line ''Inserting...   '') s = Some s1" "said (line ''Inserting...   '') s s1" "talks 1884 s1" by auto
  note f1 = said_fields [OF s1(2)]
  have "pcbFree s1 (?ps @ [])" "procQ s1 None []" "set [] \<inter> set (?ps @ []) = {}" "length ?ps = length [0..<10]"
    using assms(2) unfolding r by (simp_all add: said_tables [OF s1(2)] procQ_def)
  note ins = p1_insert_ok [OF this, of None None None]
  have pk: "pick 0 None [0..<10] ?ps = Some 19" "pick 5 None [0..<10] ?ps = Some 14" "pick 9 None [0..<10] ?ps = Some 10"
    by code_simp+
  from ins [unfolded pk] obtain qa s2 where
    s2: "\<forall>k. p1_insert [0..<10] k None None None None s1 = k qa (Some 19) (Some 14) (Some 10) s2"
      "procQ s2 qa ?ps" "pcbFree s2 []" "stays (set ?ps) s1 s2" "procp s2 = procp s1"
    by (auto simp del: p1_insert.simps)
  have "talks 1884 s2" using stays_talks [OF s2(4)] s1(3) by blast
  from addokbuf_ok [OF this, of "line ''inserted 10 elements   ''"] obtain s3 where
    s3: "addokbuf (line ''inserted 10 elements   '') s2 = Some s3" "said (line ''inserted 10 elements   '') s2 s3" "talks 1860 s3" by auto
  note f3 = said_fields [OF s3(2)]
  have q3: "procQ s3 qa ?ps" "pcbFree s3 []" using s2(2,3) said_tables [OF s3(2)] by simp_all
  have ne: "\<not> emptyProcQ qa" "emptyProcQ None" using q3(1) by (cases qa; simp add: procQ_def emptyProcQ_def)+
  have h: "headProcQ qa s3 = Some (Some 19)" using headProcQ_spec [OF q3(1)] by simp
  obtain qb s4 where s4: "outProcQ qa (Some 19) s3 = Some (Some 19, qb, s4)" "procQ s4 qb [18, 17, 16, 15, 14, 13, 12, 11, 10]"
      "qframe (set ?ps) s3 s4" using outProcQ_present [OF q3(1), of 19] by auto
  have "pcbFree s4 []" using q3(2) by (subst qframe_pcbFree [OF s4(3)]) simp_all
  from freePcb_spec [OF this, of 19] obtain s5 where s5: "freePcb (Some 19) s4 = Some s5" "pcbFree s5 [19]" "pframe {19} s4 s5" by auto
  have "procQ s5 qb [18, 17, 16, 15, 14, 13, 12, 11, 10]" using s4(2) by (subst pframe_procQ [OF s5(3)]) simp_all
  from outProcQ_present [OF this, of 14] obtain qc s6 where
    s6: "outProcQ qb (Some 14) s5 = Some (Some 14, qc, s6)" "procQ s6 qc [18, 17, 16, 15, 13, 12, 11, 10]"
      "qframe {18, 17, 16, 15, 14, 13, 12, 11, 10} s5 s6" by auto
  have "pcbFree s6 [19]" using s5(2) by (subst qframe_pcbFree [OF s6(3)]) simp_all
  from freePcb_spec [OF this, of 14] obtain s7 where s7: "freePcb (Some 14) s6 = Some s7" "pcbFree s7 [14, 19]" "pframe {14} s6 s7" by auto
  have q7: "procQ s7 qc [18, 17, 16, 15, 13, 12, 11, 10]" using s6(2) by (subst pframe_procQ [OF s7(3)]) simp_all
  note k = stays_then [OF stays_then [OF conjunct1 [OF qframe_stays [OF s4(3)]] conjunct1 [OF pframe_stays [OF s5(3)]]]
      stays_then [OF conjunct1 [OF qframe_stays [OF s6(3)]] conjunct1 [OF pframe_stays [OF s7(3)]]]]
  have p7: "procp s7 = procp s" using qframe_stays [OF s4(3)] pframe_stays [OF s5(3)] qframe_stays [OF s6(3)] pframe_stays [OF s7(3)]
      s2(5) f1(9) f3(9) by simp
  have o: "outProcQ qc (Some 0) s7 = Some (None, qc, s7)" by (rule outProcQ_absent [OF q7]) simp
  have "talks 1860 s7" using stays_talks [OF k] s3(3) by blast
  from addokbuf_ok [OF this, of "line ''outProcQ ok   ''"] obtain s8 where
    s8: "addokbuf (line ''outProcQ ok   '') s7 = Some s8" "said (line ''outProcQ ok   '') s7 s8" "talks 1845 s8" by auto
  note f8 = said_fields [OF s8(2)]
  have "talks 1820 s8" using s8(3) by (simp add: talks_def)
  moreover have "procQ s8 qc [18, 17, 16, 15, 13, 12, 11, 10]" "pcbFree s8 [14, 19]" using q7 s7(2) said_tables [OF s8(2)] by simp_all
  ultimately obtain s' where s': "\<forall>k. p1_drain k (Some 10) qc (Some 14) s8 = k s'"
      "pcbFree s' (rev [18, 17, 16, 15, 13, 12, 11, 10] @ [14, 19])" "procp s' = procp s8"
      "\<forall>p. p \<notin> set [18, 17, 16, 15, 13, 12, 11, 10] \<longrightarrow> pcbs s' p = pcbs s8 p" "talks 1720 s'" "addrs s' = addrs s8"
      "okbuf s' = okbuf s8 @ line ''Removing...   '' @ line ''insertProcQ, removeProcQ and emptyProcQ ok   '' @
       line ''process queues module ok      ''"
    using p1_drain_ok [of s8 qc "[18, 17, 16, 15, 13, 12, 11, 10]" "[14, 19]" "Some 10" "Some 14"] by auto
  have "\<forall>k. p1_queues k s = k s'"
    using s1(1) s2(1) s3(1) ne h s4(1) s5(1) s6(1) s7(1) o s8(1) s'(1) assms(3) p7
    by (simp add: p1_queues_def Let_def del: p1_insert.simps)
  moreover have "\<forall>p<10. pcbs s' p = pcbs s p" using s'(4) k s2(4) by (simp add: f1(1) f3(1) f8(1) stays_def)
  ultimately show ?thesis using s'(2,3,5-7) stays_addrs [OF k] stays_addrs [OF s2(4)] p7
    by (intro exI [of _ s']) (simp add: f1(9-11) f3(9-11) f8(9-11))
qed

section \<open>The trees\<close>

text \<open>\<open>tonly s s'\<close>: only the trees have changed, and not the parent of pcb 0.\<close>

definition tonly :: "'a p1mem_scheme \<Rightarrow> 'a p1mem_scheme \<Rightarrow> bool" where
  "tonly s s' \<longleftrightarrow> (\<forall>fl. pcbFree s' fl = pcbFree s fl) \<and> stays UNIV s s' \<and> procp s' = procp s \<and> pprnt s' 0 = pprnt s 0"

lemma tonly_trans: "tonly s s' \<Longrightarrow> tonly s' s'' \<Longrightarrow> tonly s s''"
  by (simp add: tonly_def stays_def)

lemma tframe_tonly: "tframe C A s s' \<Longrightarrow> 0 \<notin> A \<Longrightarrow> tonly s s'"
proof -
  assume t: "tframe C A s s'" and 0: "0 \<notin> A"
  have "pcbmem.more s' = pcbmem.more s" using tframe_pcb(8) [OF t] .
  then have "stays UNIV s s'" "procp s' = procp s" unfolding stays_def by (metis UNIV_I pcb_more_asl(4,5) p1_more)+
  then show ?thesis using tframe_pcbFree [OF t] tframe_links [OF t] 0 by (simp add: tonly_def)
qed

lemma p1_children_ok:
  "children s 0 xs \<Longrightarrow> procp s 0 = Some 0 \<Longrightarrow> \<forall>i\<in>set is. procp s i = Some i \<Longrightarrow> distinct (xs @ is) \<Longrightarrow> 0 \<notin> set (xs @ is) \<Longrightarrow>
   \<exists>s'. p1_children is s = Some s' \<and> children s' 0 (xs @ is) \<and> tonly s s'"
proof (induction "is" arbitrary: s xs)
  case (Cons i "is")
  have "i \<notin> set xs" using Cons.prems(4) by simp
  from insertChild_spec [OF Cons.prems(1) this] obtain t where
    t: "insertChild (Some 0) (Some i) s = Some t" "children t 0 (xs @ [i])" "tframe {0} (insert i (set xs)) s t" by blast
  have y: "tonly s t" using Cons.prems(5) by (intro tframe_tonly [OF t(3)]) simp
  have "\<exists>s'. p1_children is t = Some s' \<and> children s' 0 ((xs @ [i]) @ is) \<and> tonly t s'"
    using Cons.prems y by (intro Cons.IH [OF t(2)]) (simp_all add: tonly_def)
  then show ?case using t(1) Cons.prems(2,3) tonly_trans [OF y] by auto
next
  case Nil
  then show ?case by (intro exI [of _ s]) (simp add: tonly_def)
qed

lemma p1_orphan_ok:
  "children s 0 (ys @ xs) \<Longrightarrow> procp s 0 = Some 0 \<Longrightarrow> 0 \<notin> set (ys @ xs) \<Longrightarrow> length ys = length is \<Longrightarrow>
   \<exists>s'. (\<forall>k. p1_orphan is k s = k s') \<and> children s' 0 xs \<and> tonly s s'"
proof (induction "is" arbitrary: s ys)
  case (Cons i "is")
  then obtain y ys' where ys: "ys = y # ys'" by (cases ys) auto
  with removeChild_Cons [of s 0 y "ys' @ xs"] Cons.prems(1) obtain t where
    t: "removeChild (Some 0) s = Some (Some y, t)" "children t 0 (ys' @ xs)" "tframe {0} (set (y # ys' @ xs)) s t" by auto
  have o: "tonly s t" using Cons.prems(3) ys by (intro tframe_tonly [OF t(3)]) simp
  have "\<exists>s'. (\<forall>k. p1_orphan is k t = k s') \<and> children s' 0 xs \<and> tonly t s'"
    using Cons.prems o ys by (intro Cons.IH [OF t(2)]) (simp_all add: tonly_def)
  then show ?case using t(1) Cons.prems(2) tonly_trans [OF o] by auto
next
  case Nil
  then show ?case by (intro exI [of _ s]) (simp add: tonly_def)
qed

lemma p1_remove_children_ok:
  assumes "talks 1630 s" "children s 0 ys" "length ys = 7" "0 \<notin> set ys" "\<forall>i<10. procp s i = Some i" "pcbFree s fl" "set fl \<inter> {..<10} = {}"
  shows "\<exists>s'. (\<forall>k. p1_remove_children k s = k s') \<and> pcbFree s' (rev [0..<10] @ fl) \<and> procp s' = procp s \<and> talks 1520 s' \<and> addrs s' = addrs s \<and>
     okbuf s' = okbuf s @ line ''Removing...   '' @ line ''insertChild, removeChild and emptyChild ok   '' @
       line ''process tree module ok      ''"
proof -
  from addokbuf_ok [OF assms(1), of "line ''Removing...   ''"] obtain s1 where
    s1: "addokbuf (line ''Removing...   '') s = Some s1" "said (line ''Removing...   '') s s1" "talks 1615 s1" by auto
  note f1 = said_fields [OF s1(2)]
  have "children s1 0 (ys @ [])" "procp s1 0 = Some 0" "0 \<notin> set (ys @ [])" "length ys = length [0..<7]"
    using assms(2-5) by (simp_all add: said_tables [OF s1(2)] f1)
  from p1_orphan_ok [OF this] obtain s2 where s2: "\<forall>k. p1_orphan [0..<7] k s1 = k s2" "children s2 0 []" "tonly s1 s2" by blast
  have p2: "procp s2 = procp s" and k2: "stays UNIV s1 s2" using s2(3) by (simp_all add: tonly_def f1)
  have "talks 1615 s2" using stays_talks [OF k2] s1(3) by blast
  from addokbuf_ok [OF this, of "line ''insertChild, removeChild and emptyChild ok   ''"] obtain s3 where
    s3: "addokbuf (line ''insertChild, removeChild and emptyChild ok   '') s2 = Some s3"
      "said (line ''insertChild, removeChild and emptyChild ok   '') s2 s3" "talks 1569 s3" by auto
  from addokbuf_ok [OF s3(3), of "line ''process tree module ok      ''"] obtain s4 where
    s4: "addokbuf (line ''process tree module ok      '') s3 = Some s4"
      "said (line ''process tree module ok      '') s3 s4" "talks 1540 s4" by auto
  note f3 = said_fields [OF s3(2)] and f4 = said_fields [OF s4(2)]
  have "pcbFree s4 fl" using assms(6) s2(3) by (simp add: said_tables(1) [OF s4(2)] said_tables(1) [OF s3(2)] tonly_def said_tables(1) [OF s1(2)])
  moreover have "\<forall>i\<in>set [0..<10]. procp s4 i = Some (id i)" using assms(5) p2 by (simp add: f4(9) f3(9) del: upt_Suc)
  moreover have "set (map id [0..<10]) \<inter> set fl = {}" using assms(7) by (simp add: atLeast0LessThan Int_commute del: upt_Suc)
  ultimately have "\<exists>s'. p1_free [0..<10] s4 = Some s' \<and> pcbFree s' (rev (map id [0..<10]) @ fl) \<and>
     stays (set (map id [0..<10])) s4 s' \<and> procp s' = procp s4"
    by (intro p1_free_ok) simp_all
  then obtain s5 where s5: "p1_free [0..<10] s4 = Some s5" "pcbFree s5 (rev [0..<10] @ fl)" "stays (set [0..<10]) s4 s5" "procp s5 = procp s4"
    by (auto simp del: upt_Suc)
  have "\<forall>k. p1_remove_children k s = k s5"
    using s1(1) s2(1) s3(1) s4(1) s5(1) removeChild_Nil [OF s2(2)] emptyChild_spec [OF s2(2)] assms(5) p2
    by (simp add: p1_remove_children_def del: p1_orphan.simps p1_free.simps upt_Suc)
  moreover have "talks 1520 s5" using talks_le [OF s4(3), of 1520] stays_talks [OF s5(3)] by simp
  ultimately show ?thesis using s5(2,4) p2 stays_addrs [OF s5(3)] stays_addrs [OF k2]
    by (intro exI [of _ s5]) (simp add: f1(9-11) f3(9-11) f4(9-11) del: upt_Suc)
qed

lemma p1_trees_ok:
  assumes "talks 1720 s" "\<forall>i<20. procp s i = Some i" "\<forall>i<10. pcbs s i = fresh_pcb" "pcbFree s fl" "set fl \<inter> {..<10} = {}"
  shows "\<exists>s'. (\<forall>k. p1_trees k s = k s') \<and> pcbFree s' (rev [0..<10] @ fl) \<and> procp s' = procp s \<and> talks 1520 s' \<and> addrs s' = addrs s \<and>
     okbuf s' = okbuf s @ line ''checking process trees...'' @ line ''Inserting...   '' @ line ''Inserted 9 children   '' @
       line ''outChild ok   '' @ line ''Removing...   '' @ line ''insertChild, removeChild and emptyChild ok   '' @
       line ''process tree module ok      ''"
proof -
  have fr: "children s i []" "pprnt s i = None" if "i < 10" for i using assms(3) that by (simp_all add: children_def fresh_pcb_def)
  from addokbuf_ok [OF assms(1), of "line ''checking process trees...''"] obtain s1 where
    s1: "addokbuf (line ''checking process trees...'') s = Some s1" "said (line ''checking process trees...'') s s1" "talks 1694 s1" by auto
  from addokbuf_ok [OF s1(3), of "line ''Inserting...   ''"] obtain s2 where
    s2: "addokbuf (line ''Inserting...   '') s1 = Some s2" "said (line ''Inserting...   '') s1 s2" "talks 1678 s2" by auto
  note f1 = said_fields [OF s1(2)] and f2 = said_fields [OF s2(2)]
  have e1: "emptyChild (Some 2) s1 = Some True" using emptyChild_spec [of s1 2 "[]"] fr(1) [of 2] by (simp add: said_tables [OF s1(2)])
  have "children s2 0 []" "procp s2 0 = Some 0" "\<forall>i\<in>set [1..<10]. procp s2 i = Some i" "distinct ([] @ [1..<10])" "0 \<notin> set ([] @ [1..<10])"
    using fr(1) [of 0] assms(2) by (simp_all add: said_tables [OF s1(2)] said_tables [OF s2(2)] f1 f2)
  note ins = p1_children_ok [OF this]
  have "[] @ [1..<10] = [1, 2, 3, 4, 5, 6, 7, 8, 9 :: nat]" by code_simp
  from ins [unfolded this] obtain s3 where
    s3: "p1_children [1..<10] s2 = Some s3" "children s3 0 [1, 2, 3, 4, 5, 6, 7, 8, 9]" "tonly s2 s3" by blast
  have "talks 1678 s3" using s2(3) s3(3) stays_talks unfolding tonly_def by blast
  from addokbuf_ok [OF this, of "line ''Inserted 9 children   ''"] obtain s4 where
    s4: "addokbuf (line ''Inserted 9 children   '') s3 = Some s4" "said (line ''Inserted 9 children   '') s3 s4" "talks 1655 s4" by auto
  note f4 = said_fields [OF s4(2)]
  have c4: "children s4 0 [1, 2, 3, 4, 5, 6, 7, 8, 9]" using s3(2) by (simp add: said_tables [OF s4(2)])
  have e4: "emptyChild (Some 0) s4 = Some False" using emptyChild_spec [OF c4] by simp
  obtain s5 where s5: "outChild (Some 1) s4 = Some (Some 1, s5)" "children s5 0 [2, 3, 4, 5, 6, 7, 8, 9]"
      "tframe {0} (set [1, 2, 3, 4, 5, 6, 7, 8, 9]) s4 s5" using outChild_present [OF c4, of 1] by auto
  obtain s6 where s6: "outChild (Some 4) s5 = Some (Some 4, s6)" "children s6 0 [2, 3, 5, 6, 7, 8, 9]"
      "tframe {0} (set [2, 3, 4, 5, 6, 7, 8, 9]) s5 s6" using outChild_present [OF s5(2), of 4] by auto
  have t46: "tonly s4 s6"
    by (rule tonly_trans [OF tframe_tonly [OF s5(3)] tframe_tonly [OF s6(3)]]) simp_all
  have t45: "tonly s4 s5" by (rule tframe_tonly [OF s5(3)]) simp
  have "pprnt s6 0 = None" using t46 s3(3) fr(2) [of 0] by (simp add: tonly_def f4(1) f2(1) f1(1))
  from outChild_orphan [OF this] have o: "outChild (Some 0) s6 = Some (None, s6)" .
  have "talks 1655 s6" using s4(3) t46 stays_talks unfolding tonly_def by blast
  from addokbuf_ok [OF this, of "line ''outChild ok   ''"] obtain s7 where
    s7: "addokbuf (line ''outChild ok   '') s6 = Some s7" "said (line ''outChild ok   '') s6 s7" "talks 1640 s7" by auto
  note f7 = said_fields [OF s7(2)]
  have p: "procp s3 = procp s" "procp s5 = procp s" "procp s6 = procp s" "procp s7 = procp s"
    using t46 t45 s3(3) by (simp_all add: tonly_def f7(9) f4(9) f2(9) f1(9))
  have "pcbFree s7 fl" using assms(4) t46 s3(3) by (simp add: tonly_def said_tables(1) [OF s7(2)] said_tables(1) [OF s4(2)]
      said_tables(1) [OF s2(2)] said_tables(1) [OF s1(2)])
  moreover have "children s7 0 [2, 3, 5, 6, 7, 8, 9]" using s6(2) by (simp add: said_tables [OF s7(2)])
  moreover have "talks 1630 s7" by (rule talks_le [OF s7(3)]) simp
  ultimately obtain s8 where s8: "\<forall>k. p1_remove_children k s7 = k s8" "pcbFree s8 (rev [0..<10] @ fl)" "procp s8 = procp s7"
      "talks 1520 s8" "addrs s8 = addrs s7" "okbuf s8 = okbuf s7 @ line ''Removing...   '' @
       line ''insertChild, removeChild and emptyChild ok   '' @ line ''process tree module ok      ''"
    using p1_remove_children_ok [of s7 "[2, 3, 5, 6, 7, 8, 9]" fl] assms(2,5) p(4) by (auto simp del: upt_Suc)
  have "\<forall>k. p1_trees k s = k s8"
    using s1(1) e1 s2(1) s3(1) s4(1) e4 s5(1) s6(1) o s7(1) s8(1) assms(2) p
    by (simp add: p1_trees_def f1(9) f4(9) del: p1_children.simps upt_Suc)
  moreover have "addrs s6 = addrs s4" "okbuf s6 = okbuf s4" "addrs s3 = addrs s2" "okbuf s3 = okbuf s2"
    using t46 s3(3) stays_addrs unfolding tonly_def by blast+
  ultimately show ?thesis using s8(2-6) p(4) by (intro exI [of _ s8]) (simp add: f1(10,11) f2(10,11) f4(10,11) f7(10,11) del: upt_Suc)
qed

section \<open>The semaphores\<close>

text \<open>\<open>sems s Ks Q\<close>: the list has descriptors for the semaphores \<open>Ks\<close>, with the queues \<open>Q\<close>.\<close>

definition sems :: "'a p1mem_scheme \<Rightarrow> u32 set \<Rightarrow> (u32 \<Rightarrow> nat list) \<Rightarrow> bool" where
  "sems s Ks Q \<longleftrightarrow> (\<exists>h ds t fl. asl s h ds t fl Q \<and> skey s ` set ds = Ks)"

text \<open>Every descriptor that is not a dummy is in the list or free.\<close>

lemma asl_count: "asl s h ds t fl Q \<Longrightarrow> card (skey s ` set ds) + length fl = 20"
proof -
  assume A: "asl s h ds t fl Q"
  then have d: "distinct (h # t # ds @ fl)" and S: "set (h # t # ds @ fl) = {0..<22}" by (simp_all add: asl_def MAXPROC_def)
  have "length (h # t # ds @ fl) = 22" using distinct_card [OF d] unfolding S by simp
  moreover have "inj_on (skey s) (set ds)" using asl_key_inj [OF A] by (simp add: inj_on_def)
  moreover have "card (set ds) = length ds" using d distinct_card by auto
  ultimately show ?thesis by (simp add: card_image)
qed

lemma bframe_stays: "bframe A P s s' \<Longrightarrow> stays UNIV s s' \<and> procp s' = procp s"
  unfolding bframe_def stays_def by (metis UNIV_I p1_more)

lemma sems_no_key: "sems s Ks Q \<Longrightarrow> a \<notin> Ks \<Longrightarrow> Q a = []"
  using asl_no_key by (auto simp: sems_def)

lemma sems_block:
  assumes "sems s Ks Q" "a \<noteq> lastSemd s" "\<not> blocked Q p" "a \<in> Ks \<or> card Ks < 20"
  shows "\<exists>s'. insertBlocked a (Some p) s = Some (FALSE, s') \<and> sems s' (insert a Ks) (Q(a := Q a @ [p])) \<and>
     bframe (insert p (set (Q a))) {p} s s'"
proof -
  obtain h ds t fl where A: "asl s h ds t fl Q" "skey s ` set ds = Ks" using assms(1) by (auto simp: sems_def)
  have "a \<in> skey s ` set ds \<or> fl \<noteq> []" using assms(4) A(2) asl_count [OF A(1)] by auto
  from insertBlocked_spec [OF A(1) assms(2,3) this] obtain s' ds' fl' where
    s': "insertBlocked a (Some p) s = Some (FALSE, s')" "asl s' h ds' t fl' (Q(a := Q a @ [p]))" "skey s' ` set ds' = insert a Ks"
      "bframe (insert p (set (Q a))) {p} s s'" unfolding A(2) by blast
  have "sems s' (insert a Ks) (Q(a := Q a @ [p]))" unfolding sems_def using s'(2,3) by blast
  with s'(1,4) show ?thesis by blast
qed

lemma sems_full:
  assumes "sems s Ks Q" "a \<noteq> lastSemd s" "a \<notin> Ks" "card Ks = 20"
  shows "insertBlocked a p s = Some (TRUE, s)"
proof -
  obtain h ds t fl where A: "asl s h ds t fl Q" "skey s ` set ds = Ks" using assms(1) by (auto simp: sems_def)
  then have "fl = []" using asl_count [OF A(1)] assms(4) by simp
  then show ?thesis using insertBlocked_full [of s h ds t Q a p] A assms(2,3) by simp
qed

lemma sems_remove:
  assumes "sems s Ks Q" "Q a = p # ps"
  shows "\<exists>s'. removeBlocked a s = Some (Some p, s') \<and> sems s' (if ps = [] then Ks - {a} else Ks) (Q(a := ps)) \<and> bframe (set (Q a)) {p} s s'"
proof -
  obtain h ds t fl where A: "asl s h ds t fl Q" "skey s ` set ds = Ks" using assms(1) by (auto simp: sems_def)
  obtain s' ds' fl' where s': "removeBlocked a s = Some (Some p, s')" "asl s' h ds' t fl' (Q(a := ps))" "bframe (set (Q a)) {p} s s'"
      "skey s' ` set ds' = (if ps = [] then Ks - {a} else Ks)"
    using removeBlocked_some [OF A(1) assms(2)] unfolding A(2) by blast
  have "sems s' (if ps = [] then Ks - {a} else Ks) (Q(a := ps))" unfolding sems_def using s'(2,4) by blast
  with s'(1,3) show ?thesis by blast
qed

lemma sems_none: "sems s Ks Q \<Longrightarrow> a \<noteq> lastSemd s \<Longrightarrow> Q a = [] \<Longrightarrow> removeBlocked a s = Some (None, s)"
  unfolding sems_def by (elim exE conjE) (rule removeBlocked_none)

lemma sems_head: "sems s Ks Q \<Longrightarrow> a \<noteq> lastSemd s \<Longrightarrow> headBlocked a s = Some (if Q a = [] then None else Some (hd (Q a)))"
  unfolding sems_def by (elim exE conjE) (rule headBlocked_spec)

lemma sems_out:
  assumes "sems s Ks Q" "p \<in> set (Q a)"
  shows "\<exists>s'. outBlocked (Some p) s = Some (Some p, s') \<and> sems s' Ks (Q(a := remove1 p (Q a))) \<and> p_semAdd (pcbs s' p) = a \<and>
     bframe (set (Q a)) {} s s'"
proof -
  obtain h ds t fl where A: "asl s h ds t fl Q" "skey s ` set ds = Ks" using assms(1) by (auto simp: sems_def)
  obtain s' where s': "outBlocked (Some p) s = Some (Some p, s')" "asl s' h ds t fl (Q(a := remove1 p (Q a)))"
      "p_semAdd (pcbs s' p) = a" "skey s' = skey s" "bframe (set (Q a)) {} s s'"
    using outBlocked_some [OF A(1) assms(2)] by blast
  have "sems s' Ks (Q(a := remove1 p (Q a)))" unfolding sems_def using s'(2) A(2) [folded s'(4)] by blast
  with s'(1,3,5) show ?thesis by blast
qed

lemma sems_out_none: "sems s Ks Q \<Longrightarrow> \<not> blocked Q p \<Longrightarrow> p_semAdd (pcbs s p) \<noteq> lastSemd s \<Longrightarrow> outBlocked (Some p) s = Some (None, s)"
  unfolding sems_def by (elim exE conjE) (rule outBlocked_none)

lemma sems_distinct: "sems s Ks Q \<Longrightarrow> distinct (Q a) \<and> (a \<noteq> b \<longrightarrow> set (Q a) \<inter> set (Q b) = {})"
  unfolding sems_def using asl_Q_distinct asl_Q_disjoint by blast

lemma sems_finite: "sems s Ks Q \<Longrightarrow> finite Ks"
  by (auto simp: sems_def)

lemma stays_places: "stays A s s' \<Longrightarrow> sem_at i s' = sem_at i s \<and> lastSemd s' = lastSemd s \<and> onesem s' = onesem s"
  by (simp add: stays_def sem_at_def lastSemd_def)

lemma said_places: "said msg s s' \<Longrightarrow> sem_at i s' = sem_at i s \<and> lastSemd s' = lastSemd s \<and> onesem s' = onesem s"
  by (simp add: said_fields sem_at_def lastSemd_def)

lemma said_sems: "said msg s s' \<Longrightarrow> sems s' Ks Q = sems s Ks Q"
  by (simp add: sems_def said_tables said_fields)

lemma sems_alloc: "sems s Ks Q \<Longrightarrow> pframe {p} s s' \<Longrightarrow> \<not> blocked Q p \<Longrightarrow> sems s' Ks Q"
proof -
  assume s: "sems s Ks Q" and f: "pframe {p} s s'" and p: "\<not> blocked Q p"
  obtain h ds t fl where A: "asl s h ds t fl Q" "skey s ` set ds = Ks" using s by (auto simp: sems_def)
  have "asl s' h ds t fl Q" using p by (intro asl_pframe [OF A(1) f]) (auto simp: blocked_def)
  moreover have "skey s' = skey s" using f pcb_more_asl(1) by (metis pframe_def)
  ultimately show ?thesis using A(2) unfolding sems_def by metis
qed

lemma sems_procp [simp]: "sems (s\<lparr>procp := f\<rparr>) Ks Q = sems s Ks Q"
  by (simp add: sems_def)

lemma p1_block_ok:
  fixes a
  defines "a \<equiv> \<lambda>i s. sem_at i s"
  shows "sems s Ks Q \<Longrightarrow> pcbFree s (map P is @ fl) \<Longrightarrow> \<forall>p\<in>set (map P is). \<not> blocked Q p \<Longrightarrow> distinct is \<Longrightarrow>
    \<forall>i\<in>set is. a i s \<noteq> lastSemd s \<and> a i s \<notin> Ks \<Longrightarrow> inj_on (\<lambda>i. a i s) (set is) \<Longrightarrow> card Ks + length is \<le> 20 \<Longrightarrow>
    \<exists>s' Q'. (\<forall>k. p1_block msg is k s = k s') \<and> sems s' (Ks \<union> (\<lambda>i. a i s) ` set is) Q' \<and> pcbFree s' fl \<and>
      (\<forall>i\<in>set is. procp s' i = Some (P i) \<and> Q' (a i s) = [P i]) \<and> (\<forall>j. j \<notin> set is \<longrightarrow> procp s' j = procp s j) \<and>
      (\<forall>x. x \<notin> (\<lambda>i. a i s) ` set is \<longrightarrow> Q' x = Q x) \<and> stays UNIV s s'"
proof (induction "is" arbitrary: s Ks Q)
  case (Cons i "is")
  let ?p = "P i"
  obtain t where t: "allocPcb s = Some (Some ?p, t)" "pcbFree t (map P is @ fl)" "pframe {?p} s t"
    using allocPcb_spec [of s ?p "map P is @ fl"] Cons.prems(2) by auto
  note kt = pframe_stays [OF t(3)]
  let ?t = "t\<lparr>procp := (procp t)(i := Some ?p)\<rparr>"
  have nb: "\<not> blocked Q ?p" using Cons.prems(3) by simp
  have at: "a j ?t = a j s" "lastSemd ?t = lastSemd s" for j using stays_places [OF conjunct1 [OF kt]] by (simp_all add: a_def sem_at_def lastSemd_def)
  have n: "a i s \<noteq> lastSemd ?t" "a i s \<notin> Ks" "card Ks < 20" using Cons.prems(5,7) at(2) by auto
  have "sems ?t Ks Q" using sems_alloc [OF Cons.prems(1) t(3) nb] by simp
  from sems_block [OF this n(1) nb] n(3) obtain u where
    u: "insertBlocked (a i s) (Some ?p) ?t = Some (FALSE, u)" "sems u (insert (a i s) Ks) (Q(a i s := [?p]))" "bframe {?p} {?p} ?t u"
    using sems_no_key [OF Cons.prems(1) n(2)] by auto
  note ku = bframe_stays [OF u(3)]
  have k: "stays UNIV s u" using stays_then [OF conjunct1 [OF kt], of UNIV u] ku by simp
  then have au: "a j u = a j s" "lastSemd u = lastSemd s" for j using stays_places [OF k] by (simp_all add: a_def)
  have d: "?p \<notin> set (map P is @ fl)" using Cons.prems(2) by (auto simp: pcbFree_def)
  have 1: "pcbFree u (map P is @ fl)" using t(2) d by (subst bframe_pcbFree [OF u(3)]) auto
  have 2: "\<forall>p\<in>set (map P is). \<not> blocked (Q(a i s := [?p])) p" using Cons.prems(3) d by (auto simp: blocked_def) (metis imageI)
  have 3: "\<forall>j\<in>set is. a j u \<noteq> lastSemd u \<and> a j u \<notin> insert (a i s) Ks" using Cons.prems(4-6) unfolding au by (auto simp: inj_on_def)
  have 4: "inj_on (\<lambda>j. a j u) (set is)" "distinct is" using Cons.prems(4,6) unfolding au by (auto simp: inj_on_def)
  have 5: "card (insert (a i s) Ks) + length is \<le> 20" using Cons.prems(7) n(2) sems_finite [OF Cons.prems(1)] by simp
  obtain s' Q' where s': "\<forall>k. p1_block msg is k u = k s'" "sems s' (insert (a i s) Ks \<union> (\<lambda>j. a j s) ` set is) Q'" "pcbFree s' fl"
      "\<forall>j\<in>set is. procp s' j = Some (P j) \<and> Q' (a j s) = [P j]" "\<forall>j. j \<notin> set is \<longrightarrow> procp s' j = procp u j"
      "\<forall>x. x \<notin> (\<lambda>j. a j s) ` set is \<longrightarrow> Q' x = (Q(a i s := [?p])) x" "stays UNIV u s'"
    using Cons.IH [OF u(2) 1 2 4(2) 3 4(1) 5] unfolding au by blast
  have e: "insertBlocked (sem_at i ?t) (procp ?t i) ?t = Some (FALSE, u)" using u(1) at by (simp add: a_def)
  have "\<forall>k. p1_block msg (i # is) k s = k s'" using s'(1) t(1) e by (simp add: FALSE_def)
  moreover have i: "a i s \<notin> (\<lambda>j. a j s) ` set is" "i \<notin> set is" using Cons.prems(4,6) by (auto simp: inj_on_def)
  moreover have "procp s' i = Some ?p" using s'(5) i(2) ku by simp
  moreover have "Q' (a i s) = [?p]" using s'(6) i(1) by simp
  moreover have "stays UNIV s s'" using stays_then [OF k s'(7)] by simp
  moreover have "\<forall>j. j \<notin> set (i # is) \<longrightarrow> procp s' j = procp s j" using s'(5) ku kt by simp
  moreover have "\<forall>x. x \<notin> (\<lambda>j. a j s) ` set (i # is) \<longrightarrow> Q' x = Q x" using s'(6) by auto
  ultimately show ?case using s'(2-4) by (intro exI [of _ s'] exI [of _ Q']) simp
next
  case Nil
  then show ?case by (intro exI [of _ s] exI [of _ Q]) simp
qed

lemma p1_move_ok:
  fixes a
  defines "a \<equiv> \<lambda>i s. sem_at i s"
  shows "sems s Ks Q \<Longrightarrow> distinct is \<Longrightarrow> set is \<subseteq> {10..<20} \<Longrightarrow> inj_on (\<lambda>i. a i s) {..<20} \<Longrightarrow>
    \<forall>i\<in>set is. procp s i = Some (P i) \<and> Q (a i s) = [P i] \<and> a (i - 10) s \<in> Ks \<Longrightarrow> \<forall>i<20. a i s \<noteq> lastSemd s \<Longrightarrow>
    \<exists>s' Q'. (\<forall>k. p1_move is k s = k s') \<and> sems s' (Ks - (\<lambda>i. a i s) ` set is) Q' \<and>
      (\<forall>i\<in>set is. Q' (a i s) = [] \<and> Q' (a (i - 10) s) = Q (a (i - 10) s) @ [P i]) \<and> stays UNIV s s' \<and> procp s' = procp s \<and>
      (\<forall>x. x \<notin> (\<lambda>i. a i s) ` set is \<union> (\<lambda>i. a (i - 10) s) ` set is \<longrightarrow> Q' x = Q x)"
proof (induction "is" arbitrary: s Ks Q)
  case (Cons i "is")
  let ?p = "P i" and ?b = "a (i - 10) s"
  have i: "10 \<le> i" "i < 20" "i \<notin> set is" using Cons.prems(2,3) by auto
  have inj: "a j s = a l s \<longleftrightarrow> j = l" if "j < 20" "l < 20" for j l using Cons.prems(4) that by (auto simp: inj_on_def)
  have q: "Q (a i s) = [?p]" "procp s i = Some ?p" "?b \<in> Ks" using Cons.prems(5) by simp_all
  from sems_remove [OF Cons.prems(1) q(1)] obtain t where
    t: "removeBlocked (a i s) s = Some (Some ?p, t)" "sems t (Ks - {a i s}) (Q(a i s := []))" "bframe {?p} {?p} s t" using q(1) by auto
  note kt = bframe_stays [OF t(3)]
  have at: "a j t = a j s" "lastSemd t = lastSemd s" for j using stays_places [OF conjunct1 [OF kt]] by (simp_all add: a_def)
  have nb: "\<not> blocked (Q(a i s := [])) ?p"
  proof -
    have "?p \<notin> set (Q x)" if "x \<noteq> a i s" for x
      using sems_distinct [OF Cons.prems(1), of "a i s" x] q(1) that by auto
    then show ?thesis by (simp add: blocked_def)
  qed
  have b: "?b \<noteq> lastSemd t" "?b \<in> Ks - {a i s}" using Cons.prems(6) at(2) i q(3) by (simp_all add: inj)
  from sems_block [OF t(2) b(1) nb disjI1 [OF b(2)]] obtain u where
    u: "insertBlocked ?b (Some ?p) t = Some (FALSE, u)" "sems u (insert ?b (Ks - {a i s})) ((Q(a i s := []))(?b := (Q(a i s := [])) ?b @ [?p]))"
      "bframe (insert ?p (set ((Q(a i s := [])) ?b))) {?p} t u" by blast
  note ku = bframe_stays [OF u(3)]
  let ?Q = "(Q(a i s := []))(?b := Q ?b @ [?p])"
  have "?b \<noteq> a i s" using i by (simp add: inj)
  then have u2: "sems u (Ks - {a i s}) ?Q" using u(2) b(2) by (simp add: insert_absorb)
  have k: "stays UNIV s u" "procp u = procp s" using stays_then [OF conjunct1 [OF kt], of UNIV u] ku kt by simp_all
  then have au: "a j u = a j s" "lastSemd u = lastSemd s" for j using stays_places [OF k(1)] by (simp_all add: a_def)
  have r: "10 \<le> j \<and> j < 20 \<and> j \<noteq> i" if "j \<in> set is" for j using that Cons.prems(3) i(3) by auto
  have ne: "a j s \<noteq> a i s \<and> a j s \<noteq> ?b \<and> a (j - 10) s \<noteq> a i s \<and> a (j - 10) s \<noteq> ?b" if "j \<in> set is" for j
  proof -
    have "j \<noteq> i - 10" "j - 10 \<noteq> i" "j - 10 < 20" "i - 10 < 20" "j < 20" "j \<noteq> i" "j - 10 \<noteq> i - 10"
      using r [OF that] i(1,2) by linarith+
    then show ?thesis using i(2) by (simp add: inj)
  qed
  have 1: "\<forall>j\<in>set is. procp u j = Some (P j) \<and> ?Q (a j u) = [P j] \<and> a (j - 10) u \<in> Ks - {a i s}"
  proof
    fix j assume j: "j \<in> set is"
    from ne [OF j] show "procp u j = Some (P j) \<and> ?Q (a j u) = [P j] \<and> a (j - 10) u \<in> Ks - {a i s}"
      using Cons.prems(5) j k(2) unfolding au by simp
  qed
  have 2: "distinct is" "set is \<subseteq> {10..<20}" "inj_on (\<lambda>i. a i u) {..<20}" "\<forall>i<20. a i u \<noteq> lastSemd u"
    using Cons.prems(2-4,6) unfolding au by simp_all
  obtain s' Q' where s': "\<forall>k. p1_move is k u = k s'" "sems s' (Ks - {a i s} - (\<lambda>i. a i s) ` set is) Q'"
      "\<forall>j\<in>set is. Q' (a j s) = [] \<and> Q' (a (j - 10) s) = ?Q (a (j - 10) s) @ [P j]" "stays UNIV u s'" "procp s' = procp u"
      "\<forall>x. x \<notin> (\<lambda>i. a i s) ` set is \<union> (\<lambda>i. a (i - 10) s) ` set is \<longrightarrow> Q' x = ?Q x"
    using Cons.IH [OF u2 2(1-3) 1 2(4)] unfolding au by blast
  have "\<forall>k. p1_move (i # is) k s = k s'"
    using s'(1) t(1) u(1) q(2) kt at by (simp add: FALSE_def a_def)
  moreover have "Q' (a j s) = [] \<and> Q' (a (j - 10) s) = Q (a (j - 10) s) @ [P j]" if "j \<in> set (i # is)" for j
  proof (cases "j = i")
    case True
    have "a i s \<notin> (\<lambda>i. a i s) ` set is \<union> (\<lambda>i. a (i - 10) s) ` set is" "?b \<notin> (\<lambda>i. a i s) ` set is \<union> (\<lambda>i. a (i - 10) s) ` set is"
      using ne by fastforce+
    then show ?thesis using s'(6) \<open>?b \<noteq> a i s\<close> True by simp
  next
    case False
    then have j: "j \<in> set is" using that by simp
    then show ?thesis using s'(3) ne [OF j] by simp
  qed
  moreover have "Ks - {a i s} - (\<lambda>i. a i s) ` set is = Ks - (\<lambda>i. a i s) ` set (i # is)" by auto
  moreover have "\<forall>x. x \<notin> (\<lambda>i. a i s) ` set (i # is) \<union> (\<lambda>i. a (i - 10) s) ` set (i # is) \<longrightarrow> Q' x = Q x" using s'(6) by auto
  moreover have "stays UNIV s s'" using stays_then [OF k(1) s'(4)] by simp
  ultimately show ?case using s'(2,5) k(2) by (intro exI [of _ s'] exI [of _ Q']) simp
next
  case Nil
  then show ?case by (intro exI [of _ s] exI [of _ Q]) simp
qed

lemma p1_heads_ok:
  assumes t: "talks 1230 s" and S: "sems s Ks Q" and q: "Q (sem_at 9 s) = [x, y]" "Q (sem_at 11 s) = []"
    and p: "procp s 9 = Some x" "procp s 19 = Some y" and l: "sem_at 9 s \<noteq> lastSemd s" "sem_at 11 s \<noteq> lastSemd s"
  shows "\<exists>s'. (\<forall>k. p1_heads k s = k s') \<and> talks 1180 s' \<and>
     okbuf s' = okbuf s @ line ''headBlocked and outBlocked ok   '' @ line ''ASL module ok   ''"
proof -
  let ?a = "sem_at 9 s"
  have d: "y \<notin> set (Q b)" if "b \<noteq> ?a" for b using sems_distinct [OF S, of ?a b] q(1) that by auto
  have xy: "x \<noteq> y" using sems_distinct [OF S, of ?a] q(1) by simp
  have h1: "headBlocked (sem_at 11 s) s = Some None" "headBlocked ?a s = Some (Some x)" using sems_head [OF S] l q by simp_all
  obtain s1 where s1: "outBlocked (Some x) s = Some (Some x, s1)" "sems s1 Ks (Q(?a := [y]))" "bframe (set (Q ?a)) {} s s1"
    using sems_out [OF S, of x ?a] q(1) xy by auto
  note k1 = bframe_stays [OF s1(3)] and a1 = stays_places [OF conjunct1 [OF bframe_stays [OF s1(3)]]]
  have h2: "headBlocked ?a s1 = Some (Some y)" using sems_head [OF s1(2), of ?a] l a1 by simp
  obtain s2 where s2: "outBlocked (Some y) s1 = Some (Some y, s2)" "sems s2 Ks (Q(?a := []))" "p_semAdd (pcbs s2 y) = ?a"
      "bframe {y} {} s1 s2"
    using sems_out [OF s1(2), of y ?a] by auto
  note k2 = bframe_stays [OF s2(4)] and a2 = stays_places [OF conjunct1 [OF bframe_stays [OF s2(4)]]]
  have "\<not> blocked (Q(?a := [])) y" using d by (auto simp: blocked_def)
  then have o: "outBlocked (Some y) s2 = Some (None, s2)" using sems_out_none [OF s2(2)] s2(3) l(1) a1 a2 by simp
  have h3: "headBlocked ?a s2 = Some None" using sems_head [OF s2(2), of ?a] l a1 a2 by simp
  have k: "stays UNIV s s2" using stays_then [OF conjunct1 [OF k1] conjunct1 [OF k2]] by simp
  then have "talks 1230 s2" using stays_talks t by blast
  from addokbuf_ok [OF this, of "line ''headBlocked and outBlocked ok   ''"] obtain s3 where
    s3: "addokbuf (line ''headBlocked and outBlocked ok   '') s2 = Some s3"
      "said (line ''headBlocked and outBlocked ok   '') s2 s3" "talks 1197 s3" by auto
  from addokbuf_ok [OF s3(3), of "line ''ASL module ok   ''"] obtain s4 where
    s4: "addokbuf (line ''ASL module ok   '') s3 = Some s4" "said (line ''ASL module ok   '') s3 s4" "talks 1180 s4" by auto
  have "\<forall>k. p1_heads k s = k s4"
    using h1 s1(1) h2 s2(1) o h3 s3(1) s4(1) a1 a2 p k1 by (simp add: p1_heads_def)
  then show ?thesis using s4(3) stays_addrs [OF k] by (auto simp: said_fields(10) [OF s4(2)] said_fields(10) [OF s3(2)])
qed

text \<open>Where the linker puts the semaphores of the test.\<close>

definition p1_layout :: "'a p1mem_scheme \<Rightarrow> bool" where
  "p1_layout s \<longleftrightarrow> (\<forall>i<20. sem_at i s \<noteq> lastSemd s \<and> sem_at i s \<noteq> onesem s) \<and> onesem s \<noteq> lastSemd s"

lemma sem_at_inj: "inj_on (\<lambda>i. sem_at i s) {..<20}"
proof (rule inj_onI)
  fix i j :: nat assume "i \<in> {..<20}" "j \<in> {..<20}" "sem_at i s = sem_at j s"
  moreover from this have "(of_nat (4 * i) :: u32) = of_nat (4 * j)" by (simp add: sem_at_def)
  then have "unat (of_nat (4 * i) :: u32) = unat (of_nat (4 * j) :: u32)" by (rule arg_cong)
  then have "4 * i mod 2 ^ 32 = 4 * j mod 2 ^ 32" unfolding unat_of_nat by simp
  ultimately show "i = j" by simp
qed

text \<open>The pcbs in the order in which the two loops take them from the free list.\<close>

definition taken :: "nat \<Rightarrow> nat" where
  "taken i = (if 10 \<le> i then 19 - i else [10, 11, 12, 13, 15, 16, 17, 18, 14, 19] ! i)"

lemma taken_eq: "map taken [10..<20] = rev [0..<10]" "map taken [0..<10] = [10, 11, 12, 13, 15, 16, 17, 18, 14, 19]"
  by code_simp+

text \<open>Up to the message that starts the test of \<open>removeBlocked\<close>: each of the twenty semaphores has one process.\<close>

lemma p1_sems_blocked:
  assumes t: "talks 1520 s" and F: "pcbFree s (rev [0..<10] @ [10, 11, 12, 13, 15, 16, 17, 18, 14, 19])" and l: "p1_layout s"
  shows "\<exists>s0 s1 s2 s' Q. initASL s = Some s0 \<and> addokbuf (line ''Initialized active semaphore list   '') s0 = Some s1 \<and>
     addokbuf (line ''insertBlocked test #1 started  '') s1 = Some s2 \<and>
     (\<forall>k. p1_block ''insertBlocked(1): unexpected TRUE   '' [10..<MAXPROC] (\<lambda>s. do {
       s \<leftarrow> addokbuf (line ''insertBlocked test #2 started  '') s;
       p1_block ''insertBlocked(2): unexpected TRUE   '' [0..<10] k s }) s2 = k s') \<and>
     sems s' ((\<lambda>i. sem_at i s') ` {..<20}) Q \<and> (\<forall>i<20. procp s' i = Some (taken i) \<and> Q (sem_at i s') = [taken i]) \<and>
     talks 1410 s' \<and> p1_layout s' \<and> okbuf s' = okbuf s @ line ''Initialized active semaphore list   '' @
       line ''insertBlocked test #1 started  '' @ line ''insertBlocked test #2 started  ''"
proof -
  let ?l1 = "line ''Initialized active semaphore list   ''" and ?l2 = "line ''insertBlocked test #1 started  ''"
    and ?l3 = "line ''insertBlocked test #2 started  ''"
  obtain s0 where s0: "initASL s = Some s0" "asl s0 0 [] 1 [2..<22] (\<lambda>_. [])" "pcbs s0 = pcbs s" "pcbFree_h s0 = pcbFree_h s"
      "semdTable_addr s0 = semdTable_addr s" "aslmem.more s0 = aslmem.more s" using initASL_spec [of s] by blast
  have k0: "stays UNIV s s0" using p1_more [OF s0(6)] s0(5) by (simp add: stays_def)
  have S0: "sems s0 {} (\<lambda>_. [])" unfolding sems_def using s0(2) by fastforce
  have "talks 1520 s0" using stays_talks [OF k0] t by blast
  from addokbuf_ok [OF this, of ?l1] obtain s1 where s1: "addokbuf ?l1 s0 = Some s1" "said ?l1 s0 s1" "talks 1483 s1" by auto
  from addokbuf_ok [OF s1(3), of ?l2] obtain s2 where s2: "addokbuf ?l2 s1 = Some s2" "said ?l2 s1 s2" "talks 1451 s2" by auto
  have a2: "sem_at i s2 = sem_at i s" "lastSemd s2 = lastSemd s" "onesem s2 = onesem s" for i
    using stays_places [OF k0, of i] said_places [OF s1(2), of i] said_places [OF s2(2), of i] by simp_all
  have S2: "sems s2 {} (\<lambda>_. [])" using S0 said_sems [OF s1(2)] said_sems [OF s2(2)] by simp
  have F2: "pcbFree s2 (map taken [10..<20] @ map taken [0..<10])"
    unfolding taken_eq said_tables(1) [OF s2(2)] said_tables(1) [OF s1(2)] using F s0(3,4) by (simp only: pcbFree_def)
  have inj: "inj_on (\<lambda>i. sem_at i u) (set [10..<20])" "inj_on (\<lambda>i. sem_at i u) (set [0..<10])" for u :: "'a p1mem_scheme"
    by (rule inj_on_subset [OF sem_at_inj]; auto)+
  have la: "\<forall>i\<in>set [10..<20]. sem_at i s2 \<noteq> lastSemd s2 \<and> sem_at i s2 \<notin> {}" using l unfolding a2 p1_layout_def by simp
  have "\<forall>p\<in>set (map taken [10..<20]). \<not> blocked (\<lambda>_. []) p" "distinct [10..<20 :: nat]" "card ({} :: u32 set) + length [10..<20 :: nat] \<le> 20"
    by (simp_all add: blocked_def)
  from p1_block_ok [where msg = "''insertBlocked(1): unexpected TRUE   ''", OF S2 F2 this(1,2) la inj(1) this(3)] obtain s3 Q3 where
    s3: "\<forall>k. p1_block ''insertBlocked(1): unexpected TRUE   '' [10..<20] k s2 = k s3"
      "sems s3 ({} \<union> (\<lambda>i. sem_at i s2) ` set [10..<20]) Q3" "pcbFree s3 (map taken [0..<10])"
      "\<forall>i\<in>set [10..<20]. procp s3 i = Some (taken i) \<and> Q3 (sem_at i s2) = [taken i]"
      "\<forall>x. x \<notin> (\<lambda>i. sem_at i s2) ` set [10..<20] \<longrightarrow> Q3 x = []" "stays UNIV s2 s3"
    by - (elim exE conjE, rule that; assumption)
  have "talks 1451 s3" using stays_talks [OF s3(6)] s2(3) by blast
  from addokbuf_ok [OF this, of ?l3] obtain s4 where s4: "addokbuf ?l3 s3 = Some s4" "said ?l3 s3 s4" "talks 1419 s4" by auto
  have a4: "sem_at i s4 = sem_at i s" "lastSemd s4 = lastSemd s" "onesem s4 = onesem s" for i
    using stays_places [OF s3(6), of i] said_places [OF s4(2), of i] a2 by simp_all
  let ?K = "(\<lambda>i. sem_at i s) ` {10..<20}"
  have eq: "sem_at i s = sem_at j s \<longleftrightarrow> i = j" if "i < 20" "j < 20" for i j using sem_at_inj [of s] that by (auto simp: inj_on_def)
  have S4: "sems s4 ?K Q3" using s3(2) unfolding a2 said_sems [OF s4(2)] set_upt Un_empty_left .
  have F4: "pcbFree s4 (map taken [0..<10] @ [])" using s3(3) said_tables(1) [OF s4(2)] by simp
  have nb: "\<forall>p\<in>set (map taken [0..<10]). \<not> blocked Q3 p"
  proof -
    have hi: "\<forall>p\<in>set (map taken [0..<10]). 10 \<le> p" unfolding taken_eq by simp
    have lo: "p < 10" if p: "p \<in> set (Q3 x)" for p x
    proof (cases "x \<in> (\<lambda>i. sem_at i s2) ` set [10..<20]")
      case True
      then obtain i where i: "i \<in> set [10..<20]" "x = sem_at i s2" by blast
      then have "Q3 x = [taken i]" using bspec [OF s3(4) i(1)] by simp
      moreover have "10 \<le> i" using i(1) unfolding set_upt by simp
      ultimately show ?thesis using p by (simp add: taken_def)
    next
      case False
      then have "Q3 x = []" using s3(5) by blast
      with p show ?thesis by simp
    qed
    show ?thesis unfolding blocked_def using hi lo by fastforce
  qed
  have l4: "\<forall>i\<in>set [0..<10]. sem_at i s4 \<noteq> lastSemd s4 \<and> sem_at i s4 \<notin> ?K" using l eq unfolding a4 p1_layout_def by auto
  have c: "card ?K + length [0..<10] \<le> 20" using card_image_le [of "{10..<20 :: nat}" "\<lambda>i. sem_at i s"] by simp
  from p1_block_ok [where msg = "''insertBlocked(2): unexpected TRUE   ''", OF S4 F4 nb distinct_upt l4 inj(2) c] obtain s5 Q where
    s5: "\<forall>k. p1_block ''insertBlocked(2): unexpected TRUE   '' [0..<10] k s4 = k s5"
      "sems s5 (?K \<union> (\<lambda>i. sem_at i s4) ` set [0..<10]) Q" "\<forall>i\<in>set [0..<10]. procp s5 i = Some (taken i) \<and> Q (sem_at i s4) = [taken i]"
      "\<forall>j. j \<notin> set [0..<10] \<longrightarrow> procp s5 j = procp s4 j" "\<forall>x. x \<notin> (\<lambda>i. sem_at i s4) ` set [0..<10] \<longrightarrow> Q x = Q3 x" "stays UNIV s4 s5"
    by - (elim exE conjE, rule that; assumption)
  have a5: "sem_at i s5 = sem_at i s" "lastSemd s5 = lastSemd s" "onesem s5 = onesem s" for i
    using stays_places [OF s5(6), of i] a4 by simp_all
  have "procp s5 i = Some (taken i) \<and> Q (sem_at i s5) = [taken i]" if "i < 20" for i
  proof (cases "i < 10")
    case True
    then show ?thesis using s5(3) unfolding a4 a5 by simp
  next
    case False
    then have "sem_at i s \<notin> (\<lambda>i. sem_at i s) ` set [0..<10]" using that eq by auto
    moreover have "procp s5 i = procp s3 i" using s5(4) False said_fields(9) [OF s4(2)] by simp
    moreover have "i \<in> set [10..<20]" using False that unfolding set_upt by simp
    ultimately show ?thesis using s5(5) bspec [OF s3(4), of i] unfolding a4 a5 a2 by simp
  qed
  moreover have "?K \<union> (\<lambda>i. sem_at i s4) ` set [0..<10] = (\<lambda>i. sem_at i s5) ` {..<20}"
  proof -
    have "{10..<20} \<union> set [0..<10] = {..<20 :: nat}" by auto
    then show ?thesis unfolding a4 a5 image_Un [symmetric] by simp
  qed
  moreover have "talks 1410 s5" using stays_talks [OF s5(6)] talks_le [OF s4(3), of 1410] by simp
  moreover have "p1_layout s5" using l unfolding p1_layout_def a5 .
  moreover have "okbuf s5 = okbuf s @ ?l1 @ ?l2 @ ?l3"
    using stays_addrs [OF s5(6)] stays_addrs [OF s3(6)] stays_addrs [OF k0]
    by (simp add: said_fields(10) [OF s4(2)] said_fields(10) [OF s2(2)] said_fields(10) [OF s1(2)])
  moreover have "\<forall>k. p1_block ''insertBlocked(1): unexpected TRUE   '' [10..<MAXPROC] (\<lambda>s. do {
       s \<leftarrow> addokbuf ?l3 s; p1_block ''insertBlocked(2): unexpected TRUE   '' [0..<10] k s }) s2 = k s5"
    using s3(1) s4(1) s5(1) by (simp add: MAXPROC_def del: p1_block.simps upt_Suc)
  ultimately show ?thesis using s0(1) s1(1) s2(1) s5(2)
    by (intro exI [of _ s0] exI [of _ s1] exI [of _ s2] exI [of _ s5] exI [of _ Q] conjI) simp_all
qed

lemma p1_sems_ok:
  assumes t: "talks 1520 s" and F: "pcbFree s (rev [0..<10] @ [10, 11, 12, 13, 15, 16, 17, 18, 14, 19])" and l: "p1_layout s"
  shows "\<exists>s'. (\<forall>k. p1_sems k s = k s') \<and> talks 1180 s' \<and>
     okbuf s' = okbuf s @ line ''Initialized active semaphore list   '' @
       line ''insertBlocked test #1 started  '' @ line ''insertBlocked test #2 started  '' @ line ''removeBlocked test started   '' @
       line ''insertBlocked and removeBlocked ok'' @ line ''headBlocked and outBlocked ok   '' @ line ''ASL module ok   ''"
proof -
  obtain s0 s1 s2 s3 Q where s0: "initASL s = Some s0" "addokbuf (line ''Initialized active semaphore list   '') s0 = Some s1"
     "addokbuf (line ''insertBlocked test #1 started  '') s1 = Some s2"
     "\<forall>k. p1_block ''insertBlocked(1): unexpected TRUE   '' [10..<MAXPROC] (\<lambda>s. do {
       s \<leftarrow> addokbuf (line ''insertBlocked test #2 started  '') s;
       p1_block ''insertBlocked(2): unexpected TRUE   '' [0..<10] k s }) s2 = k s3"
     and S: "sems s3 ((\<lambda>i. sem_at i s3) ` {..<20}) Q" and q: "\<forall>i<20. procp s3 i = Some (taken i) \<and> Q (sem_at i s3) = [taken i]"
     and t3: "talks 1410 s3" and l3: "p1_layout s3" and b3: "okbuf s3 = okbuf s @ line ''Initialized active semaphore list   '' @
       line ''insertBlocked test #1 started  '' @ line ''insertBlocked test #2 started  ''"
    using p1_sems_blocked [OF assms] by - (elim exE conjE, rule that; assumption)
  let ?a = "\<lambda>i. sem_at i s3"
  let ?K = "?a ` {..<20}" and ?x = "taken 11"
  have la: "\<forall>i<20. ?a i \<noteq> lastSemd s3" "onesem s3 \<noteq> lastSemd s3" "onesem s3 \<notin> ?K" using l3 unfolding p1_layout_def by auto
  have eq: "?a i = ?a j \<longleftrightarrow> i = j" if "i < 20" "j < 20" for i j using sem_at_inj [of s3] that by (auto simp: inj_on_def)
  have q11: "Q (?a 11) = [?x]" using q by simp
  obtain s4 where s4: "removeBlocked (?a 11) s3 = Some (Some ?x, s4)" "sems s4 (?K - {?a 11}) (Q(?a 11 := []))" "bframe {?x} {?x} s3 s4"
    using sems_remove [OF S q11] q11 by auto
  note k4 = bframe_stays [OF s4(3)] and a4 = stays_places [OF conjunct1 [OF bframe_stays [OF s4(3)]]]
  have nb: "\<not> blocked (Q(?a 11 := [])) ?x"
  proof -
    have "?x \<notin> set (Q b)" if "b \<noteq> ?a 11" for b using sems_distinct [OF S, of "?a 11" b] q11 that by auto
    then show ?thesis by (simp add: blocked_def)
  qed
  have c: "card ?K = 20" using card_image [OF sem_at_inj] by simp
  then have "card (?K - {?a 11}) < 20" by (subst card_Diff_singleton) simp_all
  then obtain s5 where s5: "insertBlocked (?a 11) (Some ?x) s4 = Some (FALSE, s5)"
      "sems s5 (insert (?a 11) (?K - {?a 11})) ((Q(?a 11 := []))(?a 11 := (Q(?a 11 := [])) (?a 11) @ [?x]))"
      "bframe (insert ?x (set ((Q(?a 11 := [])) (?a 11)))) {?x} s4 s5"
    using sems_block [OF s4(2) _ nb, of "?a 11"] la(1) a4 by auto
  have "insert (?a 11) (?K - {?a 11}) = ?K" "(Q(?a 11 := []))(?a 11 := (Q(?a 11 := [])) (?a 11) @ [?x]) = Q" using q11 by auto
  then have S5: "sems s5 ?K Q" using s5(2) by metis
  note k5 = bframe_stays [OF s5(3)]
  have k: "stays UNIV s3 s5" "procp s5 = procp s3" using stays_then [OF conjunct1 [OF k4] conjunct1 [OF k5]] k4 k5 by simp_all
  note a5 = stays_places [OF k(1)]
  have full: "insertBlocked (onesem s5) (procp s5 9) s5 = Some (TRUE, s5)" using sems_full [OF S5 _ _ c] la(2,3) a5 by simp
  have "talks 1410 s5" using stays_talks [OF k(1)] t3 by blast
  from addokbuf_ok [OF this, of "line ''removeBlocked test started   ''"] obtain s6 where
    s6: "addokbuf (line ''removeBlocked test started   '') s5 = Some s6" "said (line ''removeBlocked test started   '') s5 s6" "talks 1380 s6"
    by auto
  have a6: "sem_at i s6 = ?a i" "lastSemd s6 = lastSemd s3" for i using said_places [OF s6(2)] a5 by simp_all
  have p6: "procp s6 = procp s3" using said_fields(9) [OF s6(2)] k(2) by simp
  have m1: "sems s6 ?K Q" using S5 said_sems [OF s6(2)] by simp
  have m2: "\<forall>i\<in>set [10..<20]. procp s6 i = Some (taken i) \<and> Q (sem_at i s6) = [taken i] \<and> sem_at (i - 10) s6 \<in> ?K"
    using q unfolding a6 p6 set_upt by auto
  have m3: "\<forall>i<20. sem_at i s6 \<noteq> lastSemd s6" using la(1) unfolding a6 .
  have m4: "set [10..<20] \<subseteq> {10..<20 :: nat}" by (simp only: set_upt)
  obtain s7 Q7 where s7: "\<forall>k. p1_move [10..<20] k s6 = k s7" "sems s7 (?K - ?a ` set [10..<20]) Q7"
      "\<forall>i\<in>set [10..<20]. Q7 (?a i) = [] \<and> Q7 (?a (i - 10)) = Q (?a (i - 10)) @ [taken i]" "stays UNIV s6 s7" "procp s7 = procp s6"
    using p1_move_ok [OF m1 distinct_upt m4 sem_at_inj m2 m3] unfolding a6 by - (elim exE conjE, rule that; assumption)
  have a7: "sem_at i s7 = ?a i" "lastSemd s7 = lastSemd s3" for i using stays_places [OF s7(4)] a6 by simp_all
  have in7: "11 \<in> set [10..<20 :: nat]" "19 \<in> set [10..<20 :: nat]" by simp_all
  have q7: "Q7 (?a 11) = []" "Q7 (?a 9) = [taken 9, taken 19]" using bspec [OF s7(3) in7(1)] bspec [OF s7(3) in7(2)] q by simp_all
  have none: "removeBlocked (?a 11) s7 = Some (None, s7)" using sems_none [OF s7(2) _ q7(1)] la(1) a7(2) by simp
  have "talks 1380 s7" using stays_talks [OF s7(4)] s6(3) by blast
  from addokbuf_ok [OF this, of "line ''insertBlocked and removeBlocked ok''"] obtain s8 where
    s8: "addokbuf (line ''insertBlocked and removeBlocked ok'') s7 = Some s8" "said (line ''insertBlocked and removeBlocked ok'') s7 s8"
      "talks 1345 s8" by auto
  have a8: "sem_at i s8 = ?a i" "lastSemd s8 = lastSemd s3" for i using said_places [OF s8(2)] a7 by simp_all
  have p8: "procp s8 = procp s3" using said_fields(9) [OF s8(2)] s7(5) p6 by simp
  have "\<exists>s'. (\<forall>k. p1_heads k s8 = k s') \<and> talks 1180 s' \<and>
     okbuf s' = okbuf s8 @ line ''headBlocked and outBlocked ok   '' @ line ''ASL module ok   ''"
  proof (rule p1_heads_ok)
    show "talks 1230 s8" by (rule talks_le [OF s8(3)]) simp
    show "sems s8 (?K - ?a ` set [10..<20]) Q7" using s7(2) unfolding said_sems [OF s8(2)] .
    show "Q7 (sem_at 9 s8) = [taken 9, taken 19]" "Q7 (sem_at 11 s8) = []" using q7 unfolding a8 by simp_all
    show "procp s8 9 = Some (taken 9)" "procp s8 19 = Some (taken 19)" using q unfolding p8 by simp_all
    show "sem_at 9 s8 \<noteq> lastSemd s8" "sem_at 11 s8 \<noteq> lastSemd s8" using la(1) unfolding a8 by simp_all
  qed
  then obtain s9 where s9: "\<forall>k. p1_heads k s8 = k s9" "talks 1180 s9"
     "okbuf s9 = okbuf s8 @ line ''headBlocked and outBlocked ok   '' @ line ''ASL module ok   ''" by blast
  have "\<forall>k. p1_sems k s = k s9"
    using s0 s4(1) s5(1) full s6(1) s7(1) none s8(1) s9(1) a4 a7
    by (simp add: p1_sems_def MAXPROC_def FALSE_def TRUE_def del: p1_block.simps p1_move.simps upt_Suc)
  then show ?thesis using s9(2,3) b3 stays_addrs [OF k(1)] stays_addrs [OF s7(4)]
    by (intro exI [of _ s9]) (simp add: said_fields(10) [OF s8(2)] said_fields(10) [OF s6(2)])
qed

section \<open>The whole program\<close>

definition p1_messages :: "string list" where
  "p1_messages = [''Initialized process control blocks   '', ''allocPcb ok   '', ''freed 10 entries   '',
     ''Inserting...   '', ''inserted 10 elements   '', ''outProcQ ok   '', ''Removing...   '',
     ''insertProcQ, removeProcQ and emptyProcQ ok   '', ''process queues module ok      '',
     ''checking process trees...'', ''Inserting...   '', ''Inserted 9 children   '', ''outChild ok   '', ''Removing...   '',
     ''insertChild, removeChild and emptyChild ok   '', ''process tree module ok      '',
     ''Initialized active semaphore list   '', ''insertBlocked test #1 started  '', ''insertBlocked test #2 started  '',
     ''removeBlocked test started   '', ''insertBlocked and removeBlocked ok'', ''headBlocked and outBlocked ok   '',
     ''ASL module ok   '', ''So Long and Thanks for All the Fish'']"

lemma addrs_layout: "addrs s' = addrs s \<Longrightarrow> p1_layout s' = p1_layout s"
  by (simp add: p1_layout_def addrs_def sem_at_def lastSemd_def)

lemma p1_main_ok:
  assumes t: "talks 2000 s" and l: "p1_layout s"
  shows "\<exists>s'. p1_main s = Some (None, s') \<and> okbuf s' = okbuf s @ concat (map line p1_messages)"
proof -
  let ?fl = "[10, 11, 12, 13, 15, 16, 17, 18, 14, 19] :: nat list"
  from p1_pool_ok [OF t] obtain s1 where s1: "\<forall>k. p1_pool k s = k s1" "pcbFree s1 (rev [10..<20])" "\<forall>i<20. procp s1 i = Some i"
      "\<forall>i<10. pcbs s1 i = fresh_pcb" "talks 1900 s1" "addrs s1 = addrs s"
      "okbuf s1 = okbuf s @ line ''Initialized process control blocks   '' @ line ''allocPcb ok   '' @ line ''freed 10 entries   ''" by blast
  have "procp s1 0 = Some 0" using s1(3) by simp
  from p1_queues_ok [OF s1(5,2) this] obtain s2 where s2: "\<forall>k. p1_queues k s1 = k s2" "pcbFree s2 ?fl" "procp s2 = procp s1"
      "\<forall>p<10. pcbs s2 p = pcbs s1 p" "talks 1720 s2" "addrs s2 = addrs s1"
      "okbuf s2 = okbuf s1 @ line ''Inserting...   '' @ line ''inserted 10 elements   '' @ line ''outProcQ ok   '' @ line ''Removing...   '' @
       line ''insertProcQ, removeProcQ and emptyProcQ ok   '' @ line ''process queues module ok      ''" by blast
  have "\<forall>i<20. procp s2 i = Some i" "\<forall>i<10. pcbs s2 i = fresh_pcb" "set ?fl \<inter> {..<10} = {}" using s1(3,4) s2(3,4) by simp_all
  from p1_trees_ok [OF s2(5) this(1,2) s2(2) this(3)] obtain s3 where s3: "\<forall>k. p1_trees k s2 = k s3" "pcbFree s3 (rev [0..<10] @ ?fl)"
      "talks 1520 s3" "addrs s3 = addrs s2"
      "okbuf s3 = okbuf s2 @ line ''checking process trees...'' @ line ''Inserting...   '' @ line ''Inserted 9 children   '' @
       line ''outChild ok   '' @ line ''Removing...   '' @ line ''insertChild, removeChild and emptyChild ok   '' @
       line ''process tree module ok      ''" by blast
  have "p1_layout s3" using l addrs_layout [of s3 s] s1(6) s2(6) s3(4) by simp
  from p1_sems_ok [OF s3(3,2) this] obtain s4 where s4: "\<forall>k. p1_sems k s3 = k s4" "talks 1180 s4"
      "okbuf s4 = okbuf s3 @ line ''Initialized active semaphore list   '' @
       line ''insertBlocked test #1 started  '' @ line ''insertBlocked test #2 started  '' @ line ''removeBlocked test started   '' @
       line ''insertBlocked and removeBlocked ok'' @ line ''headBlocked and outBlocked ok   '' @ line ''ASL module ok   ''" by blast
  from addokbuf_ok [OF s4(2), of "line ''So Long and Thanks for All the Fish''"] obtain s5 where
    s5: "addokbuf (line ''So Long and Thanks for All the Fish'') s4 = Some s5" "said (line ''So Long and Thanks for All the Fish'') s4 s5" by auto
  have "p1_main s = Some (None, s5)" unfolding p1_main_def using s1(1) s2(1) s3(1) s4(1) s5(1) by simp
  moreover have "okbuf s5 = okbuf s @ concat (map line p1_messages)"
    unfolding said_fields(10) [OF s5(2)] s4(3) s3(5) s2(7) s1(7) p1_messages_def by simp
  ultimately show ?thesis by blast
qed

end
