(* ===== verification/Props_Tables.thy ===== *)
theory Props_Tables
  imports Machine P1run
begin

text \<open>
  The properties of the tables of \<^verbatim>\<open>phase1\<close>: process queues, the pool of pcbs, process trees, and
  the active semaphore list. Most of them are facts of the interpretations of the contracts.
\<close>

section \<open>Process queues\<close>

text \<open>C22: A process queue is first in, first out: pcbs inserted into an empty queue come out in the
  order in which they went in, and then the queue is empty again.\<close>

theorem queue_fifo:
  assumes "distinct ps"
  shows "\<exists>q q'. put_all queue_put ps (mkEmptyProcQ, s) = Some q \<and> get_n queue_get (length ps) q = Some (map Some ps, q') \<and>
     removeProcQ (fst q') (snd q') = Some (None, q')"
proof -
  have "queue_rep (mkEmptyProcQ, s) (set ps) []" by (simp add: queue_rep_def mkEmptyProcQ_def)
  from pq.first_in_first_out [OF this assms subset_refl] show ?thesis by (simp add: queue_get_def)
qed

theorem queue_fifo_witness:
  "\<exists>q q'. put_all queue_put [7, 3, 5] (mkEmptyProcQ, reset_state) = Some q \<and>
     get_n queue_get (length [7, 3, 5 :: nat]) q = Some (map Some [7, 3, 5], q')"
proof -
  have "distinct [7, 3, 5 :: nat]" by simp
  from queue_fifo [OF this] show ?thesis by blast
qed

text \<open>\<open>outProcQ\<close> takes a pcb out of any place of a queue: the others keep their order, the tail
  pointer is right, the pcb no longer points into the queue, and no other pcb is touched. For a pcb
  that is not in the queue it returns NULL and changes nothing.\<close>

lemma out_of_queue:
  assumes "procQ s tp xs"
  shows "\<exists>tp' s'. outProcQ tp (Some p) s = Some (if p \<in> set xs then Some p else None, tp', s') \<and>
     procQ s' tp' (remove1 p xs) \<and> qframe (set xs) s s' \<and>
     (if p \<in> set xs then p_next (pcbs s' p) = None \<and> p_prev (pcbs s' p) = None else tp' = tp \<and> s' = s)"
proof (cases "p \<in> set xs")
  case True
  with outProcQ_present [OF assms True] show ?thesis by auto
next
  case False
  with outProcQ_absent [OF assms False] assms show ?thesis by (auto simp: remove1_idem)
qed

section \<open>The pool of pcbs\<close>

lemma alloc_all:
  "pcbFree s fl \<Longrightarrow> \<exists>s'. get_n allocPcb (length fl) s = Some (map Some fl, s') \<and> pcbFree s' [] \<and>
     (\<forall>p. pcbs s' p = (if p \<in> set fl then fresh_pcb else pcbs s p))"
proof (induction fl arbitrary: s)
  case (Cons a fl)
  from allocPcb_spec [OF Cons.prems] obtain s1 where
    s1: "allocPcb s = Some (Some a, s1)" "pcbFree s1 fl" "pcbs s1 a = fresh_pcb" "pframe {a} s s1" by blast
  from Cons.IH [OF s1(2)] obtain s2 where
    s2: "get_n allocPcb (length fl) s1 = Some (map Some fl, s2)" "pcbFree s2 []"
      "\<forall>p. pcbs s2 p = (if p \<in> set fl then fresh_pcb else pcbs s1 p)" by blast
  have "\<forall>p. pcbs s2 p = (if p \<in> set (a # fl) then fresh_pcb else pcbs s p)"
    using s1(3,4) s2(3) by (auto simp: pframe_def)
  with s1(1) s2(1,2) show ?case by auto
qed auto

text \<open>C23: The pool holds \<open>MAXPROC\<close> pcbs: after \<open>initPcbs\<close> that many calls of \<open>allocPcb\<close> return every pcb of
  the table once, each cleared, the next one returns NULL and changes nothing, and a pcb that is then freed is
  the one that the next call returns.\<close>

theorem pcb_pool:
  "\<exists>s'. get_n allocPcb MAXPROC (initPcbs s) = Some (map Some [0..<MAXPROC], s') \<and>
     (\<forall>p<MAXPROC. pcbs s' p = fresh_pcb) \<and> allocPcb s' = Some (None, s') \<and>
     (\<forall>p. \<exists>s1 s2. freePcb (Some p) s' = Some s1 \<and> allocPcb s1 = Some (Some p, s2) \<and> pcbs s2 p = fresh_pcb \<and>
        allocPcb s2 = Some (None, s2))"
proof -
  from alloc_all [OF initPcbs_spec [of s]] obtain s' where
    s': "get_n allocPcb MAXPROC (initPcbs s) = Some (map Some [0..<MAXPROC], s')" "pcbFree s' []"
      "\<forall>p. pcbs s' p = (if p \<in> set [0..<MAXPROC] then fresh_pcb else pcbs (initPcbs s) p)"
    unfolding length_upt diff_zero by blast
  have "\<exists>s1 s2. freePcb (Some p) s' = Some s1 \<and> allocPcb s1 = Some (Some p, s2) \<and> pcbs s2 p = fresh_pcb \<and>
        allocPcb s2 = Some (None, s2)" for p
  proof -
    from freePcb_spec [OF s'(2), of p] obtain s1 where s1: "freePcb (Some p) s' = Some s1" "pcbFree s1 [p]" by auto
    from allocPcb_spec [OF s1(2)] s1(1) show ?thesis using allocPcb_empty by blast
  qed
  with s' allocPcb_empty [OF s'(2)] show ?thesis by (intro exI [of _ s']) simp
qed

theorem pcb_pool_witness:
  "\<exists>s'. get_n allocPcb MAXPROC (initPcbs reset_state) = Some (map Some [0..<MAXPROC], s') \<and>
     pcbs s' 19 = fresh_pcb \<and> allocPcb s' = Some (None, s')"
proof -
  have "19 < MAXPROC" by (simp add: MAXPROC_def)
  with pcb_pool [of reset_state] show ?thesis by blast
qed

section \<open>Process trees\<close>

text \<open>C24: A child that is inserted and taken out again leaves the list of its parent's children as it
  was; and as long as it is in, the children are removed oldest first.\<close>

theorem child_roundtrip:
  assumes "children s r xs" "p \<notin> set xs"
  shows "\<exists>s1. insertChild (Some r) (Some p) s = Some s1 \<and> children s1 r (xs @ [p]) \<and>
     p_prnt (pcbs s1 p) = Some r \<and>
     (\<exists>s2. outChild (Some p) s1 = Some (Some p, s2) \<and> children s2 r xs \<and> p_prnt (pcbs s2 p) = None) \<and>
     (\<exists>s2. removeChild (Some r) s1 = Some (Some (hd (xs @ [p])), s2) \<and> children s2 r (tl (xs @ [p])))"
proof -
  from insertChild_spec [OF assms] obtain s1 where
    s1: "insertChild (Some r) (Some p) s = Some s1" "children s1 r (xs @ [p])" by blast
  have "p_prnt (pcbs s1 p) = Some r" using s1(2) by (simp add: children_def)
  moreover have "remove1 p (xs @ [p]) = xs" using assms(2) by (simp add: remove1_append)
  moreover obtain y ys where y: "xs @ [p] = y # ys" by (cases "xs @ [p]") auto
  from removeChild_Cons [OF s1(2) [unfolded y]]
  have "\<exists>s2. removeChild (Some r) s1 = Some (Some (hd (xs @ [p])), s2) \<and> children s2 r (tl (xs @ [p]))"
    unfolding y by auto
  ultimately show ?thesis using s1 outChild_present [OF s1(2), of p] by auto
qed

theorem child_roundtrip_witness:
  "\<exists>s1 s2. insertChild (Some 0) (Some 4) reset_state = Some s1 \<and> children s1 0 [4] \<and>
     outChild (Some 4) s1 = Some (Some 4, s2) \<and> children s2 0 []"
proof -
  have "children reset_state 0 []" by (simp add: children_def reset_state_def fresh_pcb_def)
  from child_roundtrip [OF this, of 4] show ?thesis by auto
qed

section \<open>The active semaphore list\<close>

text \<open>C25: The queue of a semaphore is first in, first out: processes blocked on a semaphore nobody
  waits on are released by \<open>removeBlocked\<close> in the order in which they were blocked; after the last of them
  the semaphore has none.\<close>

theorem semaphore_fifo:
  assumes "sem_rep a s F []" "distinct ps" "set ps \<subseteq> F"
  shows "\<exists>s' s''. put_all (sem_put a) ps s = Some s' \<and> get_n (removeBlocked a) (length ps) s' = Some (map Some ps, s'') \<and>
     removeBlocked a s'' = Some (None, s'')"
  by (rule sq.first_in_first_out [OF assms])

lemma empty_asl: "\<exists>s :: kstate. asl s 0 [] 1 [2..<22] (\<lambda>_. []) \<and> lastSemd s = 0x200200FC"
  using initASL_spec [of reset_state] by (auto simp: lastSemd_def reset_state_def MAXPROC_def)

theorem semaphore_fifo_witness:
  "\<exists>(s :: kstate) s' s''. put_all (sem_put 0x20005000) [4, 2] s = Some s' \<and>
     get_n (removeBlocked 0x20005000) (length [4, 2 :: nat]) s' = Some (map Some [4, 2], s'')"
proof -
  from empty_asl obtain s :: kstate where s: "asl s 0 [] 1 [2..<22] (\<lambda>_. [])" "lastSemd s = 0x200200FC" by blast
  have "0x20005000 \<noteq> lastSemd s" by (simp add: s(2))
  then have "sem_rep 0x20005000 s {2, 4} []" by (rule sem_repI [OF _ s(1)]) (simp_all add: blocked_def)
  moreover have "distinct [4, 2 :: nat]" "set [4, 2 :: nat] \<subseteq> {2, 4}" by simp_all
  ultimately show ?thesis using semaphore_fifo by blast
qed

text \<open>\<open>traverseASL\<close> always ends, and it finds what a search of the sorted list of addresses finds:
  the last descriptor whose address is below the one looked for, or the dummy head.\<close>

lemma traverse_finds:
  assumes "asl s h ds t fl Q"
  shows "traverseASL a s = Some (last (h # takeWhile (\<lambda>d. s_semAdd (semds s d) < a) ds))"
proof -
  have "semd_h s = Some h" "chain (sn s) (sn s h) (ds @ [t]) None" "skey s t = lastSemd s"
    "lastSemd s \<notin> skey s ` set ds" "sorted_wrt (<) (map (skey s) ds)" using assms by (simp_all add: asl_def)
  then show ?thesis using aw.walk_finds [of s h ds t None] by (simp add: traverseASL_def)
qed

text \<open>C26: The last process to leave the queue of a semaphore gives its descriptor back only if it leaves
  through \<open>removeBlocked\<close>. \<open>outBlocked\<close>, by which terminated processes leave, keeps the descriptor of a queue
  that has become empty in the list, so that one descriptor less is free. With none left \<open>insertBlocked\<close>
  refuses to block a process on any semaphore that has no descriptor.\<close>

theorem outBlocked_leaks:
  assumes "asl s h ds t fl Q" "Q a = [p]"
  shows "\<exists>s1 s2 ds2 fl2. outBlocked (Some p) s = Some (Some p, s1) \<and> asl s1 h ds t fl (Q(a := [])) \<and>
     removeBlocked a s = Some (Some p, s2) \<and> asl s2 h ds2 t fl2 (Q(a := [])) \<and> length fl2 = Suc (length fl) \<and>
     (fl = [] \<longrightarrow> (\<forall>b q. b \<notin> skey s ` set ds \<and> b \<noteq> lastSemd s \<longrightarrow> insertBlocked b q s1 = Some (TRUE, s1)))"
proof -
  have "p \<in> set (Q a)" using assms(2) by simp
  from outBlocked_some [OF assms(1) this] obtain s1 where
    s1: "outBlocked (Some p) s = Some (Some p, s1)" "asl s1 h ds t fl (Q(a := []))" "skey s1 = skey s"
      "bframe (set (Q a)) {} s s1" unfolding assms(2) by auto
  from removeBlocked_some [OF assms] obtain s2 ds2 fl2 where
    "removeBlocked a s = Some (Some p, s2)" "asl s2 h ds2 t fl2 (Q(a := []))" "length fl2 = Suc (length fl)" by auto
  moreover have "insertBlocked b q s1 = Some (TRUE, s1)" if "fl = []" "b \<notin> skey s ` set ds" "b \<noteq> lastSemd s" for b q
    using insertBlocked_full [of s1 h ds t "Q(a := [])" b q] s1(2) that bframe_fields(11) [OF s1(4)] fun_cong [OF s1(3)] by (simp add: image_def)
  ultimately show ?thesis using s1(1,2) by blast
qed

theorem outBlocked_leaks_witness:
  "\<exists>(s :: kstate) s1 s2 ds fl fl2 ds2. outBlocked (Some 4) s = Some (Some 4, s1) \<and> asl s1 0 ds 1 fl (\<lambda>_. []) \<and>
     removeBlocked 0x20005000 s = Some (Some 4, s2) \<and> asl s2 0 ds2 1 fl2 (\<lambda>_. []) \<and> length fl2 = Suc (length fl)"
proof -
  from empty_asl obtain s0 :: kstate where s0: "asl s0 0 [] 1 [2..<22] (\<lambda>_. [])" "lastSemd s0 = 0x200200FC" by blast
  have a: "0x20005000 \<noteq> lastSemd s0" by (simp add: s0(2))
  from insertBlocked_spec [OF s0(1) a, of 4] obtain s :: kstate and ds fl where
    s: "asl s 0 ds 1 fl ((\<lambda>_. [])(0x20005000 := [4]))" by (auto simp: blocked_def)
  have "((\<lambda>_. [])(0x20005000 := [4])) (0x20005000 :: u32) = [4 :: nat]" by simp
  from outBlocked_leaks [OF s this] show ?thesis unfolding fun_upd_upd fun_upd_Nil by blast
qed

section \<open>The test program\<close>

text \<open>C27: The test program of phase 1 passes: with the modelled operations of both modules, whatever the memory
  holds before, no test fails, the program comes to its end, and the buffer has exactly the messages of
  success, from the first to the last. All that is assumed is that the terminal does not stay busy for ever and that the
  semaphores of the test lie apart from each other and from the last descriptor.\<close>

theorem phase1_test_passes:
  assumes "\<forall>i. \<exists>j\<ge>i. term_status s j AND STATUSMASK \<noteq> BUSY" "okbuf s = []"
    and "\<forall>i<20. sem_at i s \<noteq> lastSemd s \<and> sem_at i s \<noteq> onesem s" "onesem s \<noteq> lastSemd s"
  shows "\<exists>s'. p1_main s = Some (None, s') \<and> okbuf s' = concat (map line p1_messages)"
  using p1_main_ok [of s] assms by (simp add: talks_def p1_layout_def)

text \<open>A terminal that is busy at every other reading.\<close>

definition test_state :: p1mem where
  "test_state = \<lparr>pcbs = (\<lambda>_. fresh_pcb), pcbFree_h = None, semds = (\<lambda>_. \<lparr>s_next = None, s_semAdd = 0, s_procQ = None\<rparr>),
     semdFree_h = None, semd_h = None, semdTable_addr = 0x20020000, okbuf = [], errbuf = [], sem = 0x20010000, onesem = 0x20010100,
     procp = (\<lambda>_. None), term_status = (\<lambda>n. if even n then 5 else 3), term_reads = 0, term_cmds = []\<rparr>"

theorem phase1_test_passes_witness:
  "\<exists>s'. p1_main test_state = Some (None, s') \<and> okbuf s' = concat (map line p1_messages)"
proof (rule phase1_test_passes)
  have "5 AND STATUSMASK \<noteq> BUSY" by code_simp
  then have "i \<le> 2 * i \<and> term_status test_state (2 * i) AND STATUSMASK \<noteq> BUSY" for i by (simp add: test_state_def)
  then show "\<forall>i. \<exists>j\<ge>i. term_status test_state j AND STATUSMASK \<noteq> BUSY" by blast
  show "okbuf test_state = []" by (simp add: test_state_def)
  have "\<forall>i\<in>set [0..<20]. sem_at i test_state \<noteq> lastSemd test_state \<and> sem_at i test_state \<noteq> onesem test_state" by code_simp
  then show "\<forall>i<20. sem_at i test_state \<noteq> lastSemd test_state \<and> sem_at i test_state \<noteq> onesem test_state"
    unfolding set_upt by simp
  show "onesem test_state \<noteq> lastSemd test_state" by code_simp
qed

end
