(* ===== verification/Support.thy ===== *)
theory Support
  imports Exceptions
begin

text \<open>
  The state of the support level and the parts of \<^verbatim>\<open>phase3\<close> that its other modules use: the page
  table of a user process (\<^verbatim>\<open>initProc.c\<close>), the swap pool table (\<^verbatim>\<open>vmSupport.c\<close>) and the end of a
  user process (\<^verbatim>\<open>sysSupport.c\<close>).

  The support level runs as a process and asks the kernel through the library's
  \<open>SYSCALL(number, a1, a2, a3)\<close>. That function is a parameter \<open>K\<close> here: given the arguments and
  the state, it yields what the caller finds in \<open>v0\<close> and the state when the call returns, which
  includes all that other processes and the devices do while the caller waits, or \<open>None\<close>
  if the call does not return. So a \<open>None\<close> of a function of this level says that control does not
  get behind it: the process has ended or waits for ever, or the code has no defined continuation.
\<close>

section \<open>State\<close>

record supstate = kstate +
  swapPoolTable :: "nat \<Rightarrow> swapPoolFrame_t"
  nextFrame :: u32
  swapPoolSema4_addr :: u32
  masterSemaphore_addr :: u32
  mutex_addr :: u32
  delayds :: "nat \<Rightarrow> delayd_t"
  delaydFree_h :: ptr
  delayd_h :: ptr
  ADL_mutex_addr :: u32
  bytes :: "u32 \<Rightarrow> 8 word"
  cp0_EntryHi :: u32
  cp0_EntryLo :: u32
  tlb :: "pte_t list"
  tod :: "nat \<Rightarrow> u32"
  tod_reads :: nat

type_synonym 's calls = "u32 \<Rightarrow> u32 \<Rightarrow> u32 \<Rightarrow> u32 \<Rightarrow> 's \<Rightarrow> (u32 \<times> 's) option"

text \<open>\<open>&mutex[i]\<close>, and the offsets in \<open>support_t\<close> of its integer areas.\<close>

definition mutex :: "u32 \<Rightarrow> 'a supstate_scheme \<Rightarrow> u32" where
  "mutex i s = mutex_addr s + 4 * i"

definition sup_stackTlb :: "u32 \<Rightarrow> u32 \<Rightarrow> u32" where
  "sup_stackTlb a i = a + 564 + 4 * i"

definition sup_stackGen :: "u32 \<Rightarrow> u32 \<Rightarrow> u32" where
  "sup_stackGen a i = a + 2564 + 4 * i"

definition delaySem :: "u32 \<Rightarrow> u32" where
  "delaySem a = a + 4564"

definition getSTATUS :: "'a supstate_scheme \<Rightarrow> u32" where
  "getSTATUS s = status s"

text \<open>The time of day clock runs on its own: \<open>tod n\<close> is its value at the \<open>n\<close>-th reading.\<close>

definition STCK :: "'a supstate_scheme \<Rightarrow> (u32 \<times> 'a supstate_scheme) option" where
  "STCK s = (if mem s TIMESCALEADDR = 0 then None
     else Some (cdiv (tod s (tod_reads s)) (mem s TIMESCALEADDR), s\<lparr>tod_reads := Suc (tod_reads s)\<rparr>))"

text \<open>The TLB: the entries written since it was last cleared, the last one first. The hardware
  chooses which of them it still has.\<close>

definition TLBWR :: "'a supstate_scheme \<Rightarrow> 'a supstate_scheme" where
  "TLBWR s = s\<lparr>tlb := \<lparr>EntryHi = cp0_EntryHi s, EntryLo = cp0_EntryLo s\<rparr> # tlb s\<rparr>"

definition TLBCLR :: "'a supstate_scheme \<Rightarrow> 'a supstate_scheme" where
  "TLBCLR s = s\<lparr>tlb := []\<rparr>"

section \<open>Page tables\<close>

definition pgTbl :: "u32 \<Rightarrow> nat \<Rightarrow> 'a kstate_scheme \<Rightarrow> pte_t" where
  "pgTbl a i s = sup_privatePgTbl (supports s a) i"

definition upd_pte :: "u32 \<Rightarrow> nat \<Rightarrow> (pte_t \<Rightarrow> pte_t) \<Rightarrow> 'a kstate_scheme \<Rightarrow> 'a kstate_scheme" where
  "upd_pte a i f s = upd_support a (\<lambda>sup. sup\<lparr>sup_privatePgTbl :=
     (sup_privatePgTbl sup)(i := f (sup_privatePgTbl sup i))\<rparr>) s"

definition init_Uproc_pgTable :: "u32 \<Rightarrow> 'a kstate_scheme \<Rightarrow> 'a kstate_scheme" where
  "init_Uproc_pgTable currentSupport s =
     (let s = fold (\<lambda>i s.
           (let s = upd_pte currentSupport i (\<lambda>p. p\<lparr>EntryHi := KUSEG + (of_nat i * PAGESIZE) +
                      push_bit ASID_SHIFT (sup_asid (supports s currentSupport))\<rparr>) s
            in upd_pte currentSupport i (\<lambda>p. p\<lparr>EntryLo := (DBITON AND GBITOFF) AND VBITOFF\<rparr>) s))
         [0..<PAGE_TABLE_SIZE] s
      in upd_pte currentSupport (PAGE_TABLE_SIZE - 1) (\<lambda>p. p\<lparr>EntryHi := UPROC_STACK_AREA +
           push_bit ASID_SHIFT (sup_asid (supports s currentSupport))\<rparr>) s)"

section \<open>The swap pool table\<close>

definition upd_frame :: "nat \<Rightarrow> (swapPoolFrame_t \<Rightarrow> swapPoolFrame_t) \<Rightarrow> 'a supstate_scheme \<Rightarrow> 'a supstate_scheme" where
  "upd_frame i f s = s\<lparr>swapPoolTable := (swapPoolTable s)(i := f (swapPoolTable s i))\<rparr>"

definition initSwapStruct :: "'a supstate_scheme \<Rightarrow> 'a supstate_scheme" where
  "initSwapStruct s =
     (let s = fold (\<lambda>i. upd_frame i (\<lambda>f. f\<lparr>sw_ASID := -1, sw_VPN := -1, matchingPgTableEntry := None\<rparr>))
           [0..<SWAP_POOL_SIZE] s
      in poke (swapPoolSema4_addr s) 1 s)"

definition page_replace :: "'a supstate_scheme \<Rightarrow> u32 \<times> 'a supstate_scheme" where
  "page_replace s =
     (case find (\<lambda>pickedFrame. sw_ASID (swapPoolTable s pickedFrame) = -1) [0..<SWAP_POOL_SIZE] of
        Some pickedFrame \<Rightarrow>
          (let s = (if of_nat pickedFrame = nextFrame s
                    then s\<lparr>nextFrame := cmod (nextFrame s + 1) (of_nat SWAP_POOL_SIZE)\<rparr> else s)
           in (of_nat pickedFrame, s))
      | None \<Rightarrow>
          (let selectedFrame = nextFrame s;
               s = s\<lparr>nextFrame := cmod (nextFrame s + 1) (of_nat SWAP_POOL_SIZE)\<rparr>
           in (selectedFrame, s)))"

section \<open>The end of a user process\<close>

definition TERMINATE :: "'a supstate_scheme calls \<Rightarrow> u32 \<Rightarrow> 'a supstate_scheme \<Rightarrow> 'a supstate_scheme option" where
  "TERMINATE K passedUpSupportStruct s = do {
     let s = setSTATUS (getSTATUS s AND NOT IECBITON) s;
     (_, s) \<leftarrow> K PASSERN (swapPoolSema4_addr s) 0 0 s;
     let s = fold (\<lambda>i s. if sw_ASID (swapPoolTable s i) = sup_asid (supports s passedUpSupportStruct)
           then upd_frame i (\<lambda>f. f\<lparr>sw_ASID := -1, sw_VPN := -1, matchingPgTableEntry := None\<rparr>) s else s)
         [0..<SWAP_POOL_SIZE] s;
     (_, s) \<leftarrow> K VERHO (swapPoolSema4_addr s) 0 0 s;
     let s = fold (\<lambda>i. upd_pte passedUpSupportStruct i (\<lambda>p. p\<lparr>EntryLo := EntryLo p AND NOT (PFN_MASK + VBITON)\<rparr>))
         [0..<PAGE_TABLE_SIZE] s;
     let s = setSTATUS (getSTATUS s OR IECBITON) s;
     (_, s) \<leftarrow> K VERHO (masterSemaphore_addr s) 0 0 s;
     (_, s) \<leftarrow> K TERMINATETHREAD 0 0 0 s;
     Some s
   }"

definition program_trap_handler ::
    "'a supstate_scheme calls \<Rightarrow> u32 \<Rightarrow> u32 \<Rightarrow> 'a supstate_scheme \<Rightarrow> 'a supstate_scheme option" where
  "program_trap_handler K passedUpSupportStruct heldSemd s = do {
     s \<leftarrow> (if heldSemd \<noteq> NULL then do { (_, s) \<leftarrow> K VERHO heldSemd 0 0 s; Some s } else Some s);
     TERMINATE K passedUpSupportStruct s
   }"

end
