(* ===== verification/Vm.thy ===== *)
theory Vm
  imports Support
begin

text \<open>
  \<^verbatim>\<open>phase3/vmSupport.c\<close>: the TLB refill handler of the kernel, and the pager with its disk transfers.
\<close>

section \<open>TLB refill\<close>

definition uTLB_RefillHandler :: "'a supstate_scheme \<Rightarrow> (exit \<times> 'a supstate_scheme) option" where
  "uTLB_RefillHandler s = do {
     let missingVPN = drop_bit VPN_SHIFT (s_entryHI (bios s)) AND VPN_MASK;
     let missingVPN_idx_in_pgTable = cmod missingVPN (of_nat PAGE_TABLE_SIZE);
     c \<leftarrow> currentP s;
     let currentSupport = p_supportStruct (pcbs s c);
     if currentSupport = NULL then None
     else do {
       let pte = pgTbl currentSupport (unat missingVPN_idx_in_pgTable) s;
       let s = s\<lparr>cp0_EntryHi := EntryHi pte\<rparr>;
       let s = s\<lparr>cp0_EntryLo := EntryLo pte\<rparr>;
       let s = TLBWR s;
       Some (LDST (bios s), s)
     }
   }"

section \<open>Transfers\<close>

text \<open>C leaves division by zero undefined.\<close>

definition int_div :: "u32 \<Rightarrow> u32 \<Rightarrow> u32 option" where
  "int_div a b = (if b = 0 then None else Some (cdiv a b))"

definition int_mod :: "u32 \<Rightarrow> u32 \<Rightarrow> u32 option" where
  "int_mod a b = (if b = 0 then None else Some (cmod a b))"

definition read_write_flash ::
    "'a supstate_scheme calls \<Rightarrow> u32 \<Rightarrow> u32 \<Rightarrow> u32 \<Rightarrow> u32 \<Rightarrow> 'a supstate_scheme \<Rightarrow> 'a supstate_scheme option" where
  "read_write_flash K pickedSwapPoolFrame currentSupport blockNo isRead s = do {
     let devNo = sw_ASID (swapPoolTable s (unat pickedSwapPoolFrame)) - 1;
     let devNo = (if isRead = TRUE then sup_asid (supports s currentSupport) - 1 else devNo);
     let flashSemIdx = devSemIdx FLASHINT devNo FALSE;
     let flashDevRegAdd = devAddrBase FLASHINT devNo;
     (_, s) \<leftarrow> K PASSERN (mutex flashSemIdx s) 0 0 s;
     let s = upd_dev flashDevRegAdd (d_data0_update (\<lambda>_. SWAP_POOL_START + (pickedSwapPoolFrame * PAGESIZE))) s;
     let flashCommand = (if isRead = FALSE then FLASHWRITE else FLASHREAD);
     let s = setSTATUS (getSTATUS s AND NOT IECBITON) s;
     let s = upd_dev flashDevRegAdd (d_command_update (\<lambda>_. push_bit COMMAND_SHIFT blockNo OR flashCommand)) s;
     (flashStatus, s) \<leftarrow> K IOWAIT FLASHINT devNo 0 s;
     let s = setSTATUS (getSTATUS s OR IECBITON) s;
     (_, s) \<leftarrow> K VERHO (mutex flashSemIdx s) 0 0 s;
     if flashStatus \<noteq> READY then program_trap_handler K currentSupport (swapPoolSema4_addr s) s else Some s
   }"

definition write_to_disk_for_pager ::
    "'a supstate_scheme calls \<Rightarrow> u32 \<Rightarrow> u32 \<Rightarrow> u32 \<Rightarrow> u32 \<Rightarrow> 'a supstate_scheme \<Rightarrow> 'a supstate_scheme option" where
  "write_to_disk_for_pager K devNo sectNo2D src currentSupport s = do {
     let disk_sem_idx = devSemIdx DISKINT devNo FALSE;
     let disk_dev_reg_addr = devAddrBase DISKINT devNo;
     let maxcyl = drop_bit 16 (d_data1 (devregs s disk_dev_reg_addr)) AND 0xFFFF;
     let maxhead = drop_bit 8 (d_data1 (devregs s disk_dev_reg_addr)) AND 0xFF;
     let maxsect = d_data1 (devregs s disk_dev_reg_addr) AND 0xFF;
     s \<leftarrow> (if sint sectNo2D > sint (maxcyl * maxhead * maxsect)
           then program_trap_handler K currentSupport NULL s else Some s);
     (_, s) \<leftarrow> K PASSERN (mutex disk_sem_idx s) 0 0 s;
     inTrack \<leftarrow> int_mod sectNo2D (maxhead * maxsect);
     sectNo \<leftarrow> int_mod inTrack maxsect;
     headNo \<leftarrow> int_div inTrack maxsect;
     cylNo \<leftarrow> int_div sectNo2D (maxhead * maxsect);
     let s = setSTATUS (getSTATUS s AND NOT IECBITON) s;
     let s = upd_dev disk_dev_reg_addr (d_command_update (\<lambda>_. push_bit CYLNUM_SHIFT cylNo + SEEKCYL)) s;
     (disk_status, s) \<leftarrow> K IOWAIT DISKINT devNo 0 s;
     let s = setSTATUS (getSTATUS s OR IECBITON) s;
     if disk_status \<noteq> READY then do {
       (_, s) \<leftarrow> K VERHO (mutex disk_sem_idx s) 0 0 s;
       Some s
     }
     else do {
       let s = upd_dev disk_dev_reg_addr (d_data0_update (\<lambda>_. src)) s;
       let s = setSTATUS (getSTATUS s AND NOT IECBITON) s;
       let s = upd_dev disk_dev_reg_addr (d_command_update (\<lambda>_.
           push_bit HEADNUM_SHIFT headNo + push_bit SECTNUM_SHIFT sectNo + WRITEBLK_DSK)) s;
       (disk_status, s) \<leftarrow> K IOWAIT DISKINT devNo 0 s;
       let s = setSTATUS (getSTATUS s OR IECBITON) s;
       (_, s) \<leftarrow> K VERHO (mutex disk_sem_idx s) 0 0 s;
       Some s
     }
   }"

definition read_from_disk_for_pager ::
    "'a supstate_scheme calls \<Rightarrow> u32 \<Rightarrow> u32 \<Rightarrow> u32 \<Rightarrow> u32 \<Rightarrow> 'a supstate_scheme \<Rightarrow> 'a supstate_scheme option" where
  "read_from_disk_for_pager K devNo sectNo2D dst currentSupport s = do {
     let disk_sem_idx = devSemIdx DISKINT devNo FALSE;
     let disk_dev_reg_addr = devAddrBase DISKINT devNo;
     let maxcyl = drop_bit 16 (d_data1 (devregs s disk_dev_reg_addr)) AND 0xFFFF;
     let maxhead = drop_bit 8 (d_data1 (devregs s disk_dev_reg_addr)) AND 0xFF;
     let maxsect = d_data1 (devregs s disk_dev_reg_addr) AND 0xFF;
     s \<leftarrow> (if sint sectNo2D > sint (maxcyl * maxhead * maxsect)
           then program_trap_handler K currentSupport NULL s else Some s);
     (_, s) \<leftarrow> K PASSERN (mutex disk_sem_idx s) 0 0 s;
     inTrack \<leftarrow> int_mod sectNo2D (maxhead * maxsect);
     sectNo \<leftarrow> int_mod inTrack maxsect;
     headNo \<leftarrow> int_div inTrack maxsect;
     cylNo \<leftarrow> int_div sectNo2D (maxhead * maxsect);
     let s = setSTATUS (getSTATUS s AND NOT IECBITON) s;
     let s = upd_dev disk_dev_reg_addr (d_command_update (\<lambda>_. push_bit CYLNUM_SHIFT cylNo + SEEKCYL)) s;
     (disk_status, s) \<leftarrow> K IOWAIT DISKINT devNo 0 s;
     let s = setSTATUS (getSTATUS s OR IECBITON) s;
     if disk_status \<noteq> READY then do {
       (_, s) \<leftarrow> K VERHO (mutex disk_sem_idx s) 0 0 s;
       Some s
     }
     else do {
       let s = upd_dev disk_dev_reg_addr (d_data0_update (\<lambda>_. dst)) s;
       let s = setSTATUS (getSTATUS s AND NOT IECBITON) s;
       let s = upd_dev disk_dev_reg_addr (d_command_update (\<lambda>_.
           push_bit HEADNUM_SHIFT headNo + push_bit SECTNUM_SHIFT sectNo + READBLK_DSK)) s;
       (disk_status, s) \<leftarrow> K IOWAIT DISKINT devNo 0 s;
       let s = setSTATUS (getSTATUS s OR IECBITON) s;
       (_, s) \<leftarrow> K VERHO (mutex disk_sem_idx s) 0 0 s;
       Some s
     }
   }"

section \<open>The pager\<close>

text \<open>The page table has 32 entries; an index outside it is not an entry.\<close>

definition TLB_exception_handler :: "'a supstate_scheme calls \<Rightarrow> 'a supstate_scheme \<Rightarrow> (exit \<times> 'a supstate_scheme) option" where
  "TLB_exception_handler K s = do {
     (currentSupport, s) \<leftarrow> K SUPPORTGET 0 0 0 s;
     let TLBcause = CauseExcCode (s_cause (sup_exceptState (supports s currentSupport) PGFAULTEXCEPT));
     s \<leftarrow> (if TLBcause = TLB_MOD then program_trap_handler K currentSupport NULL s else Some s);
     (_, s) \<leftarrow> K PASSERN (swapPoolSema4_addr s) 0 0 s;
     let missingVPN = drop_bit VPN_SHIFT (s_entryHI (sup_exceptState (supports s currentSupport) PGFAULTEXCEPT)) AND VPN_MASK;
     let pgTableIndex = (if missingVPN = UPROC_STACK_VPN then of_nat PAGE_TABLE_SIZE - 1 else missingVPN - STARTVPN);
     let (pickedFrame, s) = page_replace s;
     s \<leftarrow> (if sw_ASID (swapPoolTable s (unat pickedFrame)) \<noteq> -1 then do {
         let s = setSTATUS (getSTATUS s AND NOT IECBITON) s;
         (a, i) \<leftarrow> matchingPgTableEntry (swapPoolTable s (unat pickedFrame));
         let s = upd_pte a i (\<lambda>p. p\<lparr>EntryLo := (DBITON AND GBITOFF) AND VBITOFF\<rparr>) s;
         let s = TLBCLR s;
         let write_out_pg_tbl = (if sw_VPN (swapPoolTable s (unat pickedFrame)) = UPROC_STACK_VPN
               then of_nat PAGE_TABLE_SIZE - 1 else sw_VPN (swapPoolTable s (unat pickedFrame)) - STARTVPN);
         let s = setSTATUS (getSTATUS s OR IECBITON) s;
         if EntryLo (pgTbl a i s) AND DBITON = DBITON
         then write_to_disk_for_pager K RESERVED_DISK_NO
                (32 * (sw_ASID (swapPoolTable s (unat pickedFrame)) - 1) + write_out_pg_tbl)
                (SWAP_POOL_START + (pickedFrame * PAGESIZE)) currentSupport s
         else Some s
       }
       else Some s);
     s \<leftarrow> read_from_disk_for_pager K RESERVED_DISK_NO
            (32 * (sup_asid (supports s currentSupport) - 1) + pgTableIndex)
            (SWAP_POOL_START + (pickedFrame * PAGESIZE)) currentSupport s;
     if unat pgTableIndex \<ge> PAGE_TABLE_SIZE then None
     else do {
       let s = upd_frame (unat pickedFrame) (\<lambda>f. f\<lparr>sw_ASID := sup_asid (supports s currentSupport)\<rparr>) s;
       let s = upd_frame (unat pickedFrame) (\<lambda>f. f\<lparr>sw_VPN := missingVPN\<rparr>) s;
       let s = upd_frame (unat pickedFrame) (\<lambda>f. f\<lparr>matchingPgTableEntry := Some (currentSupport, unat pgTableIndex)\<rparr>) s;
       let s = setSTATUS (getSTATUS s AND NOT IECBITON) s;
       let s = upd_pte currentSupport (unat pgTableIndex) (\<lambda>p. p\<lparr>EntryLo := SWAP_POOL_START + (pickedFrame * PAGESIZE)\<rparr>) s;
       let s = upd_pte currentSupport (unat pgTableIndex) (\<lambda>p. p\<lparr>EntryLo := EntryLo p OR VBITON\<rparr>) s;
       let s = upd_pte currentSupport (unat pgTableIndex) (\<lambda>p. p\<lparr>EntryLo := EntryLo p OR DBITON\<rparr>) s;
       let s = TLBCLR s;
       let s = setSTATUS (getSTATUS s OR IECBITON) s;
       (_, s) \<leftarrow> K VERHO (swapPoolSema4_addr s) 0 0 s;
       Some (LDST (sup_exceptState (supports s currentSupport) PGFAULTEXCEPT), s)
     }
   }"

end
