(* ===== verification/Paging.thy ===== *)
theory Paging
  imports Vm
begin

text \<open>
  Facts about the page tables and the swap pool: what \<open>init_Uproc_pgTable\<close> leaves behind, which
  entry the refill handler takes, and which frame \<open>page_replace\<close> picks.
\<close>

section \<open>Page numbers\<close>

lemma VPN_MASK_mask: "VPN_MASK = mask 20"
  unfolding VPN_MASK_def by (simp add: mask_eq_exp_minus_1)

text \<open>The page number in an entry.\<close>

definition vpn :: "u32 \<Rightarrow> u32" where
  "vpn w = drop_bit VPN_SHIFT w AND VPN_MASK"

lemma vpn_entry:
  assumes "p < 2 ^ 20" "a < 64"
  shows "vpn (of_nat p * PAGESIZE + push_bit ASID_SHIFT a) = of_nat p"
proof -
  have a: "unat a < 64" using assms(2) by (simp add: word_less_nat_alt)
  have "unat (of_nat p * PAGESIZE + push_bit ASID_SHIFT a :: u32) = p * 4096 + unat a * 64"
    using assms(1) a
    by (simp add: PAGESIZE_def ASID_SHIFT_def push_bit_eq_mult unat_word_ariths unat_of_nat)
  then have "unat (drop_bit 12 (of_nat p * PAGESIZE + push_bit ASID_SHIFT a :: u32)) = p"
    using a unfolding unat_drop_bit_eq by (simp add: drop_bit_eq_div)
  then have "drop_bit 12 (of_nat p * PAGESIZE + push_bit ASID_SHIFT a) = (of_nat p :: u32)"
    using assms(1) by (simp add: word_unat_eq_iff unat_of_nat)
  moreover have "take_bit 20 (of_nat p :: u32) = of_nat p"
    using assms(1) by (simp add: take_bit_of_nat take_bit_nat_eq_self)
  ultimately show ?thesis by (simp add: vpn_def VPN_SHIFT_def VPN_MASK_mask take_bit_eq_mask [symmetric])
qed
definition page_number :: "nat \<Rightarrow> nat" where
  "page_number i = (if i = 31 then 0xBFFFF else 0x80000 + i)"

text \<open>The pages of a user process: 31 of text and data, and the stack.\<close>

definition user_page :: "u32 \<Rightarrow> bool" where
  "user_page p \<longleftrightarrow> (\<exists>i<32. p = of_nat (page_number i))"

lemma page_number_mod: "i < 32 \<Longrightarrow> page_number i mod 32 = i"
  using mod_mult_self1 [where a = i and b = 32 and c = "0x4000"] by (auto simp: page_number_def add.commute)

section \<open>Page tables\<close>

lemma upd_pte_sel [simp]:
  "pgTbl b j (upd_pte a i f s) = (if b = a \<and> j = i then f (pgTbl a i s) else pgTbl b j s)"
  "sup_asid (supports (upd_pte a i f s) b) = sup_asid (supports s b)"
  "sup_exceptState (supports (upd_pte a i f s) b) = sup_exceptState (supports s b)"
  "sup_exceptContext (supports (upd_pte a i f s) b) = sup_exceptContext (supports s b)"
  "mem (upd_pte a i f s) = mem s" "devregs (upd_pte a i f s) = devregs s" "states (upd_pte a i f s) = states s"
  by (simp_all add: upd_pte_def upd_support_def pgTbl_def)

text \<open>The table that \<open>init_Uproc_pgTable\<close> makes: no page is present, all may be written, none is global.\<close>

definition fresh_pte :: "u32 \<Rightarrow> nat \<Rightarrow> pte_t" where
  "fresh_pte asid i = \<lparr>EntryHi = of_nat (page_number i) * PAGESIZE + push_bit ASID_SHIFT asid, EntryLo = DBITON\<rparr>"

lemma init_pgTable_loop:
  "fold (\<lambda>i s. upd_pte a i (\<lambda>p. p\<lparr>EntryLo := l\<rparr>) (upd_pte a i (\<lambda>p. p\<lparr>EntryHi := KUSEG + of_nat i * PAGESIZE +
      push_bit ASID_SHIFT (sup_asid (supports s a))\<rparr>) s)) [0..<n] s = s' \<Longrightarrow>
   pgTbl b j s' = (if b = a \<and> j < n then \<lparr>EntryHi = KUSEG + of_nat j * PAGESIZE + push_bit ASID_SHIFT (sup_asid (supports s a)),
      EntryLo = l\<rparr> else pgTbl b j s) \<and> sup_asid (supports s' b) = sup_asid (supports s b)"
proof (induction n arbitrary: b j s')
  case (Suc n)
  let ?s = "fold (\<lambda>i s. upd_pte a i (\<lambda>p. p\<lparr>EntryLo := l\<rparr>) (upd_pte a i (\<lambda>p. p\<lparr>EntryHi := KUSEG + of_nat i * PAGESIZE +
      push_bit ASID_SHIFT (sup_asid (supports s a))\<rparr>) s)) [0..<n] s"
  note IH = Suc.IH [OF refl]
  show ?case using Suc.prems conjunct1 [OF IH] conjunct2 [OF IH]
    by (auto simp: less_Suc_eq intro!: pte_t.equality)
qed auto

lemma init_pgTable_entry:
  assumes "i < 32"
  shows "pgTbl a i (init_Uproc_pgTable a s) = fresh_pte (sup_asid (supports s a)) i"
proof -
  have k: "KUSEG + of_nat i * PAGESIZE = of_nat (0x80000 + i) * PAGESIZE"
    by (simp add: KUSEG_def PAGESIZE_def algebra_simps)
  have l: "(DBITON AND GBITOFF) AND VBITOFF = DBITON" by code_simp
  have u: "UPROC_STACK_AREA = of_nat 0xBFFFF * PAGESIZE" by (simp add: UPROC_STACK_AREA_def PAGESIZE_def)
  show ?thesis
    using assms init_pgTable_loop [OF refl, where a = a and l = DBITON and n = 32 and s = s and b = a]
    by (auto simp: init_Uproc_pgTable_def Let_def l u fresh_pte_def page_number_def PAGE_TABLE_SIZE_def k simp del: upt.simps)
qed

section \<open>The refill handler\<close>

lemma refill_eval:
  assumes "currentP s = Some c" "p_supportStruct (pcbs s c) = a" "a \<noteq> NULL"
  shows "\<exists>s'. uTLB_RefillHandler s = Some (LDST (bios s), s') \<and>
     tlb s' = pgTbl a (unat (vpn (s_entryHI (bios s))) mod 32) s # tlb s \<and> supports s' = supports s"
proof -
  let ?m = "vpn (s_entryHI (bios s))"
  have "?m \<le> VPN_MASK" unfolding vpn_def by (rule word_and_le1)
  then have "unat ?m \<le> 0xFFFFF" by (simp add: VPN_MASK_def word_le_nat_alt)
  then have m: "unat (cmod ?m 32) = unat ?m mod 32" using cmod_small [of ?m 32] by simp
  let ?p = "pgTbl a (unat ?m mod 32) s"
  let ?s = "TLBWR (s\<lparr>cp0_EntryHi := EntryHi ?p, cp0_EntryLo := EntryLo ?p\<rparr>)"
  have "uTLB_RefillHandler s = Some (LDST (bios ?s), ?s)"
    using assms m by (simp add: uTLB_RefillHandler_def PAGE_TABLE_SIZE_def vpn_def [symmetric] Let_def)
  moreover have "bios ?s = bios s" "tlb ?s = ?p # tlb s" "supports ?s = supports s" by (simp_all add: TLBWR_def)
  ultimately show ?thesis by auto
qed

text \<open>Within the address space the entry at the page number modulo 32 is the right one.\<close>

lemma unat_page_number: "i < 32 \<Longrightarrow> unat (of_nat (page_number i) :: u32) = page_number i"
  by (auto simp: page_number_def unat_of_nat)

lemma page_number_inj: "i < 32 \<Longrightarrow> j < 32 \<Longrightarrow> page_number i = page_number j \<Longrightarrow> i = j"
  using page_number_mod by metis

lemma table_lookup:
  assumes t: "\<forall>i<32. vpn (EntryHi (pgTbl a i s)) = of_nat (page_number i)"
  shows "vpn (EntryHi (pgTbl a (unat p mod 32) s)) = p \<longleftrightarrow> user_page p"
proof
  assume "user_page p"
  then obtain i where i: "i < 32" "p = of_nat (page_number i)" by (auto simp: user_page_def)
  then have "unat p mod 32 = i" using unat_page_number page_number_mod by simp
  with t i show "vpn (EntryHi (pgTbl a (unat p mod 32) s)) = p" by simp
next
  assume "vpn (EntryHi (pgTbl a (unat p mod 32) s)) = p"
  moreover have "unat p mod 32 < 32" by simp
  ultimately show "user_page p" using t unfolding user_page_def by metis
qed

lemma fresh_pte_vpn: "asid < 64 \<Longrightarrow> i < 32 \<Longrightarrow> vpn (EntryHi (fresh_pte asid i)) = of_nat (page_number i)"
  unfolding fresh_pte_def by (simp, rule vpn_entry) (auto simp: page_number_def)

section \<open>Choice of a frame\<close>

abbreviation free_frame :: "'a supstate_scheme \<Rightarrow> nat \<Rightarrow> bool" where
  "free_frame s f \<equiv> sw_ASID (swapPoolTable s f) = -1"

lemma next_frame: "unat n < 32 \<Longrightarrow> cmod (n + 1) (of_nat SWAP_POOL_SIZE) = of_nat ((unat n + 1) mod 32)"
proof -
  assume n: "unat n < 32"
  then have "unat (n + 1) = unat n + 1" by (simp add: unat_word_ariths)
  then have "unat (cmod (n + 1) 32) = (unat n + 1) mod 32" using cmod_small [of "n + 1" 32] n by simp
  then show ?thesis by (simp add: word_unat_eq_iff unat_of_nat SWAP_POOL_SIZE_def)
qed

lemma page_replace_free:
  assumes "unat (nextFrame s) < 32" "g < 32" "free_frame s g"
  shows "\<exists>f n. page_replace s = (of_nat f, s\<lparr>nextFrame := of_nat n\<rparr>) \<and> f < 32 \<and> free_frame s f \<and>
     (\<forall>h<f. \<not> free_frame s h) \<and> n = (if f = unat (nextFrame s) then (f + 1) mod 32 else unat (nextFrame s))"
proof -
  obtain f where f: "find (free_frame s) [0..<SWAP_POOL_SIZE] = Some f"
    using assms(2,3) by (cases "find (free_frame s) [0..<SWAP_POOL_SIZE]") (auto simp: find_None_iff SWAP_POOL_SIZE_def)
  then have p: "f < 32" "free_frame s f" "\<forall>h<f. \<not> free_frame s h"
    unfolding find_Some_iff by (auto simp: SWAP_POOL_SIZE_def)
  have "of_nat f = nextFrame s \<longleftrightarrow> f = unat (nextFrame s)" using p(1) by (simp add: word_unat_eq_iff unat_of_nat)
  then have "page_replace s = (of_nat f, s\<lparr>nextFrame := of_nat (if f = unat (nextFrame s) then (f + 1) mod 32 else unat (nextFrame s))\<rparr>)"
    using f next_frame [OF assms(1)] by (cases "f = unat (nextFrame s)") (simp_all add: page_replace_def Let_def)
  with p show ?thesis by blast
qed

lemma page_replace_full:
  assumes "unat (nextFrame s) < 32" "\<forall>g<32. \<not> free_frame s g"
  shows "page_replace s = (nextFrame s, s\<lparr>nextFrame := of_nat ((unat (nextFrame s) + 1) mod 32)\<rparr>)"
proof -
  have "find (free_frame s) [0..<SWAP_POOL_SIZE] = None" using assms(2) by (auto simp: find_None_iff SWAP_POOL_SIZE_def)
  then show ?thesis using next_frame [OF assms(1)] by (simp add: page_replace_def Let_def)
qed

text \<open>\<open>n\<close> replacements in a row.\<close>

fun victims :: "nat \<Rightarrow> 'a supstate_scheme \<Rightarrow> u32 list" where
  "victims 0 s = []"
| "victims (Suc n) s = (let (f, s) = page_replace s in f # victims n s)"

lemma victims_full:
  "unat (nextFrame s) < 32 \<Longrightarrow> \<forall>g<32. \<not> free_frame s g \<Longrightarrow>
   victims n s = map (\<lambda>j. of_nat ((unat (nextFrame s) + j) mod 32)) [0..<n]"
proof (induction n arbitrary: s)
  case (Suc n)
  let ?k = "(unat (nextFrame s) + 1) mod 32" let ?s = "s\<lparr>nextFrame := of_nat ?k\<rparr>"
  have k: "unat (nextFrame ?s) = ?k" by (simp add: unat_of_nat)
  have "?k < 32" by simp
  then have "victims n ?s = map (\<lambda>j. of_nat ((?k + j) mod 32)) [0..<n]"
    using Suc.IH [of ?s] Suc.prems(2) unfolding k by simp
  moreover have "(?k + j) mod 32 = (unat (nextFrame s) + Suc j) mod 32" for j by (simp add: mod_add_left_eq)
  moreover have "[0..<Suc n] = 0 # map Suc [0..<n]" by (simp only: map_Suc_upt) (simp add: upt_rec)
  ultimately show ?case using page_replace_full [OF Suc.prems] Suc.prems(1) by (simp add: comp_def)
qed simp

end
