(* ===== verification/Pager.thy ===== *)
theory Pager
  imports Paging
begin

text \<open>
  The pager on a consistent swap pool. \<open>vm_inv A s\<close> relates the swap pool table to the page tables
  of the processes with support structures in \<open>A\<close>: a frame in use names the entry of the page it
  holds, that entry is present at this frame, and every entry that is present belongs to such a
  frame. \<open>calls_ok\<close> states what the pager relies on when it calls the kernel.
\<close>

section \<open>The invariant\<close>

definition frame_addr :: "nat \<Rightarrow> u32" where
  "frame_addr f = SWAP_POOL_START + of_nat f * PAGESIZE"

definition present_pte :: "nat \<Rightarrow> u32" where
  "present_pte f = (frame_addr f OR VBITON) OR DBITON"

abbreviation present :: "u32 \<Rightarrow> nat \<Rightarrow> 'a supstate_scheme \<Rightarrow> bool" where
  "present a i s \<equiv> EntryLo (pgTbl a i s) AND VBITON \<noteq> 0"

abbreviation asid :: "u32 \<Rightarrow> 'a supstate_scheme \<Rightarrow> u32" where
  "asid a s \<equiv> sup_asid (supports s a)"

definition vm_inv :: "u32 set \<Rightarrow> 'a supstate_scheme \<Rightarrow> bool" where
  "vm_inv A s \<longleftrightarrow> unat (nextFrame s) < 32 \<and> (\<forall>a\<in>A. 1 \<le> unat (asid a s) \<and> unat (asid a s) \<le> 8) \<and>
     (\<forall>f<32. \<not> free_frame s f \<longrightarrow> (\<exists>a\<in>A. \<exists>i<32. swapPoolTable s f =
        \<lparr>sw_ASID = asid a s, sw_VPN = of_nat (page_number i), matchingPgTableEntry = Some (a, i)\<rparr> \<and>
        EntryLo (pgTbl a i s) = present_pte f)) \<and>
     (\<forall>a\<in>A. \<forall>i<32. present a i s \<longrightarrow>
        (\<exists>f<32. \<not> free_frame s f \<and> matchingPgTableEntry (swapPoolTable s f) = Some (a, i)))"

lemma vm_invD:
  assumes "vm_inv A s"
  shows "unat (nextFrame s) < 32" "a \<in> A \<Longrightarrow> 1 \<le> unat (asid a s) \<and> unat (asid a s) \<le> 8"
    "f < 32 \<Longrightarrow> \<not> free_frame s f \<Longrightarrow> \<exists>a\<in>A. \<exists>i<32. swapPoolTable s f =
        \<lparr>sw_ASID = asid a s, sw_VPN = of_nat (page_number i), matchingPgTableEntry = Some (a, i)\<rparr> \<and>
        EntryLo (pgTbl a i s) = present_pte f"
    "a \<in> A \<Longrightarrow> i < 32 \<Longrightarrow> present a i s \<Longrightarrow>
       \<exists>f<32. \<not> free_frame s f \<and> matchingPgTableEntry (swapPoolTable s f) = Some (a, i)"
  using assms unfolding vm_inv_def by blast+

lemma present_pte_eq: "f < 32 \<Longrightarrow> present_pte f = 0x20030600 + of_nat f * 0x1000 \<and> present_pte f AND VBITON \<noteq> 0"
proof -
  have "\<forall>f\<in>set [0..<32]. present_pte f = 0x20030600 + of_nat f * 0x1000 \<and> present_pte f AND VBITON \<noteq> 0"
    by code_simp
  moreover assume "f < 32"
  then have "f \<in> set [0..<32]" unfolding set_upt by simp
  ultimately show ?thesis by blast
qed

lemmas present_pte_present = conjunct2 [OF present_pte_eq]

lemma present_pte_unat: "f < 32 \<Longrightarrow> unat (present_pte f) = 0x20030600 + f * 0x1000"
  using present_pte_eq [of f] by (simp add: unat_word_ariths unat_of_nat)

lemma present_pte_inj: "f < 32 \<Longrightarrow> g < 32 \<Longrightarrow> present_pte f = present_pte g \<Longrightarrow> f = g"
  by (drule arg_cong [where f = unat]) (simp add: present_pte_unat)

lemma absent_pte: "(DBITON AND GBITOFF) AND VBITOFF = DBITON" "DBITON AND VBITON = 0" "DBITON AND DBITON = DBITON"
  by code_simp+

lemma small_asid: "unat (w :: u32) \<le> 8 \<Longrightarrow> w \<noteq> -1"
  by (auto simp: unsigned_minus_1_eq_mask mask_eq_exp_minus_1)

text \<open>The step from one consistent pool to the next: page \<open>i\<close> of \<open>me\<close> comes into frame \<open>f\<close>.\<close>

lemma vm_inv_load:
  assumes inv: "vm_inv A s" and me: "me \<in> A" and i: "i < 32" "f < 32" and np: "\<not> present me i s"
    and t: "swapPoolTable s' = (swapPoolTable s)(f := \<lparr>sw_ASID = asid me s, sw_VPN = of_nat (page_number i),
       matchingPgTableEntry = Some (me, i)\<rparr>)" and n: "unat (nextFrame s') < 32" and as: "\<forall>a. asid a s' = asid a s"
    and p: "\<forall>a j. EntryLo (pgTbl a j s') = (if a = me \<and> j = i then present_pte f
       else if \<not> free_frame s f \<and> matchingPgTableEntry (swapPoolTable s f) = Some (a, j) then DBITON
       else EntryLo (pgTbl a j s))"
  shows "vm_inv A s'"
proof -
  note d = vm_invD [OF inv]
  have mine: "asid me s \<noteq> -1" using d(2) [OF me] small_asid by blast
  have 1: "\<exists>a\<in>A. \<exists>j<32. swapPoolTable s' g =
        \<lparr>sw_ASID = asid a s', sw_VPN = of_nat (page_number j), matchingPgTableEntry = Some (a, j)\<rparr> \<and>
        EntryLo (pgTbl a j s') = present_pte g" if g: "g < 32" "\<not> free_frame s' g" for g
  proof (cases "g = f")
    case True
    then show ?thesis using me i t as p by (intro bexI [of _ me] exI [of _ i]) simp_all
  next
    case False
    then have "\<not> free_frame s g" using g(2) t by simp
    from d(3) [OF g(1) this] obtain a j where
      a: "a \<in> A" "j < 32" "swapPoolTable s g =
        \<lparr>sw_ASID = asid a s, sw_VPN = of_nat (page_number j), matchingPgTableEntry = Some (a, j)\<rparr>"
        "EntryLo (pgTbl a j s) = present_pte g" by blast
    have "\<not> (a = me \<and> j = i)" using a(4) np present_pte_present [OF g(1)] by auto
    moreover have "\<not> (\<not> free_frame s f \<and> matchingPgTableEntry (swapPoolTable s f) = Some (a, j))"
    proof
      assume "\<not> free_frame s f \<and> matchingPgTableEntry (swapPoolTable s f) = Some (a, j)"
      with d(3) [OF i(2)] have "EntryLo (pgTbl a j s) = present_pte f" by auto
      with a(4) present_pte_inj [OF g(1) i(2)] False show False by simp
    qed
    ultimately have "EntryLo (pgTbl a j s') = present_pte g"
      by (simp only: p [THEN spec, THEN spec, of a j] a(4) if_False)
    with a False t as show ?thesis by auto
  qed
  have 2: "\<exists>g<32. \<not> free_frame s' g \<and> matchingPgTableEntry (swapPoolTable s' g) = Some (a, j)"
    if a: "a \<in> A" "j < 32" "present a j s'" for a j
  proof (cases "a = me \<and> j = i")
    case True
    then show ?thesis using i t mine by (intro exI [of _ f]) simp
  next
    case False
    have nf: "\<not> (\<not> free_frame s f \<and> matchingPgTableEntry (swapPoolTable s f) = Some (a, j))"
      using a(3) p False absent_pte(2) by (auto split: if_splits)
    have "present a j s" using a(3) nf False spec [OF spec [OF p], of a j] by auto
    from d(4) [OF a(1,2) this] obtain g where
      g: "g < 32" "\<not> free_frame s g" "matchingPgTableEntry (swapPoolTable s g) = Some (a, j)" by blast
    moreover have "g \<noteq> f" using g nf by blast
    ultimately show ?thesis using t by (intro exI [of _ g]) simp
  qed
  show ?thesis unfolding vm_inv_def using n d(2) as 1 2 by auto
qed

section \<open>The kernel as the pager needs it\<close>

abbreviation pager_disk :: u32 where
  "pager_disk \<equiv> devAddrBase DISKINT RESERVED_DISK_NO"

text \<open>\<open>same_vm me s s'\<close>: from \<open>s\<close> to \<open>s'\<close> nothing changes that belongs to the memory management.\<close>

definition same_vm :: "u32 \<Rightarrow> 'a supstate_scheme \<Rightarrow> 'a supstate_scheme \<Rightarrow> bool" where
  "same_vm me s s' \<longleftrightarrow> swapPoolTable s' = swapPoolTable s \<and> nextFrame s' = nextFrame s \<and>
     (\<forall>a i. pgTbl a i s' = pgTbl a i s) \<and> (\<forall>a. asid a s' = asid a s) \<and>
     sup_exceptState (supports s' me) = sup_exceptState (supports s me) \<and>
     swapPoolSema4_addr s' = swapPoolSema4_addr s \<and> mutex_addr s' = mutex_addr s \<and>
     d_data1 (devregs s' pager_disk) = d_data1 (devregs s pager_disk)"

text \<open>What the pager of \<open>me\<close> relies on. The calls return. While it holds the semaphore of the swap
  pool no other process changes the memory management; while it waits for the semaphore others
  may page, but they keep the invariant and only take pages of \<open>me\<close> away.\<close>

definition calls_ok :: "'a supstate_scheme calls \<Rightarrow> u32 \<Rightarrow> u32 set \<Rightarrow> bool" where
  "calls_ok K me A \<longleftrightarrow>
     (\<forall>s. \<exists>s'. K SUPPORTGET 0 0 0 s = Some (me, s') \<and> same_vm me s s') \<and>
     (\<forall>n a b c s. n \<in> {PASSERN, VERHO, IOWAIT} \<and> \<not> (n = PASSERN \<and> a = swapPoolSema4_addr s) \<longrightarrow>
        (\<exists>r s'. K n a b c s = Some (r, s') \<and> same_vm me s s')) \<and>
     (\<forall>s. vm_inv A s \<longrightarrow> (\<exists>r s'. K PASSERN (swapPoolSema4_addr s) 0 0 s = Some (r, s') \<and> vm_inv A s' \<and>
        sup_exceptState (supports s' me) = sup_exceptState (supports s me) \<and>
        (\<forall>a. asid a s' = asid a s) \<and> (\<forall>i. \<not> present me i s \<longrightarrow> \<not> present me i s') \<and>
        swapPoolSema4_addr s' = swapPoolSema4_addr s \<and> mutex_addr s' = mutex_addr s \<and>
        d_data1 (devregs s' pager_disk) = d_data1 (devregs s pager_disk)))"

lemma calls_okD:
  assumes "calls_ok K me A"
  shows "\<exists>s'. K SUPPORTGET 0 0 0 s = Some (me, s') \<and> same_vm me s s'"
    "n \<in> {PASSERN, VERHO, IOWAIT} \<Longrightarrow> \<not> (n = PASSERN \<and> a = swapPoolSema4_addr s) \<Longrightarrow>
       \<exists>r s'. K n a b c s = Some (r, s') \<and> same_vm me s s'"
    "vm_inv A s \<Longrightarrow> \<exists>r s'. K PASSERN (swapPoolSema4_addr s) 0 0 s = Some (r, s') \<and> vm_inv A s' \<and>
        sup_exceptState (supports s' me) = sup_exceptState (supports s me) \<and>
        (\<forall>a. asid a s' = asid a s) \<and> (\<forall>i. \<not> present me i s \<longrightarrow> \<not> present me i s') \<and>
        swapPoolSema4_addr s' = swapPoolSema4_addr s \<and> mutex_addr s' = mutex_addr s \<and>
        d_data1 (devregs s' pager_disk) = d_data1 (devregs s pager_disk)"
  using assms unfolding calls_ok_def by blast+

lemma same_vm_refl [simp]: "same_vm me s s"
  by (simp add: same_vm_def)

lemma same_vm_trans: "same_vm me s s' \<Longrightarrow> same_vm me s' s'' \<Longrightarrow> same_vm me s s''"
  by (simp add: same_vm_def)

lemma same_vm_assign [simp]:
  "same_vm me s (setSTATUS v t) = same_vm me s t" "same_vm me s (upd_dev r (d_command_update f) t) = same_vm me s t"
  "same_vm me s (upd_dev r (d_data0_update f) t) = same_vm me s t"
  by (simp_all add: same_vm_def setSTATUS_def upd_dev_def pgTbl_def)

lemma same_vm_inv: "same_vm me s s' \<Longrightarrow> vm_inv A s \<Longrightarrow> vm_inv A s'"
  by (simp add: same_vm_def vm_inv_def)

section \<open>Transfers\<close>

text \<open>The disk is large enough for the pages of eight processes.\<close>

definition disk_ok :: "'a supstate_scheme \<Rightarrow> bool" where
  "disk_ok s \<longleftrightarrow> (let w = d_data1 (devregs s pager_disk); C = drop_bit 16 w AND 0xFFFF; H = drop_bit 8 w AND 0xFF; S = w AND 0xFF
     in H * S \<noteq> 0 \<and> 255 \<le> sint (C * H * S))"

text \<open>Reading and writing differ in the last command only.\<close>

definition pager_transfer ::
    "u32 \<Rightarrow> 'a supstate_scheme calls \<Rightarrow> u32 \<Rightarrow> u32 \<Rightarrow> u32 \<Rightarrow> u32 \<Rightarrow> 'a supstate_scheme \<Rightarrow> 'a supstate_scheme option" where
  "pager_transfer cmd K devNo sectNo2D addr currentSupport s = do {
     let disk_sem_idx = devSemIdx DISKINT devNo FALSE;
     let disk_dev_reg_addr = devAddrBase DISKINT devNo;
     let maxcyl = drop_bit 16 (d_data1 (devregs s disk_dev_reg_addr)) AND 0xFFFF;
     let maxhead = drop_bit 8 (d_data1 (devregs s disk_dev_reg_addr)) AND 0xFF;
     let maxsect = d_data1 (devregs s disk_dev_reg_addr) AND 0xFF;
     s \<leftarrow> (if sint sectNo2D > sint (maxcyl * maxhead * maxsect)
           then program_trap_handler K currentSupport NULL s else Some s);
     (_, s) \<leftarrow> K PASSERN (mutex disk_sem_idx s) 0 0 s;
     inTrack \<leftarrow> int_mod sectNo2D (maxhead * maxsect);
     sectNo \<leftarrow> int_mod inTrack maxsect;
     headNo \<leftarrow> int_div inTrack maxsect;
     cylNo \<leftarrow> int_div sectNo2D (maxhead * maxsect);
     let s = setSTATUS (getSTATUS s AND NOT IECBITON) s;
     let s = upd_dev disk_dev_reg_addr (d_command_update (\<lambda>_. push_bit CYLNUM_SHIFT cylNo + SEEKCYL)) s;
     (disk_status, s) \<leftarrow> K IOWAIT DISKINT devNo 0 s;
     let s = setSTATUS (getSTATUS s OR IECBITON) s;
     if disk_status \<noteq> READY then do {
       (_, s) \<leftarrow> K VERHO (mutex disk_sem_idx s) 0 0 s;
       Some s
     }
     else do {
       let s = upd_dev disk_dev_reg_addr (d_data0_update (\<lambda>_. addr)) s;
       let s = setSTATUS (getSTATUS s AND NOT IECBITON) s;
       let s = upd_dev disk_dev_reg_addr (d_command_update (\<lambda>_.
           push_bit HEADNUM_SHIFT headNo + push_bit SECTNUM_SHIFT sectNo + cmd)) s;
       (disk_status, s) \<leftarrow> K IOWAIT DISKINT devNo 0 s;
       let s = setSTATUS (getSTATUS s OR IECBITON) s;
       (_, s) \<leftarrow> K VERHO (mutex disk_sem_idx s) 0 0 s;
       Some s
     }
   }"

lemma pager_transfers:
  "write_to_disk_for_pager = pager_transfer WRITEBLK_DSK" "read_from_disk_for_pager = pager_transfer READBLK_DSK"
  by (simp_all add: fun_eq_iff write_to_disk_for_pager_def read_from_disk_for_pager_def pager_transfer_def)

lemma numbers_distinct: "PASSERN \<noteq> VERHO" "PASSERN \<noteq> IOWAIT" "devSemIdx DISKINT RESERVED_DISK_NO FALSE = 0"
  by code_simp+

lemma pager_transfer_total:
  assumes ok: "calls_ok K me A" and mx: "mutex_addr s \<noteq> swapPoolSema4_addr s" and d: "disk_ok s" and n: "sint n \<le> 255"
  shows "\<exists>s'. pager_transfer cmd K RESERVED_DISK_NO n addr cs s = Some s' \<and> same_vm me s s'"
proof -
  note held = calls_okD(2) [OF ok]
  let ?w = "d_data1 (devregs s pager_disk)"
  let ?C = "drop_bit 16 ?w AND 0xFFFF" and ?H = "drop_bit 8 ?w AND 0xFF" and ?S = "?w AND 0xFF"
  have g: "\<not> sint n > sint (?C * ?H * ?S)" "?H * ?S \<noteq> 0" "?S \<noteq> 0" using d n by (auto simp: disk_ok_def Let_def)
  have m0: "mutex (devSemIdx DISKINT RESERVED_DISK_NO FALSE) t = mutex_addr t" for t
    by (simp add: mutex_def numbers_distinct)
  obtain r1 s1 where s1: "K PASSERN (mutex_addr s) 0 0 s = Some (r1, s1)" "same_vm me s s1"
    using held [of PASSERN "mutex_addr s" s 0 0] mx by auto
  obtain inT sec hd cy where q: "int_mod n (?H * ?S) = Some inT" "int_mod inT ?S = Some sec" "int_div inT ?S = Some hd"
      "int_div n (?H * ?S) = Some cy" using g by (simp add: int_mod_def int_div_def)
  let ?s1 = "upd_dev pager_disk (d_command_update (\<lambda>_. push_bit CYLNUM_SHIFT cy + SEEKCYL))
     (setSTATUS (getSTATUS s1 AND NOT IECBITON) s1)"
  obtain r2 s2 where s2: "K IOWAIT DISKINT RESERVED_DISK_NO 0 ?s1 = Some (r2, s2)" "same_vm me ?s1 s2"
    using held [of IOWAIT DISKINT ?s1 RESERVED_DISK_NO 0] numbers_distinct by auto
  let ?s2 = "setSTATUS (getSTATUS s2 OR IECBITON) s2"
  have "same_vm me s1 ?s1" by simp
  from same_vm_trans [OF s1(2) same_vm_trans [OF this s2(2)]] have a2: "same_vm me s ?s2" by simp
  show ?thesis
  proof (cases "r2 = READY")
    case False
    obtain r3 s3 where s3: "K VERHO (mutex_addr ?s2) 0 0 ?s2 = Some (r3, s3)" "same_vm me ?s2 s3"
      using held [of VERHO "mutex_addr ?s2" ?s2 0 0] numbers_distinct by auto
    with False show ?thesis using s1(1) s2(1) q g(1) same_vm_trans [OF a2 s3(2)]
      by (intro exI [of _ s3]) (simp add: pager_transfer_def Let_def m0)
  next
    case True
    let ?s3 = "upd_dev pager_disk (d_command_update (\<lambda>_. push_bit HEADNUM_SHIFT hd + push_bit SECTNUM_SHIFT sec + cmd))
      (setSTATUS (getSTATUS (upd_dev pager_disk (d_data0_update (\<lambda>_. addr)) ?s2) AND NOT IECBITON)
        (upd_dev pager_disk (d_data0_update (\<lambda>_. addr)) ?s2))"
    obtain r4 s4 where s4: "K IOWAIT DISKINT RESERVED_DISK_NO 0 ?s3 = Some (r4, s4)" "same_vm me ?s3 s4"
      using held [of IOWAIT DISKINT ?s3 RESERVED_DISK_NO 0] numbers_distinct by auto
    let ?s4 = "setSTATUS (getSTATUS s4 OR IECBITON) s4"
    have "same_vm me s ?s3" using a2 by simp
    from same_vm_trans [OF this s4(2)] have a4: "same_vm me s ?s4" by simp
    obtain r5 s5 where s5: "K VERHO (mutex_addr ?s4) 0 0 ?s4 = Some (r5, s5)" "same_vm me ?s4 s5"
      using held [of VERHO "mutex_addr ?s4" ?s4 0 0] numbers_distinct by auto
    with True show ?thesis using s1(1) s2(1) s4(1) q g(1) same_vm_trans [OF a4 s5(2)]
      by (intro exI [of _ s5]) (simp add: pager_transfer_def Let_def m0)
  qed
qed

section \<open>Eviction\<close>

text \<open>The index in the page table that the handler computes for a page number.\<close>

definition page_index :: "u32 \<Rightarrow> u32" where
  "page_index p = (if p = UPROC_STACK_VPN then of_nat PAGE_TABLE_SIZE - 1 else p - STARTVPN)"

lemma table_index:
  assumes "i < 32"
  shows "page_index (of_nat (page_number i)) = of_nat i"
proof (cases "i = 31")
  case False
  then have "of_nat (page_number i) \<noteq> UPROC_STACK_VPN"
    using assms by (auto simp: page_number_def UPROC_STACK_VPN_def word_unat_eq_iff unat_of_nat unat_word_ariths)
  then show ?thesis using False by (simp add: page_index_def page_number_def STARTVPN_def)
qed (simp add: page_index_def page_number_def UPROC_STACK_VPN_def PAGE_TABLE_SIZE_def)

lemma sector_bound:
  assumes "1 \<le> unat (w :: u32)" "unat w \<le> 8" "i < 32"
  shows "sint (32 * (w - 1) + of_nat i) \<le> 255"
proof -
  have "1 \<le> w" using assms(1) by (simp add: word_le_nat_alt)
  then have v: "unat (w - 1) \<le> 7" using assms(2) by (simp add: unat_sub)
  have "unat (32 * v + of_nat i) = 32 * unat v + i" if "unat v \<le> 7" for v :: u32
    using that assms(3) by (simp add: unat_word_ariths unat_of_nat)
  from this [OF v] v assms(3) have "unat (32 * (w - 1) + of_nat i) \<le> 255" by linarith
  then show ?thesis using sint_small [of "32 * (w - 1) + of_nat i"] by linarith
qed

lemma vm_sel [simp]:
  "swapPoolTable (setSTATUS v s) = swapPoolTable s" "swapPoolTable (TLBCLR s) = swapPoolTable s"
  "swapPoolTable (upd_pte a i f s) = swapPoolTable s" "nextFrame (setSTATUS v s) = nextFrame s"
  "nextFrame (TLBCLR s) = nextFrame s" "nextFrame (upd_pte a i f s) = nextFrame s"
  "mutex_addr (setSTATUS v s) = mutex_addr s" "mutex_addr (TLBCLR s) = mutex_addr s"
  "mutex_addr (upd_pte a i f s) = mutex_addr s" "swapPoolSema4_addr (setSTATUS v s) = swapPoolSema4_addr s"
  "swapPoolSema4_addr (TLBCLR s) = swapPoolSema4_addr s" "swapPoolSema4_addr (upd_pte a i f s) = swapPoolSema4_addr s"
  "pgTbl b j (setSTATUS v s) = pgTbl b j s" "pgTbl b j (TLBCLR s) = pgTbl b j s"
  "supports (setSTATUS v s) = supports s" "supports (TLBCLR s) = supports s"
  "devregs (setSTATUS v s) = devregs s" "devregs (TLBCLR s) = devregs s"
  by (simp_all add: setSTATUS_def TLBCLR_def upd_pte_def upd_support_def pgTbl_def)

lemma page_replace_pick:
  assumes "unat (nextFrame s) < 32"
  obtains f n where "page_replace s = (of_nat f, s\<lparr>nextFrame := n\<rparr>)" "f < 32" "unat n < 32"
proof (cases "\<exists>g<32. free_frame s g")
  case True
  then obtain g where "g < 32" "free_frame s g" by blast
  from page_replace_free [OF assms this] obtain f n where
    "page_replace s = (of_nat f, s\<lparr>nextFrame := of_nat n\<rparr>)" "f < 32"
    "n = (if f = unat (nextFrame s) then (f + 1) mod 32 else unat (nextFrame s))" by blast
  then show ?thesis using assms by (intro that [of f "of_nat n"]) (simp_all add: unat_of_nat)
next
  case False
  from page_replace_full [OF assms] False show ?thesis
    using assms by (intro that [of "unat (nextFrame s)" "of_nat ((unat (nextFrame s) + 1) mod 32)"]) (simp_all add: unat_of_nat)
qed

text \<open>\<open>evicted f me s s'\<close>: the page in frame \<open>f\<close>, if there is one, is no longer present in \<open>s'\<close>; the
  rest of the memory management is as in \<open>s\<close>.\<close>

definition evicted :: "nat \<Rightarrow> u32 \<Rightarrow> 'a supstate_scheme \<Rightarrow> 'a supstate_scheme \<Rightarrow> bool" where
  "evicted f me s s' \<longleftrightarrow> swapPoolTable s' = swapPoolTable s \<and> nextFrame s' = nextFrame s \<and>
     (\<forall>a. asid a s' = asid a s) \<and> sup_exceptState (supports s' me) = sup_exceptState (supports s me) \<and>
     swapPoolSema4_addr s' = swapPoolSema4_addr s \<and> mutex_addr s' = mutex_addr s \<and>
     d_data1 (devregs s' pager_disk) = d_data1 (devregs s pager_disk) \<and>
     (\<forall>a i. EntryLo (pgTbl a i s') = (if \<not> free_frame s f \<and> matchingPgTableEntry (swapPoolTable s f) = Some (a, i)
        then DBITON else EntryLo (pgTbl a i s)))"

lemma evicted_same: "evicted f me s s' \<Longrightarrow> same_vm me s' s'' \<Longrightarrow> evicted f me s s''"
  by (simp add: evicted_def same_vm_def)

text \<open>The middle part of the handler, for the frame \<open>f\<close> that it has picked.\<close>

definition evict :: "'a supstate_scheme calls \<Rightarrow> u32 \<Rightarrow> u32 \<Rightarrow> 'a supstate_scheme \<Rightarrow> 'a supstate_scheme option" where
  "evict K cs f s = (if sw_ASID (swapPoolTable s (unat f)) \<noteq> -1 then do {
         let s = setSTATUS (getSTATUS s AND NOT IECBITON) s;
         (a, i) \<leftarrow> matchingPgTableEntry (swapPoolTable s (unat f));
         let s = upd_pte a i (\<lambda>p. p\<lparr>EntryLo := (DBITON AND GBITOFF) AND VBITOFF\<rparr>) s;
         let s = TLBCLR s;
         let write_out_pg_tbl = page_index (sw_VPN (swapPoolTable s (unat f)));
         let s = setSTATUS (getSTATUS s OR IECBITON) s;
         if EntryLo (pgTbl a i s) AND DBITON = DBITON
         then write_to_disk_for_pager K RESERVED_DISK_NO
                (32 * (sw_ASID (swapPoolTable s (unat f)) - 1) + write_out_pg_tbl)
                (SWAP_POOL_START + (f * PAGESIZE)) cs s
         else Some s
       }
       else Some s)"

lemma evict_step:
  assumes ok: "calls_ok K me A" and inv: "vm_inv A s" and mx: "mutex_addr s \<noteq> swapPoolSema4_addr s"
    and d: "disk_ok s" and f: "f < 32"
  shows "\<exists>s'. evict K cs (of_nat f) s = Some s' \<and> evicted f me s s'"
proof -
  have uf: "unat (of_nat f :: u32) = f" using f by (simp add: unat_of_nat)
  show ?thesis
  proof (cases "free_frame s f")
    case True
    then show ?thesis by (simp add: uf evicted_def evict_def)
  next
    case False
    from vm_invD(3) [OF inv f False] obtain a i where a: "a \<in> A" "i < 32"
      "swapPoolTable s f = \<lparr>sw_ASID = asid a s, sw_VPN = of_nat (page_number i), matchingPgTableEntry = Some (a, i)\<rparr>"
      by blast
    let ?s1 = "upd_pte a i (\<lambda>p. p\<lparr>EntryLo := DBITON\<rparr>) (setSTATUS (getSTATUS s AND NOT IECBITON) s)"
    let ?s2 = "setSTATUS (getSTATUS (TLBCLR ?s1) OR IECBITON) (TLBCLR ?s1)"
    have e: "evicted f me s ?s2" using False a(3) by (auto simp: evicted_def)
    have n: "sint (32 * (asid a s - 1) + of_nat i) \<le> 255" using sector_bound vm_invD(2) [OF inv a(1)] a(2) by blast
    have m2: "mutex_addr ?s2 \<noteq> swapPoolSema4_addr ?s2" "disk_ok ?s2" using mx d by (simp_all add: disk_ok_def)
    from pager_transfer_total [OF ok m2 n] obtain s' where
      s': "pager_transfer WRITEBLK_DSK K RESERVED_DISK_NO (32 * (asid a s - 1) + of_nat i)
         (SWAP_POOL_START + of_nat f * PAGESIZE) cs ?s2 = Some s'" "same_vm me ?s2 s'" by blast
    from False s'(1) evicted_same [OF e s'(2)] show ?thesis
      by (simp add: evict_def Let_def uf a(3) absent_pte pager_transfers table_index [OF a(2)])
  qed
qed

section \<open>The handler\<close>

text \<open>The last part: page \<open>i\<close> of \<open>me\<close>, which has been read, is entered in both tables.\<close>

definition install :: "u32 \<Rightarrow> u32 \<Rightarrow> u32 \<Rightarrow> 'a supstate_scheme \<Rightarrow> 'a supstate_scheme" where
  "install me p f s =
     (let s = upd_frame (unat f) (\<lambda>x. x\<lparr>sw_ASID := asid me s\<rparr>) s;
          s = upd_frame (unat f) (\<lambda>x. x\<lparr>sw_VPN := p\<rparr>) s;
          s = upd_frame (unat f) (\<lambda>x. x\<lparr>matchingPgTableEntry := Some (me, unat (page_index p))\<rparr>) s;
          s = setSTATUS (getSTATUS s AND NOT IECBITON) s;
          s = upd_pte me (unat (page_index p)) (\<lambda>q. q\<lparr>EntryLo := SWAP_POOL_START + (f * PAGESIZE)\<rparr>) s;
          s = upd_pte me (unat (page_index p)) (\<lambda>q. q\<lparr>EntryLo := EntryLo q OR VBITON\<rparr>) s;
          s = upd_pte me (unat (page_index p)) (\<lambda>q. q\<lparr>EntryLo := EntryLo q OR DBITON\<rparr>) s;
          s = TLBCLR s
      in setSTATUS (getSTATUS s OR IECBITON) s)"

lemma handler_split:
  "TLB_exception_handler K s = do {
     (cs, s) \<leftarrow> K SUPPORTGET 0 0 0 s;
     s \<leftarrow> (if CauseExcCode (s_cause (sup_exceptState (supports s cs) PGFAULTEXCEPT)) = TLB_MOD
           then program_trap_handler K cs NULL s else Some s);
     (_, s) \<leftarrow> K PASSERN (swapPoolSema4_addr s) 0 0 s;
     let p = vpn (s_entryHI (sup_exceptState (supports s cs) PGFAULTEXCEPT));
     let (f, s) = page_replace s;
     s \<leftarrow> evict K cs f s;
     s \<leftarrow> read_from_disk_for_pager K RESERVED_DISK_NO (32 * (asid cs s - 1) + page_index p)
            (SWAP_POOL_START + (f * PAGESIZE)) cs s;
     if unat (page_index p) \<ge> PAGE_TABLE_SIZE then None
     else do {
       let s = install cs p f s;
       (_, s) \<leftarrow> K VERHO (swapPoolSema4_addr s) 0 0 s;
       Some (LDST (sup_exceptState (supports s cs) PGFAULTEXCEPT), s)
     }
   }"
  by (simp only: TLB_exception_handler_def evict_def install_def vpn_def page_index_def Let_def)

lemma upd_frame_sel [simp]:
  "swapPoolTable (upd_frame f g s) = (swapPoolTable s)(f := g (swapPoolTable s f))"
  "supports (upd_frame f g s) = supports s" "nextFrame (upd_frame f g s) = nextFrame s"
  "swapPoolSema4_addr (upd_frame f g s) = swapPoolSema4_addr s" "pgTbl a i (upd_frame f g s) = pgTbl a i s"
  by (simp_all add: upd_frame_def pgTbl_def)

lemma fill_frame: "x\<lparr>sw_ASID := a, sw_VPN := p, matchingPgTableEntry := m\<rparr> =
    \<lparr>sw_ASID = a, sw_VPN = p, matchingPgTableEntry = m\<rparr>" for x :: swapPoolFrame_t
  by simp

lemma install_sel:
  fixes me :: u32
  assumes "i < 32" "f < 32"
  defines "I \<equiv> install me (of_nat (page_number i)) (of_nat f)"
  shows "swapPoolTable (I s) = (swapPoolTable s)(f :=
     \<lparr>sw_ASID = asid me s, sw_VPN = of_nat (page_number i), matchingPgTableEntry = Some (me, i)\<rparr>)"
    "EntryLo (pgTbl a j (I s)) = (if a = me \<and> j = i then present_pte f else EntryLo (pgTbl a j s))"
    "asid a (I s) = asid a s" "nextFrame (I s) = nextFrame s"
    "sup_exceptState (supports (I s) a) = sup_exceptState (supports s a)"
    "swapPoolSema4_addr (I s) = swapPoolSema4_addr s"
proof -
  have u: "unat (of_nat f :: u32) = f" "unat (of_nat i :: u32) = i" using assms(1,2) by (simp_all add: unat_of_nat)
  show "swapPoolTable (I s) = (swapPoolTable s)(f :=
     \<lparr>sw_ASID = asid me s, sw_VPN = of_nat (page_number i), matchingPgTableEntry = Some (me, i)\<rparr>)"
    "EntryLo (pgTbl a j (I s)) = (if a = me \<and> j = i then present_pte f else EntryLo (pgTbl a j s))"
    "asid a (I s) = asid a s" "nextFrame (I s) = nextFrame s"
    "sup_exceptState (supports (I s) a) = sup_exceptState (supports s a)"
    "swapPoolSema4_addr (I s) = swapPoolSema4_addr s"
    by (simp_all add: I_def install_def Let_def present_pte_def frame_addr_def table_index [OF assms(1)] u fill_frame)
qed

lemma pager_loads:
  fixes s :: "'a supstate_scheme" and me :: u32
  defines "es \<equiv> sup_exceptState (supports s me) PGFAULTEXCEPT"
  assumes ok: "calls_ok K me A" and inv: "vm_inv A s" and me: "me \<in> A" and mx: "mutex_addr s \<noteq> swapPoolSema4_addr s"
    and d: "disk_ok s" and c: "CauseExcCode (s_cause es) \<noteq> TLB_MOD"
    and v: "vpn (s_entryHI es) = of_nat (page_number i)" and i: "i < 32" and np: "\<not> present me i s"
  shows "\<exists>s' f. TLB_exception_handler K s = Some (LDST es, s') \<and> vm_inv A s' \<and> f < 32 \<and>
     swapPoolTable s' f = \<lparr>sw_ASID = asid me s, sw_VPN = of_nat (page_number i), matchingPgTableEntry = Some (me, i)\<rparr> \<and>
     EntryLo (pgTbl me i s') = present_pte f"
proof -
  obtain s1 where s1: "K SUPPORTGET 0 0 0 s = Some (me, s1)" "same_vm me s s1" using calls_okD(1) [OF ok] by blast
  have e1: "sup_exceptState (supports s1 me) PGFAULTEXCEPT = es" "\<not> present me i s1" "vm_inv A s1"
      "mutex_addr s1 \<noteq> swapPoolSema4_addr s1" "disk_ok s1" "asid me s1 = asid me s"
    using s1(2) np mx d same_vm_inv [OF s1(2) inv] by (simp_all add: same_vm_def es_def disk_ok_def)
  obtain r s2 where s2: "K PASSERN (swapPoolSema4_addr s1) 0 0 s1 = Some (r, s2)" "vm_inv A s2"
      "sup_exceptState (supports s2 me) PGFAULTEXCEPT = es" "\<not> present me i s2" "mutex_addr s2 \<noteq> swapPoolSema4_addr s2"
      "disk_ok s2" "asid me s2 = asid me s"
    using calls_okD(3) [OF ok e1(3)] e1 by (auto simp: disk_ok_def)
  obtain f n where pr: "page_replace s2 = (of_nat f, s2\<lparr>nextFrame := n\<rparr>)" and f: "f < 32" "unat n < 32"
    by (rule page_replace_pick [OF vm_invD(1) [OF s2(2)]])
  let ?s3 = "s2\<lparr>nextFrame := n\<rparr>"
  have p3: "pgTbl a j ?s3 = pgTbl a j s2" for a j by (simp add: pgTbl_def)
  then have s3: "vm_inv A ?s3" "mutex_addr ?s3 \<noteq> swapPoolSema4_addr ?s3" "disk_ok ?s3"
    using s2(2,5,6) f(2) by (simp_all add: vm_inv_def disk_ok_def)
  from evict_step [OF ok s3 f(1)] obtain s4 where
    s4: "evict K me (of_nat f) ?s3 = Some s4" and ev: "evicted f me ?s3 s4" by blast
  have e4: "mutex_addr s4 \<noteq> swapPoolSema4_addr s4" "disk_ok s4" "asid me s4 = asid me s"
    using ev s3(2,3) s2(7) by (simp_all add: evicted_def disk_ok_def)
  have "sint (32 * (asid me s - 1) + of_nat i) \<le> 255" using sector_bound vm_invD(2) [OF inv me] i by blast
  from pager_transfer_total [OF ok e4(1,2) this] obtain s5 where
    s5: "pager_transfer READBLK_DSK K RESERVED_DISK_NO (32 * (asid me s - 1) + of_nat i)
       (SWAP_POOL_START + of_nat f * PAGESIZE) me s4 = Some s5" "same_vm me s4 s5" by blast
  have ev5: "evicted f me ?s3 s5" using evicted_same [OF ev s5(2)] .
  let ?s6 = "install me (of_nat (page_number i)) (of_nat f) s5"
  note ins = install_sel [OF i f(1), where me = me]
  have v6: "vm_inv A ?s6"
    by (rule vm_inv_load [OF s3(1) me i f(1)])
      (use ev5 s2(4) f(2) p3 in \<open>auto simp: ins evicted_def\<close>)
  obtain r7 s7 where s7: "K VERHO (swapPoolSema4_addr ?s6) 0 0 ?s6 = Some (r7, s7)" "same_vm me ?s6 s7"
    using calls_okD(2) [OF ok, of VERHO "swapPoolSema4_addr ?s6" ?s6 0 0] numbers_distinct by auto
  have es6: "sup_exceptState (supports ?s6 me) PGFAULTEXCEPT = es" "asid me s5 = asid me s"
    using ev5 s2(3,7) by (simp_all add: ins evicted_def)
  have ui: "unat (of_nat i :: u32) = i" using i by (simp add: unat_of_nat)
  have "TLB_exception_handler K s = Some (LDST (sup_exceptState (supports s7 me) PGFAULTEXCEPT), s7)"
    using s7(1) s5(1) i c v
    by (simp add: handler_split s1(1) s2(1,3) pr s4 e1(1) e4(3) pager_transfers table_index [OF i] ui PAGE_TABLE_SIZE_def)
  moreover have "vm_inv A s7" by (rule same_vm_inv [OF s7(2) v6])
  ultimately show ?thesis using s7(2) f(1) es6
    by (intro exI [of _ s7] exI [of _ f]) (simp add: same_vm_def ins)
qed

end
