(* ===== verification/Reclaim.thy ===== *)
theory Reclaim
  imports Pager
begin

text \<open>
  The end of a user process (\<open>TERMINATE\<close>) on a consistent swap pool: its frames become free, its
  pages are no longer present, and what belongs to the other processes stays.
\<close>

section \<open>The loops\<close>

text \<open>\<open>free_frames\<close> and \<open>drop_pages\<close> are the two loops of \<open>TERMINATE\<close>.\<close>

definition free_frames :: "u32 \<Rightarrow> nat list \<Rightarrow> 'a supstate_scheme \<Rightarrow> 'a supstate_scheme" where
  "free_frames a = fold (\<lambda>i s. if sw_ASID (swapPoolTable s i) = asid a s
     then upd_frame i (\<lambda>f. f\<lparr>sw_ASID := -1, sw_VPN := -1, matchingPgTableEntry := None\<rparr>) s else s)"

definition drop_pages :: "u32 \<Rightarrow> nat list \<Rightarrow> 'a supstate_scheme \<Rightarrow> 'a supstate_scheme" where
  "drop_pages a = fold (\<lambda>i. upd_pte a i (\<lambda>p. p\<lparr>EntryLo := EntryLo p AND NOT (PFN_MASK + VBITON)\<rparr>))"

abbreviation free_entry :: swapPoolFrame_t where
  "free_entry \<equiv> \<lparr>sw_ASID = -1, sw_VPN = -1, matchingPgTableEntry = None\<rparr>"

lemma free_frames_table:
  "asid a s \<noteq> -1 \<Longrightarrow> swapPoolTable (free_frames a xs s) f =
     (if f \<in> set xs \<and> sw_ASID (swapPoolTable s f) = asid a s then free_entry else swapPoolTable s f)"
proof (induction xs arbitrary: s)
  case (Cons x xs)
  let ?s = "if sw_ASID (swapPoolTable s x) = asid a s
     then upd_frame x (\<lambda>f. f\<lparr>sw_ASID := -1, sw_VPN := -1, matchingPgTableEntry := None\<rparr>) s else s"
  have "asid a ?s = asid a s" by simp
  moreover have "swapPoolTable ?s f = (if f = x \<and> sw_ASID (swapPoolTable s f) = asid a s then free_entry else swapPoolTable s f)"
    by (cases "f = x") (simp_all add: fill_frame)
  moreover have "free_frames a (x # xs) s = free_frames a xs ?s" by (simp add: free_frames_def)
  ultimately show ?case using Cons.IH [of ?s] Cons.prems by auto
qed (simp add: free_frames_def)

lemma free_frames_same:
  "supports (free_frames a xs s) = supports s \<and> nextFrame (free_frames a xs s) = nextFrame s \<and>
   swapPoolSema4_addr (free_frames a xs s) = swapPoolSema4_addr s"
  unfolding free_frames_def by (induction xs arbitrary: s) simp_all

lemma drop_pages_entry:
  "distinct xs \<Longrightarrow> pgTbl b j (drop_pages a xs s) =
     (if b = a \<and> j \<in> set xs then (pgTbl b j s)\<lparr>EntryLo := EntryLo (pgTbl b j s) AND NOT (PFN_MASK + VBITON)\<rparr>
      else pgTbl b j s)"
  unfolding drop_pages_def by (induction xs arbitrary: s) auto

lemma drop_pages_same:
  "swapPoolTable (drop_pages a xs s) = swapPoolTable s \<and> nextFrame (drop_pages a xs s) = nextFrame s \<and>
   asid b (drop_pages a xs s) = asid b s"
  unfolding drop_pages_def by (induction xs arbitrary: s) simp_all

lemma dropped_absent: "(x AND NOT (PFN_MASK + VBITON)) AND VBITON = 0"
proof -
  have "NOT (PFN_MASK + VBITON) AND VBITON = 0" by code_simp
  then show ?thesis by (simp add: and.assoc)
qed

lemma TERMINATE_split:
  "TERMINATE K a s = do {
     let s = setSTATUS (getSTATUS s AND NOT IECBITON) s;
     (_, s) \<leftarrow> K PASSERN (swapPoolSema4_addr s) 0 0 s;
     let s = free_frames a [0..<SWAP_POOL_SIZE] s;
     (_, s) \<leftarrow> K VERHO (swapPoolSema4_addr s) 0 0 s;
     let s = drop_pages a [0..<PAGE_TABLE_SIZE] s;
     let s = setSTATUS (getSTATUS s OR IECBITON) s;
     (_, s) \<leftarrow> K VERHO (masterSemaphore_addr s) 0 0 s;
     (_, s) \<leftarrow> K TERMINATETHREAD 0 0 0 s;
     Some s
   }"
  by (simp add: TERMINATE_def free_frames_def drop_pages_def)

section \<open>The pool afterwards\<close>

text \<open>The table without the frames of \<open>me\<close>, and the page table of \<open>me\<close> without pages.\<close>

definition reclaimed :: "u32 \<Rightarrow> 'a supstate_scheme \<Rightarrow> 'a supstate_scheme \<Rightarrow> bool" where
  "reclaimed me s s' \<longleftrightarrow> nextFrame s' = nextFrame s \<and> (\<forall>a. asid a s' = asid a s) \<and>
     (\<forall>f<32. swapPoolTable s' f = (if sw_ASID (swapPoolTable s f) = asid me s then free_entry else swapPoolTable s f)) \<and>
     (\<forall>i<32. \<not> present me i s') \<and> (\<forall>b i. b \<noteq> me \<longrightarrow> pgTbl b i s' = pgTbl b i s)"

lemma reclaimed_inv:
  assumes inv: "vm_inv A s" and me: "me \<in> A" "inj_on (\<lambda>a. asid a s) A" and r: "reclaimed me s s'"
  shows "vm_inv A s'" "f < 32 \<Longrightarrow> sw_ASID (swapPoolTable s' f) \<noteq> asid me s'"
proof -
  note d = vm_invD [OF inv]
  note r = r [unfolded reclaimed_def]
  have nm: "asid me s \<noteq> -1" using d(2) [OF me(1)] small_asid by blast
  show "sw_ASID (swapPoolTable s' f) \<noteq> asid me s'" if "f < 32" using r that nm by (auto split: if_splits)
  have 1: "\<exists>a\<in>A. \<exists>j<32. swapPoolTable s' g =
        \<lparr>sw_ASID = asid a s', sw_VPN = of_nat (page_number j), matchingPgTableEntry = Some (a, j)\<rparr> \<and>
        EntryLo (pgTbl a j s') = present_pte g" if g: "g < 32" "\<not> free_frame s' g" for g
  proof -
    have t: "swapPoolTable s' g = swapPoolTable s g" "sw_ASID (swapPoolTable s g) \<noteq> asid me s"
      using r g by (auto split: if_splits)
    with d(3) [OF g(1)] g(2) obtain a j where
      a: "a \<in> A" "j < 32" "swapPoolTable s g =
        \<lparr>sw_ASID = asid a s, sw_VPN = of_nat (page_number j), matchingPgTableEntry = Some (a, j)\<rparr>"
        "EntryLo (pgTbl a j s) = present_pte g" by auto
    with t have "a \<noteq> me" by auto
    with a t r show ?thesis by auto
  qed
  have 2: "\<exists>g<32. \<not> free_frame s' g \<and> matchingPgTableEntry (swapPoolTable s' g) = Some (a, j)"
    if a: "a \<in> A" "j < 32" "present a j s'" for a j
  proof -
    have am: "a \<noteq> me" using a(2,3) r by auto
    then have "present a j s" using a(3) r by auto
    from d(4) [OF a(1,2) this] obtain g where
      g: "g < 32" "\<not> free_frame s g" "matchingPgTableEntry (swapPoolTable s g) = Some (a, j)" by blast
    with d(3) [OF g(1,2)] have "sw_ASID (swapPoolTable s g) = asid a s" by auto
    then have "sw_ASID (swapPoolTable s g) \<noteq> asid me s" using am a(1) me by (auto dest: inj_onD)
    then have "swapPoolTable s' g = swapPoolTable s g" using r g(1) by auto
    with g show ?thesis by auto
  qed
  show "vm_inv A s'" unfolding vm_inv_def using d(1,2) r 1 2 by auto
qed

lemma same_vm_reclaimed: "same_vm me s' s'' \<Longrightarrow> reclaimed me s s' \<Longrightarrow> reclaimed me s s''"
  by (simp add: reclaimed_def same_vm_def)

lemma TERMINATE_reclaims:
  assumes ok: "calls_ok K me A" and inv: "vm_inv A s" and me: "me \<in> A"
  shows "\<exists>r s1 s'. K PASSERN (swapPoolSema4_addr s) 0 0 (setSTATUS (getSTATUS s AND NOT IECBITON) s) = Some (r, s1) \<and> vm_inv A s1 \<and> (\<forall>a. asid a s1 = asid a s) \<and> reclaimed me s1 s' \<and>
     TERMINATE K me s = map_option snd (K TERMINATETHREAD 0 0 0 s')"
proof -
  let ?s = "setSTATUS (getSTATUS s AND NOT IECBITON) s"
  have "vm_inv A ?s" by (rule same_vm_inv [OF _ inv, of me]) simp
  from calls_okD(3) [OF ok this] obtain r1 s1 where
    s1: "K PASSERN (swapPoolSema4_addr ?s) 0 0 ?s = Some (r1, s1)" "vm_inv A s1" "\<forall>a. asid a s1 = asid a s" by auto
  let ?s1 = "free_frames me [0..<SWAP_POOL_SIZE] s1"
  obtain r2 s2 where s2: "K VERHO (swapPoolSema4_addr ?s1) 0 0 ?s1 = Some (r2, s2)" "same_vm me ?s1 s2"
    using calls_okD(2) [OF ok, of VERHO "swapPoolSema4_addr ?s1" ?s1 0 0] numbers_distinct by auto
  let ?s2 = "drop_pages me [0..<PAGE_TABLE_SIZE] s2"
  let ?s3 = "setSTATUS (getSTATUS ?s2 OR IECBITON) ?s2"
  obtain r4 s4 where s4: "K VERHO (masterSemaphore_addr ?s3) 0 0 ?s3 = Some (r4, s4)" "same_vm me ?s3 s4"
    using calls_okD(2) [OF ok, of VERHO "masterSemaphore_addr ?s3" ?s3 0 0] numbers_distinct by auto
  have "asid me s1 \<noteq> -1" using vm_invD(2) [OF s1(2) me] small_asid by blast
  note ff = free_frames_table [OF this, of "[0..<SWAP_POOL_SIZE]"] free_frames_same [of me "[0..<SWAP_POOL_SIZE]" s1]
  have "reclaimed me s1 ?s2"
    using s2(2) ff unfolding reclaimed_def same_vm_def drop_pages_entry [OF distinct_upt]
    by (simp add: drop_pages_same dropped_absent pgTbl_def SWAP_POOL_SIZE_def PAGE_TABLE_SIZE_def del: upt_Suc)
  then have "reclaimed me s1 s4" using same_vm_reclaimed [of me ?s2 s4] s4(2) same_vm_trans [of me ?s2 ?s3 s4] by simp
  moreover have "TERMINATE K me s = map_option snd (K TERMINATETHREAD 0 0 0 s4)"
    unfolding TERMINATE_split Let_def using s1(1) s2(1) s4(1)
    by (cases "K TERMINATETHREAD 0 0 0 s4") (auto simp: Let_def)
  moreover have "swapPoolSema4_addr ?s = swapPoolSema4_addr s" by (simp add: setSTATUS_def)
  ultimately show ?thesis using s1 by auto
qed

end
