(* ===== verification/Delay.thy ===== *)
theory Delay
  imports Support
begin

text \<open>
  \<^verbatim>\<open>phase5/delayDaemon.c\<close>: the list of sleeping processes (ADL), which is sorted by the time at which
  they wake and framed by two dummies, the system call that puts a process to sleep, and the daemon that
  wakes them. The daemon's loop has no end; \<open>daemon_round\<close> is one turn of it.
\<close>

section \<open>The list\<close>

definition MAXSIGNEDINT :: u32 where "MAXSIGNEDINT = 0x7FFFFFFF"

definition upd_delayd :: "nat \<Rightarrow> (delayd_t \<Rightarrow> delayd_t) \<Rightarrow> 'a supstate_scheme \<Rightarrow> 'a supstate_scheme" where
  "upd_delayd i f s = s\<lparr>delayds := (delayds s)(i := f (delayds s i))\<rparr>"

definition freeDelayd :: "ptr \<Rightarrow> 'a supstate_scheme \<Rightarrow> 'a supstate_scheme option" where
  "freeDelayd d s = do {
     i \<leftarrow> d;
     let s = upd_delayd i (d_supStruct_update (\<lambda>_. NULL)) s;
     let s = upd_delayd i (d_next_update (\<lambda>_. delaydFree_h s)) s;
     let s = upd_delayd i (d_wakeTime_update (\<lambda>_. 0)) s;
     Some (s\<lparr>delaydFree_h := d\<rparr>)
   }"

definition allocDelayd :: "u32 \<Rightarrow> u32 \<Rightarrow> 'a supstate_scheme \<Rightarrow> (ptr \<times> 'a supstate_scheme) option" where
  "allocDelayd wakeTime currentSupport s =
     (if delaydFree_h s = None then Some (None, s)
      else do {
        let allocatedDelayd = delaydFree_h s;
        i \<leftarrow> allocatedDelayd;
        let s = s\<lparr>delaydFree_h := d_next (delayds s i)\<rparr>;
        let s = upd_delayd i (d_next_update (\<lambda>_. None)) s;
        let s = upd_delayd i (d_wakeTime_update (\<lambda>_. wakeTime)) s;
        let s = upd_delayd i (d_supStruct_update (\<lambda>_. currentSupport)) s;
        Some (allocatedDelayd, s)
      })"

partial_function (option) adl_from :: "u32 \<Rightarrow> nat \<Rightarrow> 'a supstate_scheme \<Rightarrow> nat option" where
  "adl_from wakeTime traverse s = do {
     n \<leftarrow> d_next (delayds s traverse);
     if d_wakeTime (delayds s n) \<noteq> MAXSIGNEDINT \<and> sint (d_wakeTime (delayds s n)) < sint wakeTime
     then adl_from wakeTime n s else Some traverse
   }"

definition traverseADL :: "u32 \<Rightarrow> 'a supstate_scheme \<Rightarrow> nat option" where
  "traverseADL wakeTime s = do { traverse \<leftarrow> delayd_h s; adl_from wakeTime traverse s }"

section \<open>Going to sleep\<close>

definition DELAY :: "'a supstate_scheme calls \<Rightarrow> u32 \<Rightarrow> 'a supstate_scheme \<Rightarrow> (exit \<times> 'a supstate_scheme) option" where
  "DELAY K currentSupport s = do {
     let wakeTime = s_reg (sup_exceptState (supports s currentSupport) GENERALEXCEPT) R_a1 * 1000000;
     s \<leftarrow> (if sint wakeTime < 0 \<or> sint wakeTime > sint MAXSIGNEDINT
           then do { (_, s) \<leftarrow> K 9 0 0 0 s; Some s } else Some s);
     (_, s) \<leftarrow> K 3 (ADL_mutex_addr s) 0 0 s;
     (newDelayd, s) \<leftarrow> allocDelayd wakeTime currentSupport s;
     s \<leftarrow> (if newDelayd = None then do {
           (_, s) \<leftarrow> K 4 (ADL_mutex_addr s) 0 0 s;
           (_, s) \<leftarrow> K 9 0 0 0 s;
           Some s
         } else Some s);
     predecessor \<leftarrow> traverseADL wakeTime s;
     n \<leftarrow> newDelayd;
     let s = upd_delayd n (d_next_update (\<lambda>_. d_next (delayds s predecessor))) s;
     let s = upd_delayd predecessor (d_next_update (\<lambda>_. newDelayd)) s;
     let s = setSTATUS (getSTATUS s AND NOT IECBITON) s;
     (_, s) \<leftarrow> K 4 (ADL_mutex_addr s) 0 0 s;
     (_, s) \<leftarrow> K 3 (delaySem currentSupport) 0 0 s;
     let s = setSTATUS (getSTATUS s OR IECBITON) s;
     let s = upd_support currentSupport (\<lambda>sup. sup\<lparr>sup_exceptState := (sup_exceptState sup)(GENERALEXCEPT :=
         (sup_exceptState sup GENERALEXCEPT)\<lparr>s_pc := s_pc (sup_exceptState sup GENERALEXCEPT) + 4\<rparr>)\<rparr>) s;
     Some (LDST (sup_exceptState (supports s currentSupport) GENERALEXCEPT), s)
   }"

section \<open>The daemon\<close>

partial_function (option) wake_loop ::
    "'a supstate_scheme calls \<Rightarrow> u32 \<Rightarrow> 'a supstate_scheme \<Rightarrow> 'a supstate_scheme option" where
  "wake_loop K currTOD s = do {
     h \<leftarrow> delayd_h s;
     to_be_wake \<leftarrow> d_next (delayds s h);
     if sint (d_wakeTime (delayds s to_be_wake)) \<le> sint currTOD then do {
       (_, s) \<leftarrow> K 4 (delaySem (d_supStruct (delayds s to_be_wake))) 0 0 s;
       h \<leftarrow> delayd_h s;
       let s = upd_delayd h (d_next_update (\<lambda>_. d_next (delayds s to_be_wake))) s;
       s \<leftarrow> freeDelayd (Some to_be_wake) s;
       (currTOD, s) \<leftarrow> STCK s;
       wake_loop K currTOD s
     }
     else Some s
   }"

definition daemon_round :: "'a supstate_scheme calls \<Rightarrow> 'a supstate_scheme \<Rightarrow> 'a supstate_scheme option" where
  "daemon_round K s = do {
     (_, s) \<leftarrow> K 7 0 0 0 s;
     (_, s) \<leftarrow> K 3 (ADL_mutex_addr s) 0 0 s;
     (currTOD, s) \<leftarrow> STCK s;
     s \<leftarrow> wake_loop K currTOD s;
     (_, s) \<leftarrow> K 4 (ADL_mutex_addr s) 0 0 s;
     Some s
   }"

text \<open>\<open>daemonState\<close> is a local variable; \<open>frame\<close> is its address on the stack. What it does not set
  stays as it was there.\<close>

definition initADL :: "'a supstate_scheme calls \<Rightarrow> u32 \<Rightarrow> 'a supstate_scheme \<Rightarrow> 'a supstate_scheme option" where
  "initADL K frame s = do {
     let s = s\<lparr>delayd_h := None\<rparr>;
     let s = poke (ADL_mutex_addr s) 1 s;
     let s = s\<lparr>delaydFree_h := Some 0\<rparr>;
     let s = fold (\<lambda>i. upd_delayd i (d_next_update (\<lambda>_. Some (i + 1)))) [0..<MAXPROC + 1] s;
     let s = upd_delayd (MAXPROC + 1) (d_next_update (\<lambda>_. None)) s;
     (headDummy, s) \<leftarrow> allocDelayd (- 1) NULL s;
     (tailDummy, s) \<leftarrow> allocDelayd MAXSIGNEDINT NULL s;
     h \<leftarrow> headDummy;
     let s = upd_delayd h (d_next_update (\<lambda>_. tailDummy)) s;
     let s = s\<lparr>delayd_h := headDummy\<rparr>;
     let s = s\<lparr>states := (states s)(frame := set_reg R_sp (mem s RAMBASEADDR + mem s RAMBASESIZE - PAGESIZE)
        (set_reg R_t9 (fn_addr s ''delay_daemon'') ((states s frame)\<lparr>s_pc := fn_addr s ''delay_daemon'',
          s_status := (IEPBITON AND KUPBITOFF) OR IPBITS, s_entryHI := push_bit ASID_SHIFT 0\<rparr>)))\<rparr>;
     (_, s) \<leftarrow> K 1 frame NULL 0 s;
     Some s
   }"

end
