(* ===== verification/Adl.thy ===== *)
theory Adl
  imports Delay
begin

text \<open>
  The list of sleeping processes: its representation, the search (the second instance of
  \<open>sorted_walk\<close>, with the signed order of the wake times), the insertion by \<open>DELAY\<close> and
  the removal by the daemon.
\<close>

section \<open>Representation\<close>

abbreviation dn :: "'a supstate_scheme \<Rightarrow> nat \<Rightarrow> ptr" where "dn s d \<equiv> d_next (delayds s d)"
abbreviation wk :: "'a supstate_scheme \<Rightarrow> nat \<Rightarrow> u32" where "wk s d \<equiv> d_wakeTime (delayds s d)"

definition adl :: "'a supstate_scheme \<Rightarrow> nat \<Rightarrow> nat list \<Rightarrow> nat \<Rightarrow> nat list \<Rightarrow> bool" where
  "adl s h ds t fl \<longleftrightarrow>
     chain (dn s) (delayd_h s) (h # ds @ [t]) None \<and> chain (dn s) (delaydFree_h s) fl None \<and>
     distinct (h # t # ds @ fl) \<and> set (h # t # ds @ fl) = {0..<MAXPROC + 2} \<and>
     wk s t = MAXSIGNEDINT \<and> MAXSIGNEDINT \<notin> wk s ` set ds \<and> sorted (map (\<lambda>d. sint (wk s d)) ds)"

lemma adl_det: "adl s h ds t fl \<Longrightarrow> adl s h ds' t fl' \<Longrightarrow> ds = ds' \<and> fl = fl'"
  using chain_det [of "dn s" "delayd_h s" "h # ds @ [t]" "h # ds' @ [t]"] chain_det [of "dn s" "delaydFree_h s" fl fl']
  by (simp add: adl_def)

lemma upd_delayd_sel [simp]:
  "delayds (upd_delayd i f s) = (delayds s)(i := f (delayds s i))" "delayd_h (upd_delayd i f s) = delayd_h s"
  "delaydFree_h (upd_delayd i f s) = delaydFree_h s" "mem (upd_delayd i f s) = mem s"
  "supports (upd_delayd i f s) = supports s" "ADL_mutex_addr (upd_delayd i f s) = ADL_mutex_addr s"
  "tod (upd_delayd i f s) = tod s" "tod_reads (upd_delayd i f s) = tod_reads s"
  by (simp_all add: upd_delayd_def)

interpretation dw: sorted_walk "\<lambda>s d. d_next (delayds s d)" "\<lambda>s d. d_wakeTime (delayds s d)"
  "\<lambda>a b. sint a < sint b" "\<lambda>_. MAXSIGNEDINT" adl_from
  by unfold_locales (rule adl_from.simps)

lemma adl_traverse:
  assumes "adl s h ds t fl"
  shows "traverseADL w s = Some (last (h # takeWhile (\<lambda>d. sint (wk s d) < sint w) ds))"
proof -
  have "delayd_h s = Some h" "chain (dn s) (dn s h) (ds @ [t]) None" "wk s t = MAXSIGNEDINT" "MAXSIGNEDINT \<notin> wk s ` set ds"
    using assms by (simp_all add: adl_def)
  then show ?thesis using dw.walk_finds [of s h ds t None w] by (simp add: traverseADL_def)
qed

section \<open>Insertion\<close>

lemma sorted_insert_before:
  fixes f :: "nat \<Rightarrow> int"
  assumes "sorted (map f ds)"
  shows "sorted (map f (takeWhile (\<lambda>d. f d < k) ds) @ k # map f (dropWhile (\<lambda>d. f d < k) ds))"
  using assms
proof (induction ds)
  case (Cons d ds)
  then show ?case by (auto dest: set_takeWhileD set_dropWhileD)
qed simp

lemma fill_delayd: "x\<lparr>d_next := n, d_wakeTime := w, d_supStruct := a\<rparr> = \<lparr>d_next = n, d_wakeTime = w, d_supStruct = a\<rparr>"
    for x :: delayd_t
  by simp

lemma allocDelayd_eval:
  "delaydFree_h s = Some x \<Longrightarrow> allocDelayd w a s =
     Some (Some x, (upd_delayd x (\<lambda>_. \<lparr>d_next = None, d_wakeTime = w, d_supStruct = a\<rparr>) s)\<lparr>delaydFree_h := dn s x\<rparr>)"
  by (simp add: allocDelayd_def Let_def upd_delayd_def fill_delayd)

lemma last_takeWhile_in: "last (h # takeWhile P ds) \<in> set (h # ds)"
proof -
  have "last (h # takeWhile P ds) \<in> set (h # takeWhile P ds)" by (rule last_in_set) simp
  then show ?thesis by (auto dest: set_takeWhileD simp del: last.simps)
qed

text \<open>The list after the new descriptor \<open>x\<close> has been linked in.\<close>

lemma adl_insert:
  assumes A: "adl s h ds t (x # fl)" and w: "w \<noteq> MAXSIGNEDINT"
    and pre: "pre = last (h # takeWhile (\<lambda>d. sint (wk s d) < sint w) ds)"
    and s': "delayds s' = (delayds s)(x := \<lparr>d_next = dn s pre, d_wakeTime = w, d_supStruct = a\<rparr>,
        pre := (delayds s pre)\<lparr>d_next := Some x\<rparr>)" "delayd_h s' = delayd_h s" "delaydFree_h s' = dn s x"
  shows "adl s' h (takeWhile (\<lambda>d. sint (wk s d) < sint w) ds @ x # dropWhile (\<lambda>d. sint (wk s d) < sint w) ds) t fl"
proof -
  let ?A = "takeWhile (\<lambda>d. sint (wk s d) < sint w) ds" and ?B = "dropWhile (\<lambda>d. sint (wk s d) < sint w) ds"
  have d: "chain (dn s) (delayd_h s) (h # ds @ [t]) None" "chain (dn s) (delaydFree_h s) (x # fl) None"
      "distinct (h # t # ds @ x # fl)" "set (h # t # ds @ x # fl) = {0..<MAXPROC + 2}" "wk s t = MAXSIGNEDINT"
      "MAXSIGNEDINT \<notin> wk s ` set ds" "sorted (map (\<lambda>d. sint (wk s d)) ds)" using A by (simp_all add: adl_def)
  have ds: "ds = ?A @ ?B" by simp
  have p: "pre \<in> set (h # ds)" unfolding pre by (rule last_takeWhile_in)
  then have xp: "x \<noteq> pre" "pre \<notin> set fl" "pre \<noteq> t" using d(3) by auto
  have dn': "dn s' = (dn s)(x := dn s pre, pre := Some x)" using s'(1) xp by (auto simp: fun_eq_iff)
  have wk': "wk s' y = (if y = x then w else wk s y)" for y using s'(1) xp by auto
  have split: "h # ds @ [t] = butlast (h # ?A) @ pre # ?B @ [t]"
  proof -
    have "h # ?A = butlast (h # ?A) @ [pre]" unfolding pre by (rule append_butlast_last_id [symmetric]) simp
    then show ?thesis using ds by (metis append.assoc append_Cons append_Nil)
  qed
  have "distinct (h # ds @ [t])" "x \<notin> set (h # ds @ [t])" using d(3) by auto
  from chain_insert [OF d(1) [unfolded split] this [unfolded split]]
  have "chain (dn s') (delayd_h s') (butlast (h # ?A) @ pre # x # ?B @ [t]) None" using dn' s'(2) by simp
  moreover have "butlast (h # ?A) @ pre # x # ?B @ [t] = h # (?A @ x # ?B) @ [t]"
  proof -
    have "h # ?A = butlast (h # ?A) @ [pre]" unfolding pre by (rule append_butlast_last_id [symmetric]) simp
    then show ?thesis by (metis append.assoc append_Cons append_Nil)
  qed
  ultimately have 1: "chain (dn s') (delayd_h s') (h # (?A @ x # ?B) @ [t]) None" by metis
  have 2: "chain (dn s') (delaydFree_h s') fl None"
  proof -
    have "dn s' y = dn s y" if "y \<in> set fl" for y using that d(3) xp fun_cong [OF dn', of y] by auto
    then show ?thesis using chain_cong [of fl "dn s'" "dn s"] d(2) s'(3) by simp
  qed
  define P Q where PQ: "P = ?A" "Q = ?B"
  have dPQ: "ds = P @ Q" by (simp add: PQ)
  have 3: "distinct (h # t # (P @ x # Q) @ fl)" "set (h # t # (P @ x # Q) @ fl) = {0..<MAXPROC + 2}"
    using d(3,4) unfolding dPQ by auto
  have 4: "wk s' t = MAXSIGNEDINT" "MAXSIGNEDINT \<notin> wk s' ` set (P @ x # Q)"
    using d(3,5,6) w unfolding dPQ by (auto simp: wk' image_iff)
  have "map (\<lambda>d. sint (wk s' d)) (P @ x # Q) =
      map (\<lambda>d. sint (wk s d)) P @ sint w # map (\<lambda>d. sint (wk s d)) Q"
    using d(3) unfolding dPQ by (auto simp: wk')
  with sorted_insert_before [OF d(7), of "sint w"]
  have 5: "sorted (map (\<lambda>d. sint (wk s' d)) (P @ x # Q))" by (simp only: PQ)
  show ?thesis unfolding adl_def PQ [symmetric] using 1 [folded PQ] 2 3 4 5 by blast
qed
section \<open>Waking\<close>

text \<open>A descriptor goes back to the free list and out of the front of the list.\<close>

definition wake_one :: "nat \<Rightarrow> nat \<Rightarrow> 'a supstate_scheme \<Rightarrow> 'a supstate_scheme" where
  "wake_one h d s = s\<lparr>delayds := (delayds s)(h := (delayds s h)\<lparr>d_next := dn s d\<rparr>,
      d := \<lparr>d_next = delaydFree_h s, d_wakeTime = 0, d_supStruct = NULL\<rparr>), delaydFree_h := Some d\<rparr>"

lemma fill_freed: "x\<lparr>d_supStruct := a, d_next := n, d_wakeTime := w\<rparr> = \<lparr>d_next = n, d_wakeTime = w, d_supStruct = a\<rparr>"
    for x :: delayd_t
  by simp

lemma wake_one_eval:
  "h \<noteq> d \<Longrightarrow> freeDelayd (Some d) (upd_delayd h (d_next_update (\<lambda>_. dn s d)) s) = Some (wake_one h d s)"
  by (simp add: freeDelayd_def wake_one_def Let_def upd_delayd_def fill_freed)

lemma wake_one_sel [simp]:
  "delayd_h (wake_one h d s) = delayd_h s" "tod (wake_one h d s) = tod s" "tod_reads (wake_one h d s) = tod_reads s"
  "mem (wake_one h d s) = mem s" "ADL_mutex_addr (wake_one h d s) = ADL_mutex_addr s"
  "supstate.more (wake_one h d s) = supstate.more s"
  by (simp_all add: wake_one_def)

lemma adl_wake_one:
  assumes A: "adl s h (d # ds) t fl"
  shows "adl (wake_one h d s) h ds t (d # fl)"
proof -
  let ?s = "wake_one h d s"
  have a: "chain (dn s) (delayd_h s) (h # d # ds @ [t]) None" "chain (dn s) (delaydFree_h s) fl None"
      "distinct (h # t # d # ds @ fl)" "set (h # t # d # ds @ fl) = {0..<MAXPROC + 2}" "wk s t = MAXSIGNEDINT"
      "MAXSIGNEDINT \<notin> wk s ` set ds" "sorted (map (\<lambda>d. sint (wk s d)) ds)" using A by (simp_all add: adl_def)
  have same: "delayds ?s y = delayds s y" if "y \<notin> {h, d}" for y using that by (simp add: wake_one_def)
  have hd: "dn ?s h = dn s d" "dn ?s d = delaydFree_h s" "delaydFree_h ?s = Some d" using a(3) by (auto simp: wake_one_def)
  have "chain (dn ?s) (dn s d) (ds @ [t]) None"
  proof -
    have "y \<notin> {h, d}" if "y \<in> set (ds @ [t])" for y using that a(3) by auto
    then have "dn ?s y = dn s y" if "y \<in> set (ds @ [t])" for y using that same by simp
    then show ?thesis using a(1) chain_cong [of "ds @ [t]" "dn ?s" "dn s"] by simp
  qed
  moreover have "chain (dn ?s) (delaydFree_h s) fl None"
  proof -
    have "y \<notin> {h, d}" if "y \<in> set fl" for y using that a(3) by auto
    then have "dn ?s y = dn s y" if "y \<in> set fl" for y using that same by simp
    then show ?thesis using a(2) chain_cong [of fl "dn ?s" "dn s"] by simp
  qed
  moreover have m: "map (\<lambda>y. sint (wk ?s y)) ds = map (\<lambda>y. sint (wk s y)) ds" "wk ?s ` set ds = wk s ` set ds" "wk ?s t = wk s t"
  proof -
    have "y \<notin> {h, d}" if "y \<in> set (t # ds)" for y using that a(3) by auto
    then have "wk ?s y = wk s y" if "y \<in> set (t # ds)" for y using that same by simp
    then show "map (\<lambda>y. sint (wk ?s y)) ds = map (\<lambda>y. sint (wk s y)) ds" "wk ?s ` set ds = wk s ` set ds" "wk ?s t = wk s t"
      by simp_all
  qed
  moreover have "distinct (h # t # ds @ d # fl)" "set (h # t # ds @ d # fl) = {0..<MAXPROC + 2}" using a(3,4) by auto
  moreover have "sorted (map (\<lambda>y. sint (wk ?s y)) ds)" using a(7) by (simp only: m(1))
  ultimately show ?thesis using a(1,5-7) hd unfolding adl_def by (simp del: set_append)
qed
section \<open>The daemon\<close>

text \<open>The clock: its readings, which do not go back and stay below the greatest \<open>int\<close>.\<close>

definition reading :: "'a supstate_scheme \<Rightarrow> nat \<Rightarrow> u32" where
  "reading s n = cdiv (tod s n) (mem s TIMESCALEADDR)"

definition clock_ok :: "'a supstate_scheme \<Rightarrow> bool" where
  "clock_ok s \<longleftrightarrow> mem s TIMESCALEADDR \<noteq> 0 \<and>
     (\<forall>n. sint (reading s n) \<le> sint (reading s (Suc n)) \<and> sint (reading s n) < sint MAXSIGNEDINT)"

definition same_clock :: "'a supstate_scheme \<Rightarrow> 'a supstate_scheme \<Rightarrow> bool" where
  "same_clock s s' \<longleftrightarrow> tod s' = tod s \<and> tod_reads s \<le> tod_reads s' \<and> mem s' TIMESCALEADDR = mem s TIMESCALEADDR"

definition same_adl :: "'a supstate_scheme \<Rightarrow> 'a supstate_scheme \<Rightarrow> bool" where
  "same_adl s s' \<longleftrightarrow> delayds s' = delayds s \<and> delayd_h s' = delayd_h s \<and> delaydFree_h s' = delaydFree_h s \<and>
     ADL_mutex_addr s' = ADL_mutex_addr s"

text \<open>What the daemon relies on. The state is extended by the list of the semaphores on which V was
  called. V returns and leaves the list of the sleepers alone; while the daemon waits, others may
  insert, but what they leave is such a list.\<close>

definition daemon_calls :: "u32 list supstate_scheme calls \<Rightarrow> nat \<Rightarrow> nat \<Rightarrow> bool" where
  "daemon_calls K h t \<longleftrightarrow>
     (\<forall>a s. \<exists>r s'. K 4 a 0 0 s = Some (r, s') \<and> same_adl s s' \<and> same_clock s s' \<and>
        supstate.more s' = supstate.more s @ [a]) \<and>
     (\<forall>s n a. (n = 7 \<and> a = 0 \<or> n = 3 \<and> a = ADL_mutex_addr s) \<and> (\<exists>ds fl. adl s h ds t fl) \<longrightarrow>
        (\<exists>r s' ds fl. K n a 0 0 s = Some (r, s') \<and> adl s' h ds t fl \<and> same_clock s s' \<and>
           ADL_mutex_addr s' = ADL_mutex_addr s))"

lemma daemon_callsD:
  assumes "daemon_calls K h t"
  shows "\<exists>r s'. K 4 a 0 0 s = Some (r, s') \<and> same_adl s s' \<and> same_clock s s' \<and> supstate.more s' = supstate.more s @ [a]"
    "adl s h ds t fl \<Longrightarrow> \<exists>r s' ds fl. K 7 0 0 0 s = Some (r, s') \<and> adl s' h ds t fl \<and> same_clock s s' \<and>
           ADL_mutex_addr s' = ADL_mutex_addr s"
    "adl s h ds t fl \<Longrightarrow> \<exists>r s' ds fl. K 3 (ADL_mutex_addr s) 0 0 s = Some (r, s') \<and> adl s' h ds t fl \<and> same_clock s s' \<and>
           ADL_mutex_addr s' = ADL_mutex_addr s"
  using assms unfolding daemon_calls_def by blast+

lemma adl_cong: "same_adl s s' \<Longrightarrow> adl s' h ds t fl = adl s h ds t fl"
  by (simp add: adl_def same_adl_def)

lemma clock_cong: "same_clock s s' \<Longrightarrow> clock_ok s' = clock_ok s"
  by (simp add: clock_ok_def reading_def same_clock_def)

lemma same_clock_trans: "same_clock s s' \<Longrightarrow> same_clock s' s'' \<Longrightarrow> same_clock s s''"
  by (simp add: same_clock_def)

lemma STCK_eval: "clock_ok s \<Longrightarrow> STCK s = Some (reading s (tod_reads s), s\<lparr>tod_reads := Suc (tod_reads s)\<rparr>)"
  by (simp add: STCK_def clock_ok_def reading_def)

lemma reading_mono: "clock_ok s \<Longrightarrow> m \<le> n \<Longrightarrow> sint (reading s m) \<le> sint (reading s n)"
  by (rule lift_Suc_mono_le) (simp_all add: clock_ok_def)

lemma adl_next: "adl s h ds t fl \<Longrightarrow> delayd_h s = Some h \<and> dn s h = Some (hd (ds @ [t]))"
  by (cases ds) (simp_all add: adl_def)

lemma wake_loop_stops:
  assumes A: "adl s h ds t fl" and c: "sint c < sint MAXSIGNEDINT" "ds \<noteq> [] \<longrightarrow> sint c < sint (wk s (hd ds))"
  shows "wake_loop K c s = Some s"
proof -
  have "\<not> sint (wk s (hd (ds @ [t]))) \<le> sint c" using A c by (cases ds) (auto simp: adl_def)
  then show ?thesis using adl_next [OF A] by (subst wake_loop.simps) simp
qed

lemma wake_loop_wakes:
  assumes A: "adl s h (d # ds) t fl" and le: "sint (wk s d) \<le> sint c"
    and k: "K 4 (delaySem (d_supStruct (delayds s d))) 0 0 s = Some (r, s1)" "same_adl s s1" "same_clock s s1" and cl: "clock_ok s"
  shows "wake_loop K c s = wake_loop K (reading s (tod_reads s1))
      ((wake_one h d s1)\<lparr>tod_reads := Suc (tod_reads s1)\<rparr>)"
proof -
  have h: "delayd_h s1 = Some h" "dn s1 h = Some d" "delayd_h s = Some h" "dn s h = Some d"
    using adl_next [OF A] k(2) by (simp_all add: same_adl_def)
  have "h \<noteq> d" using A by (simp add: adl_def)
  then have f: "freeDelayd (Some d) (upd_delayd h (d_next_update (\<lambda>_. dn s d)) s1) = Some (wake_one h d s1)"
    using wake_one_eval [of h d s1] k(2) by (simp add: same_adl_def)
  have "clock_ok (wake_one h d s1)" using clock_cong [OF k(3)] cl by (simp add: clock_ok_def reading_def)
  moreover have "reading (wake_one h d s1) = reading s" using k(3) by (simp add: fun_eq_iff reading_def same_clock_def)
  ultimately have "STCK (wake_one h d s1) = Some (reading s (tod_reads s1), (wake_one h d s1)\<lparr>tod_reads := Suc (tod_reads s1)\<rparr>)"
    by (simp add: STCK_eval)
  then show ?thesis using h le k(1) f by (subst wake_loop.simps) (simp add: k(2) [unfolded same_adl_def])
qed
text \<open>The loop ends. It wakes, in the order of the list, the processes whose time is not behind its
  last reading of the clock, and leaves the others.\<close>

lemma wake_loop_spec:
  assumes K: "daemon_calls K h t"
  shows "adl s h ds t fl \<Longrightarrow> clock_ok s \<Longrightarrow> n < tod_reads s \<Longrightarrow>
    \<exists>m s'. n \<le> m \<and> m < tod_reads s' \<and> wake_loop K (reading s n) s = Some s' \<and> same_clock s s' \<and>
      ADL_mutex_addr s' = ADL_mutex_addr s \<and>
      (let woken = takeWhile (\<lambda>d. sint (wk s d) \<le> sint (reading s m)) ds in
       adl s' h (drop (length woken) ds) t (rev woken @ fl) \<and>
       supstate.more s' = supstate.more s @ map (\<lambda>d. delaySem (d_supStruct (delayds s d))) woken)"
proof (induction ds arbitrary: s n fl)
  case Nil
  then have "wake_loop K (reading s n) s = Some s"
    by (intro wake_loop_stops [OF Nil(1)]) (simp_all add: clock_ok_def)
  with Nil show ?case by (intro exI [of _ n] exI [of _ s]) (simp add: same_clock_def)
next
  case (Cons d ds)
  show ?case
  proof (cases "sint (wk s d) \<le> sint (reading s n)")
    case False
    then have "wake_loop K (reading s n) s = Some s"
      using Cons.prems by (intro wake_loop_stops [OF Cons.prems(1)]) (simp_all add: clock_ok_def)
    with False Cons.prems show ?thesis by (intro exI [of _ n] exI [of _ s]) (simp add: same_clock_def)
  next
    case True
    obtain r s1 where k: "K 4 (delaySem (d_supStruct (delayds s d))) 0 0 s = Some (r, s1)" "same_adl s s1" "same_clock s s1"
        "supstate.more s1 = supstate.more s @ [delaySem (d_supStruct (delayds s d))]"
      using daemon_callsD(1) [OF K] by blast
    let ?s = "(wake_one h d s1)\<lparr>tod_reads := Suc (tod_reads s1)\<rparr>"
    have A: "adl (wake_one h d s1) h ds t (d # fl)"
      using adl_wake_one [of s1] adl_cong [OF k(2)] Cons.prems(1) by blast
    have "adl ?s h ds t (d # fl)" using A by (simp add: adl_def)
    moreover have sc: "same_clock s ?s" using k(3) by (simp add: same_clock_def)
    then have "clock_ok ?s" using clock_cong Cons.prems(2) by blast
    moreover have "tod_reads s1 < tod_reads ?s" by simp
    ultimately obtain m s' where m: "tod_reads s1 \<le> m" "m < tod_reads s'" "wake_loop K (reading ?s (tod_reads s1)) ?s = Some s'"
        "same_clock ?s s'" "ADL_mutex_addr s' = ADL_mutex_addr ?s"
        "adl s' h (drop (length (takeWhile (\<lambda>d. sint (wk ?s d) \<le> sint (reading ?s m)) ds)) ds) t
           (rev (takeWhile (\<lambda>d. sint (wk ?s d) \<le> sint (reading ?s m)) ds) @ d # fl)"
        "supstate.more s' = supstate.more ?s @ map (\<lambda>d. delaySem (d_supStruct (delayds ?s d)))
           (takeWhile (\<lambda>d. sint (wk ?s d) \<le> sint (reading ?s m)) ds)"
      using Cons.IH [of ?s "d # fl" "tod_reads s1"] unfolding Let_def by blast
    have rs: "reading ?s = reading s" using sc by (simp add: fun_eq_iff reading_def same_clock_def)
    have same: "delayds ?s y = delayds s y" if "y \<in> set ds" for y
    proof -
      have "y \<noteq> h" "y \<noteq> d" using that Cons.prems(1) by (auto simp: adl_def)
      then show ?thesis using k(2) by (simp add: wake_one_def same_adl_def)
    qed
    have tw: "takeWhile (\<lambda>d. sint (wk ?s d) \<le> sint (reading s m)) ds = takeWhile (\<lambda>d. sint (wk s d) \<le> sint (reading s m)) ds"
      using same by (intro takeWhile_cong) simp_all
    have "map (\<lambda>d. delaySem (d_supStruct (delayds ?s d))) (takeWhile P ds) =
        map (\<lambda>d. delaySem (d_supStruct (delayds s d))) (takeWhile P ds)" for P
      using same by (auto dest: set_takeWhileD)
    note lg = m(7) [unfolded this rs tw]
    have nm: "n \<le> m" using Cons.prems(3) k(3) m(1) by (simp add: same_clock_def)
    with reading_mono [OF Cons.prems(2)] True have "sint (wk s d) \<le> sint (reading s m)" by (rule_tac order_trans)
    moreover have "wake_loop K (reading s n) s = Some s'"
      using wake_loop_wakes [where c = "reading s n" and s = s and K = K and ?s1.0 = s1, OF Cons.prems(1) True k(1-3) Cons.prems(2)] m(3) rs by simp
    moreover have "same_clock s s'" using same_clock_trans sc m(4) by blast
    moreover have "ADL_mutex_addr s' = ADL_mutex_addr s" using m(5) k(2) by (simp add: same_adl_def)
    ultimately show ?thesis using nm m(2,6) lg k(4) unfolding rs tw
      by (intro exI [of _ m] exI [of _ s']) simp
  qed
qed
section \<open>Going to sleep\<close>

lemma insort_split: "insort_key f x ds = takeWhile (\<lambda>d. f d < f x) ds @ x # dropWhile (\<lambda>d. f d < f x) ds"
  for f :: "'a \<Rightarrow> int"
  by (induction ds) auto

text \<open>The dummy at the end has an odd time, every other time is even.\<close>

lemma wake_time_even: "a * 1000000 \<noteq> MAXSIGNEDINT"
proof
  assume "a * 1000000 = MAXSIGNEDINT"
  then have "odd (a * 1000000)" by (simp add: MAXSIGNEDINT_def)
  then show False by simp
qed

definition sleeping :: "nat \<Rightarrow> nat \<Rightarrow> u32 \<Rightarrow> u32 \<Rightarrow> 'a supstate_scheme \<Rightarrow> 'a supstate_scheme" where
  "sleeping x pre w a s =
     (let s = s\<lparr>delaydFree_h := dn s x, delayds := (delayds s)(x := \<lparr>d_next = dn s pre, d_wakeTime = w, d_supStruct = a\<rparr>,
              pre := (delayds s pre)\<lparr>d_next := Some x\<rparr>)\<rparr>
      in setSTATUS (getSTATUS s AND NOT IECBITON) s)"

lemma sleeping_sel [simp]:
  "delayds (sleeping x pre w a s) = (delayds s)(x := \<lparr>d_next = dn s pre, d_wakeTime = w, d_supStruct = a\<rparr>,
              pre := (delayds s pre)\<lparr>d_next := Some x\<rparr>)"
  "delayd_h (sleeping x pre w a s) = delayd_h s" "delaydFree_h (sleeping x pre w a s) = dn s x"
  "ADL_mutex_addr (sleeping x pre w a s) = ADL_mutex_addr s" "supports (sleeping x pre w a s) = supports s"
  "mem (sleeping x pre w a s) = mem s" "status (sleeping x pre w a s) = status s AND NOT IECBITON"
  "tod (sleeping x pre w a s) = tod s" "tod_reads (sleeping x pre w a s) = tod_reads s"
  by (simp_all add: sleeping_def setSTATUS_def getSTATUS_def Let_def)

lemma link_eval:
  assumes "x \<noteq> pre"
  shows "(let s1 = (upd_delayd x (\<lambda>_. \<lparr>d_next = None, d_wakeTime = w, d_supStruct = a\<rparr>) s)\<lparr>delaydFree_h := dn s x\<rparr>;
      s2 = upd_delayd x (d_next_update (\<lambda>_. d_next (delayds s1 pre))) s1;
      s3 = upd_delayd pre (d_next_update (\<lambda>_. Some x)) s2
    in setSTATUS (getSTATUS s3 AND NOT IECBITON) s3) = sleeping x pre w a s"
  using assms unfolding sleeping_def Let_def by (simp add: upd_delayd_def)

lemma traverse_fresh:
  assumes A: "adl s h ds t fl" and same: "\<forall>y\<in>set (h # ds @ [t]). delayds s' y = delayds s y" "delayd_h s' = delayd_h s"
  shows "traverseADL w s' = traverseADL w s"
proof -
  have "chain (dn s') (delayd_h s') (h # ds @ [t]) None"
  proof -
    have "dn s' y = dn s y" if "y \<in> set (h # ds @ [t])" for y using same(1) that by (simp del: set_append set_simps)
    from chain_cong [OF this] show ?thesis using A same(2) by (simp only: adl_def)
  qed
  moreover have "wk s' ` set ds = wk s ` set ds" using same by (intro image_cong) simp_all
  moreover have "wk s' t = wk s t" using same by simp
  ultimately have "traverseADL w s' = Some (last (h # takeWhile (\<lambda>d. sint (wk s' d) < sint w) ds))"
    using A dw.walk_finds [of s' h ds t None w] by (simp add: traverseADL_def adl_def)
  moreover have "takeWhile (\<lambda>d. sint (wk s' d) < sint w) ds = takeWhile (\<lambda>d. sint (wk s d) < sint w) ds"
    using same by (intro takeWhile_cong) simp_all
  ultimately show ?thesis using adl_traverse [OF A] by simp
qed
lemma adl_sleeping:
  assumes A: "adl s h ds t (x # fl)" and w: "w \<noteq> MAXSIGNEDINT"
    and pre: "pre = last (h # takeWhile (\<lambda>d. sint (wk s d) < sint w) ds)"
    and s'_def: "s' = sleeping x pre w a s"
  shows "adl s' h (insort_key (\<lambda>d. sint (wk s' d)) x ds) t fl"
    "wk s' x = w \<and> d_supStruct (delayds s' x) = a"
    "\<forall>d\<in>set ds. wk s' d = wk s d \<and> d_supStruct (delayds s' d) = d_supStruct (delayds s d)"
proof -
  have "pre \<in> set (h # ds)" unfolding pre by (rule last_takeWhile_in)
  then have x: "x \<noteq> pre" "x \<notin> set ds" using A by (auto simp: adl_def)
  show 2: "wk s' x = w \<and> d_supStruct (delayds s' x) = a"
    and 3: "\<forall>d\<in>set ds. wk s' d = wk s d \<and> d_supStruct (delayds s' d) = d_supStruct (delayds s d)"
    using x by (auto simp: s'_def)
  have "takeWhile (\<lambda>d. sint (wk s' d) < sint w) ds = takeWhile (\<lambda>d. sint (wk s d) < sint w) ds"
    "dropWhile (\<lambda>d. sint (wk s' d) < sint w) ds = dropWhile (\<lambda>d. sint (wk s d) < sint w) ds"
    using 3 by (intro takeWhile_cong dropWhile_cong; simp)+
  moreover have "adl s' h (takeWhile (\<lambda>d. sint (wk s d) < sint w) ds @ x # dropWhile (\<lambda>d. sint (wk s d) < sint w) ds) t fl"
    by (rule adl_insert [OF A w pre]) (simp_all add: s'_def)
  ultimately show "adl s' h (insort_key (\<lambda>d. sint (wk s' d)) x ds) t fl" using 2 by (simp add: insort_split)
qed

lemma DELAY_eval:
  assumes A: "adl s1 h ds t (x # fl)" and P: "K 3 (ADL_mutex_addr s) 0 0 s = Some (r, s1)"
    and w: "w = s_reg (sup_exceptState (supports s a) GENERALEXCEPT) R_a1 * 1000000" "0 \<le> sint w"
    and pre: "pre = last (h # takeWhile (\<lambda>d. sint (wk s1 d) < sint w) ds)"
  shows "DELAY K a s = do {
     (_, s) \<leftarrow> K 4 (ADL_mutex_addr s1) 0 0 (sleeping x pre w a s1);
     (_, s) \<leftarrow> K 3 (delaySem a) 0 0 s;
     let s = setSTATUS (getSTATUS s OR IECBITON) s;
     let s = upd_support a (\<lambda>sup. sup\<lparr>sup_exceptState := (sup_exceptState sup)(GENERALEXCEPT :=
         (sup_exceptState sup GENERALEXCEPT)\<lparr>s_pc := s_pc (sup_exceptState sup GENERALEXCEPT) + 4\<rparr>)\<rparr>) s;
     Some (LDST (sup_exceptState (supports s a) GENERALEXCEPT), s)
   }"
proof -
  have g: "\<not> (sint w < 0 \<or> sint w > sint MAXSIGNEDINT)"
    using w(2) sint_lt [of w] by (simp add: MAXSIGNEDINT_def)
  have fr: "delaydFree_h s1 = Some x" using A by (simp add: adl_def)
  let ?s = "(upd_delayd x (\<lambda>_. \<lparr>d_next = None, d_wakeTime = w, d_supStruct = a\<rparr>) s1)\<lparr>delaydFree_h := dn s1 x\<rparr>"
  have "x \<notin> set (h # ds @ [t])" using A by (auto simp: adl_def)
  then have "\<forall>y\<in>set (h # ds @ [t]). delayds ?s y = delayds s1 y" by auto
  then have "traverseADL w ?s = traverseADL w s1" by (rule traverse_fresh [OF A]) simp
  then have t: "traverseADL w ?s = Some pre" using adl_traverse [OF A] pre by simp
  have "pre \<in> set (h # ds)" unfolding pre by (rule last_takeWhile_in)
  then have nx: "x \<noteq> pre" using A by (auto simp: adl_def)
  note l = link_eval [OF nx, where w = w and a = a and s = s1, unfolded Let_def]
  show ?thesis unfolding DELAY_def w(1) [symmetric]
    using g P allocDelayd_eval [OF fr, of w a] t nx nx [symmetric] l by (simp add: Let_def)
qed
section \<open>Initialisation\<close>

lemma fold_upd_delayd:
  "distinct xs \<Longrightarrow> fold (\<lambda>i. upd_delayd i (f i)) xs s =
     s\<lparr>delayds := (\<lambda>d. if d \<in> set xs then f d (delayds s d) else delayds s d)\<rparr>"
proof (induction xs arbitrary: s)
  case (Cons x xs)
  then show ?case by (auto simp: upd_delayd_def fun_eq_iff intro!: arg_cong [where f = "\<lambda>d. s\<lparr>delayds := d\<rparr>"])
qed (simp add: fun_eq_iff)

definition linked :: "(nat \<Rightarrow> delayd_t) \<Rightarrow> nat \<Rightarrow> delayd_t" where
  "linked D d = (if d < MAXPROC + 1 then (D d)\<lparr>d_next := Some (d + 1)\<rparr>
     else if d = MAXPROC + 1 then (D d)\<lparr>d_next := None\<rparr> else D d)"

lemma fold_linked:
  "upd_delayd (MAXPROC + 1) (d_next_update (\<lambda>_. None))
     (fold (\<lambda>i. upd_delayd i (d_next_update (\<lambda>_. Some (i + 1)))) [0..<MAXPROC + 1] s) = s\<lparr>delayds := linked (delayds s)\<rparr>"
  unfolding fold_upd_delayd [OF distinct_upt] upd_delayd_def
  by (auto simp: linked_def fun_eq_iff intro!: arg_cong [where f = "\<lambda>d. s\<lparr>delayds := d\<rparr>"])

definition adl_ready :: "'a supstate_scheme \<Rightarrow> 'a supstate_scheme" where
  "adl_ready s = (poke (ADL_mutex_addr s) 1 s)\<lparr>delayd_h := Some 0, delaydFree_h := Some 2,
     delayds := (\<lambda>d. if d = 0 then \<lparr>d_next = Some 1, d_wakeTime = - 1, d_supStruct = NULL\<rparr>
       else if d = 1 then \<lparr>d_next = None, d_wakeTime = MAXSIGNEDINT, d_supStruct = NULL\<rparr>
       else linked (delayds s) d)\<rparr>"

lemma adl_adl_ready: "adl (adl_ready s) 0 [] 1 [2..<MAXPROC + 2]"
proof -
  have "chain (dn (adl_ready s)) (if 2 = MAXPROC + 2 then None else Some 2) [2..<MAXPROC + 2] None"
    by (rule chain_upt) (auto simp: adl_ready_def linked_def MAXPROC_def)
  then have "chain (dn (adl_ready s)) (Some 2) [2..<MAXPROC + 2] None" by (simp add: MAXPROC_def)
  moreover have "set (0 # 1 # [2..<MAXPROC + 2]) = {0..<MAXPROC + 2}" unfolding set_upt list.set(2) MAXPROC_def by auto
  moreover have "chain (dn (adl_ready s)) (delayd_h (adl_ready s)) (0 # [] @ [1]) None" by (simp add: adl_ready_def)
  ultimately show ?thesis by (simp add: adl_def adl_ready_def del: upt_Suc)
qed

definition fork :: "u32 \<Rightarrow> 'a supstate_scheme \<Rightarrow> 'a supstate_scheme" where
  "fork frame s = s\<lparr>states := (states s)(frame := set_reg R_sp (mem s RAMBASEADDR + mem s RAMBASESIZE - PAGESIZE)
        (set_reg R_t9 (fn_addr s ''delay_daemon'') ((states s frame)\<lparr>s_pc := fn_addr s ''delay_daemon'',
          s_status := (IEPBITON AND KUPBITOFF) OR IPBITS, s_entryHI := push_bit ASID_SHIFT 0\<rparr>)))\<rparr>"

lemma initADL_eval: "initADL K frame s = map_option snd (K 1 frame NULL 0 (fork frame (adl_ready s)))"
proof -
  let ?a = "(poke (ADL_mutex_addr (s\<lparr>delayd_h := None\<rparr>)) 1 (s\<lparr>delayd_h := None\<rparr>))\<lparr>delaydFree_h := Some 0\<rparr>"
  define b where "b = ?a\<lparr>delayds := linked (delayds s)\<rparr>"
  define c where "c = (upd_delayd 0 (\<lambda>_. \<lparr>d_next = None, d_wakeTime = - 1, d_supStruct = NULL\<rparr>) b)\<lparr>delaydFree_h := dn b 0\<rparr>"
  define e where "e = (upd_delayd 1 (\<lambda>_. \<lparr>d_next = None, d_wakeTime = MAXSIGNEDINT, d_supStruct = NULL\<rparr>) c)\<lparr>delaydFree_h := dn c 1\<rparr>"
  have b: "delaydFree_h b = Some 0" "dn b 0 = Some 1" by (simp_all add: b_def linked_def MAXPROC_def)
  have 1: "allocDelayd (- 1) NULL b = Some (Some 0, c)" unfolding c_def by (rule allocDelayd_eval) (rule b)
  have 2: "allocDelayd MAXSIGNEDINT NULL c = Some (Some 1, e)" unfolding e_def
    by (rule allocDelayd_eval) (simp add: c_def b)
  have 3: "(upd_delayd 0 (d_next_update (\<lambda>_. Some 1)) e)\<lparr>delayd_h := Some 0\<rparr> = adl_ready s"
    by (simp add: e_def c_def b_def linked_def upd_delayd_def adl_ready_def poke_def fun_eq_iff MAXPROC_def)
  let ?f = "upd_delayd 0 (d_next_update (\<lambda>_. Some 1)) e"
  have sel: "states ?f = states (?f\<lparr>delayd_h := Some 0\<rparr>)" "mem e = mem (?f\<lparr>delayd_h := Some 0\<rparr>)"
    "fn_addr ?f = fn_addr (?f\<lparr>delayd_h := Some 0\<rparr>)" by simp_all
  note 5 = sel [unfolded 3]
  have 4: "upd_delayd (MAXPROC + 1) (d_next_update (\<lambda>_. None)) (fold (\<lambda>i. upd_delayd i (d_next_update (\<lambda>_. Some (i + 1)))) [0..<MAXPROC + 1] ?a) = b"
    unfolding fold_linked b_def by (simp add: poke_def)
  show ?thesis unfolding initADL_def Let_def unfolding 4 using 3 5 by (cases "K 1 frame NULL 0 (fork frame (adl_ready s))") (auto simp: 1 2 fork_def Let_def)
qed

end
