(* ===== verification/Storage.thy ===== *)
theory Storage
  imports Vm
begin

text \<open>
  \<^verbatim>\<open>phase4/devSupport.c\<close>: the system calls that read and write blocks of disks and flash devices. The
  transfers go through DMA buffers, one page per device, from which \<open>helper_copy_block\<close> copies.
\<close>

definition helper_copy_block :: "u32 \<Rightarrow> u32 \<Rightarrow> 'a kstate_scheme \<Rightarrow> 'a kstate_scheme" where
  "helper_copy_block src dst s =
     snd (snd (fold (\<lambda>i (src, dst, s). (src + 4, dst + 4, poke dst (mem s src) s))
       [0..<unat (BLOCKSIZE div 4)] (src, dst, s)))"

text \<open>The saved state of the exception that was passed up, and its registers.\<close>

abbreviation exc_reg :: "reg \<Rightarrow> u32 \<Rightarrow> 'a kstate_scheme \<Rightarrow> u32" where
  "exc_reg r a s \<equiv> s_reg (sup_exceptState (supports s a) GENERALEXCEPT) r"

definition set_v0 :: "u32 \<Rightarrow> u32 \<Rightarrow> 'a kstate_scheme \<Rightarrow> 'a kstate_scheme" where
  "set_v0 a v = upd_support a (\<lambda>sup. sup\<lparr>sup_exceptState := (sup_exceptState sup)(GENERALEXCEPT :=
     set_reg R_v0 v (sup_exceptState sup GENERALEXCEPT))\<rparr>)"

section \<open>Disks\<close>

definition WRITE_TO_DISK :: "'a supstate_scheme calls \<Rightarrow> u32 \<Rightarrow> 'a supstate_scheme \<Rightarrow> 'a supstate_scheme option" where
  "WRITE_TO_DISK K currentSupport s = do {
     let devNo = exc_reg R_a2 currentSupport s;
     let disk_sem_idx = devSemIdx DISKINT devNo FALSE;
     let disk_dev_reg_addr = devAddrBase DISKINT devNo;
     let maxcyl = drop_bit 16 (d_data1 (devregs s disk_dev_reg_addr)) AND 0xFFFF;
     let maxhead = drop_bit 8 (d_data1 (devregs s disk_dev_reg_addr)) AND 0xFF;
     let maxsect = d_data1 (devregs s disk_dev_reg_addr) AND 0xFF;
     s \<leftarrow> (if exc_reg R_a1 currentSupport s < KUSEG \<or>
             sint (exc_reg R_a3 currentSupport s) > sint (maxcyl * maxhead * maxsect)
           then program_trap_handler K currentSupport NULL s else Some s);
     (_, s) \<leftarrow> K PASSERN (mutex disk_sem_idx s) 0 0 s;
     sectNo \<leftarrow> int_mod (exc_reg R_a3 currentSupport s) maxsect;
     q \<leftarrow> int_div (exc_reg R_a3 currentSupport s) (maxsect * maxcyl);
     headNo \<leftarrow> int_mod q maxhead;
     q \<leftarrow> int_div (exc_reg R_a3 currentSupport s) maxsect;
     cylNo \<leftarrow> int_mod q maxcyl;
     let s = setSTATUS (getSTATUS s AND NOT IECBITON) s;
     let s = upd_dev disk_dev_reg_addr (d_command_update (\<lambda>_. push_bit CYLNUM_SHIFT cylNo + SEEKCYL)) s;
     (disk_status, s) \<leftarrow> K IOWAIT DISKINT devNo 0 s;
     let s = setSTATUS (getSTATUS s OR IECBITON) s;
     if disk_status \<noteq> READY then do {
       let s = set_v0 currentSupport (0 - disk_status) s;
       (_, s) \<leftarrow> K VERHO (mutex disk_sem_idx s) 0 0 s;
       Some s
     }
     else do {
       let s = helper_copy_block (exc_reg R_a1 currentSupport s) (DISK_DMA_BUFFER_BASE_ADDR + BLOCKSIZE * devNo) s;
       let s = upd_dev disk_dev_reg_addr (d_data0_update (\<lambda>_. DISK_DMA_BUFFER_BASE_ADDR + BLOCKSIZE * devNo)) s;
       let s = setSTATUS (getSTATUS s AND NOT IECBITON) s;
       let s = upd_dev disk_dev_reg_addr (d_command_update (\<lambda>_.
           push_bit HEADNUM_SHIFT headNo + push_bit SECTNUM_SHIFT sectNo + WRITEBLK_DSK)) s;
       (disk_status, s) \<leftarrow> K IOWAIT DISKINT devNo 0 s;
       let s = setSTATUS (getSTATUS s OR IECBITON) s;
       (_, s) \<leftarrow> K VERHO (mutex disk_sem_idx s) 0 0 s;
       Some (if disk_status = READY then set_v0 currentSupport disk_status s
             else set_v0 currentSupport (0 - disk_status) s)
     }
   }"

definition READ_FROM_DISK :: "'a supstate_scheme calls \<Rightarrow> u32 \<Rightarrow> 'a supstate_scheme \<Rightarrow> 'a supstate_scheme option" where
  "READ_FROM_DISK K currentSupport s = do {
     let devNo = exc_reg R_a2 currentSupport s;
     let disk_sem_idx = devSemIdx DISKINT devNo FALSE;
     let disk_dev_reg_addr = devAddrBase DISKINT devNo;
     let maxcyl = drop_bit 16 (d_data1 (devregs s disk_dev_reg_addr)) AND 0xFFFF;
     let maxhead = drop_bit 8 (d_data1 (devregs s disk_dev_reg_addr)) AND 0xFF;
     let maxsect = d_data1 (devregs s disk_dev_reg_addr) AND 0xFF;
     s \<leftarrow> (if exc_reg R_a1 currentSupport s < KUSEG \<or>
             sint (exc_reg R_a3 currentSupport s) > sint (maxcyl * maxhead * maxsect)
           then program_trap_handler K currentSupport NULL s else Some s);
     (_, s) \<leftarrow> K PASSERN (mutex disk_sem_idx s) 0 0 s;
     sectNo \<leftarrow> int_mod (exc_reg R_a3 currentSupport s) maxsect;
     q \<leftarrow> int_div (exc_reg R_a3 currentSupport s) (maxsect * maxcyl);
     headNo \<leftarrow> int_mod q maxhead;
     q \<leftarrow> int_div (exc_reg R_a3 currentSupport s) maxsect;
     cylNo \<leftarrow> int_mod q maxcyl;
     let s = setSTATUS (getSTATUS s AND NOT IECBITON) s;
     let s = upd_dev disk_dev_reg_addr (d_command_update (\<lambda>_. push_bit CYLNUM_SHIFT cylNo + SEEKCYL)) s;
     (disk_status, s) \<leftarrow> K IOWAIT DISKINT devNo 0 s;
     let s = setSTATUS (getSTATUS s OR IECBITON) s;
     if disk_status \<noteq> READY then do {
       let s = set_v0 currentSupport (0 - disk_status) s;
       (_, s) \<leftarrow> K VERHO (mutex disk_sem_idx s) 0 0 s;
       Some s
     }
     else do {
       let s = upd_dev disk_dev_reg_addr (d_data0_update (\<lambda>_. DISK_DMA_BUFFER_BASE_ADDR + BLOCKSIZE * devNo)) s;
       let s = setSTATUS (getSTATUS s AND NOT IECBITON) s;
       let s = upd_dev disk_dev_reg_addr (d_command_update (\<lambda>_.
           push_bit HEADNUM_SHIFT headNo + push_bit SECTNUM_SHIFT sectNo + READBLK_DSK)) s;
       (disk_status, s) \<leftarrow> K IOWAIT DISKINT devNo 0 s;
       let s = setSTATUS (getSTATUS s OR IECBITON) s;
       let s = helper_copy_block (DISK_DMA_BUFFER_BASE_ADDR + BLOCKSIZE * devNo) (exc_reg R_a1 currentSupport s) s;
       (_, s) \<leftarrow> K VERHO (mutex disk_sem_idx s) 0 0 s;
       Some (if disk_status = READY then set_v0 currentSupport disk_status s
             else set_v0 currentSupport (0 - disk_status) s)
     }
   }"

section \<open>Flash devices\<close>

definition READ_FROM_FLASH :: "'a supstate_scheme calls \<Rightarrow> u32 \<Rightarrow> 'a supstate_scheme \<Rightarrow> 'a supstate_scheme option" where
  "READ_FROM_FLASH K currentSupport s = do {
     let devNo = exc_reg R_a2 currentSupport s;
     let flash_sem_idx = devSemIdx FLASHINT devNo FALSE;
     let flash_dev_reg_addr = devAddrBase FLASHINT devNo;
     s \<leftarrow> (if exc_reg R_a1 currentSupport s < KUSEG \<or> sint (exc_reg R_a3 currentSupport s) < 32 \<or>
             exc_reg R_a3 currentSupport s \<ge> d_data1 (devregs s flash_dev_reg_addr)
           then program_trap_handler K currentSupport NULL s else Some s);
     (_, s) \<leftarrow> K PASSERN (mutex flash_sem_idx s) 0 0 s;
     let s = upd_dev flash_dev_reg_addr (d_data0_update (\<lambda>_. FLASK_DMA_BUFFER_BASE_ADDR + BLOCKSIZE * devNo)) s;
     let s = setSTATUS (getSTATUS s AND NOT IECBITON) s;
     let s = upd_dev flash_dev_reg_addr (d_command_update (\<lambda>_.
         push_bit BLOCKNUM_SHIFT (exc_reg R_a3 currentSupport s) + READBLK_FLASH)) s;
     (flash_status, s) \<leftarrow> K IOWAIT FLASHINT devNo 0 s;
     let s = setSTATUS (getSTATUS s OR IECBITON) s;
     let s = helper_copy_block (FLASK_DMA_BUFFER_BASE_ADDR + BLOCKSIZE * devNo) (exc_reg R_a1 currentSupport s) s;
     (_, s) \<leftarrow> K VERHO (mutex flash_sem_idx s) 0 0 s;
     Some (if flash_status = READY then set_v0 currentSupport flash_status s
           else set_v0 currentSupport (0 - flash_status) s)
   }"

definition WRITE_TO_FLASH :: "'a supstate_scheme calls \<Rightarrow> u32 \<Rightarrow> 'a supstate_scheme \<Rightarrow> 'a supstate_scheme option" where
  "WRITE_TO_FLASH K currentSupport s = do {
     let devNo = exc_reg R_a2 currentSupport s;
     let flash_sem_idx = devSemIdx FLASHINT devNo FALSE;
     let flash_dev_reg_addr = devAddrBase FLASHINT devNo;
     s \<leftarrow> (if exc_reg R_a1 currentSupport s < KUSEG \<or> sint (exc_reg R_a3 currentSupport s) < 32 \<or>
             exc_reg R_a3 currentSupport s \<ge> d_data1 (devregs s flash_dev_reg_addr)
           then program_trap_handler K currentSupport NULL s else Some s);
     (_, s) \<leftarrow> K PASSERN (mutex flash_sem_idx s) 0 0 s;
     let s = helper_copy_block (exc_reg R_a1 currentSupport s) (FLASK_DMA_BUFFER_BASE_ADDR + BLOCKSIZE * devNo) s;
     let s = upd_dev flash_dev_reg_addr (d_data0_update (\<lambda>_. FLASK_DMA_BUFFER_BASE_ADDR + BLOCKSIZE * devNo)) s;
     let s = setSTATUS (getSTATUS s AND NOT IECBITON) s;
     let s = upd_dev flash_dev_reg_addr (d_command_update (\<lambda>_.
         push_bit BLOCKNUM_SHIFT (exc_reg R_a3 currentSupport s) + WRITEBLK_FLASH)) s;
     (flash_status, s) \<leftarrow> K IOWAIT FLASHINT devNo 0 s;
     let s = setSTATUS (getSTATUS s OR IECBITON) s;
     (_, s) \<leftarrow> K VERHO (mutex flash_sem_idx s) 0 0 s;
     Some (if flash_status = READY then set_v0 currentSupport flash_status s
           else set_v0 currentSupport (0 - flash_status) s)
   }"

end
