(* ===== verification/SysSupport.thy ===== *)
theory SysSupport
  imports Storage Delay
begin

text \<open>
  \<^verbatim>\<open>phase3/sysSupport.c\<close>: the system calls 9 to 18 of user processes on printers and terminals, and the
  dispatch of the exceptions that the kernel passes up. A local variable that the code reads
  before it is assigned is an option, \<open>None\<close> until then. A \<open>char\<close> is signed.
\<close>

definition helper_check_string_outside_addr_space :: "u32 \<Rightarrow> u32" where
  "helper_check_string_outside_addr_space strAdd =
     (if (strAdd < KUSEG \<or> strAdd > LAST_USER_PAGE + PAGESIZE) \<and>
         (strAdd < UPROC_STACK_AREA \<or> strAdd > UPROC_STACK_AREA + PAGESIZE)
      then TRUE else FALSE)"

definition helper_return_control :: "u32 \<Rightarrow> 'a supstate_scheme \<Rightarrow> (exit \<times> 'a supstate_scheme) option" where
  "helper_return_control passedUpSupportStruct s =
     (let s = upd_support passedUpSupportStruct (\<lambda>sp. sp\<lparr>sup_exceptState := (sup_exceptState sp)(GENERALEXCEPT :=
           (sup_exceptState sp GENERALEXCEPT)\<lparr>s_pc := s_pc (sup_exceptState sp GENERALEXCEPT) + 4\<rparr>)\<rparr>) s
      in Some (LDST (sup_exceptState (supports s passedUpSupportStruct) GENERALEXCEPT), s))"

definition GET_TOD :: "u32 \<Rightarrow> 'a supstate_scheme \<Rightarrow> 'a supstate_scheme option" where
  "GET_TOD passedUpSupportStruct s = do { (t, s) \<leftarrow> STCK s; Some (set_v0 passedUpSupportStruct t s) }"

section \<open>Printers and terminals\<close>

text \<open>The loops. Each returns the index it has reached, the last status and the state.\<close>

partial_function (option) printer_loop ::
    "'a supstate_scheme calls \<Rightarrow> u32 \<Rightarrow> u32 \<Rightarrow> u32 \<Rightarrow> u32 option \<Rightarrow> 'a supstate_scheme \<Rightarrow>
     (u32 \<times> u32 option \<times> 'a supstate_scheme) option" where
  "printer_loop K sp devNo i devStatus s =
     (if sint i < sint (exc_reg R_a2 sp s) then do {
        let printerDevAdd = devAddrBase PRNTINT devNo;
        let s = setSTATUS (getSTATUS s AND NOT IECBITON) s;
        let s = upd_dev printerDevAdd (d_data0_update (\<lambda>_. scast (bytes s (exc_reg R_a1 sp s + i)))) s;
        let s = upd_dev printerDevAdd (d_command_update (\<lambda>_. PRINTCHR)) s;
        (devStatus, s) \<leftarrow> K IOWAIT PRNTINT devNo 0 s;
        let s = setSTATUS (getSTATUS s OR IECBITON) s;
        if devStatus \<noteq> READY then Some (i, Some devStatus, set_v0 sp (- devStatus) s)
        else printer_loop K sp devNo (i + 1) (Some devStatus) s
      }
      else Some (i, devStatus, s))"

definition WRITE_TO_PRINTER :: "'a supstate_scheme calls \<Rightarrow> u32 \<Rightarrow> 'a supstate_scheme \<Rightarrow> 'a supstate_scheme option" where
  "WRITE_TO_PRINTER K sp s = do {
     let devNo = sup_asid (supports s sp) - 1;
     s \<leftarrow> (if helper_check_string_outside_addr_space (exc_reg R_a1 sp s) \<noteq> 0 \<or>
             sint (exc_reg R_a2 sp s) < sint STR_MIN \<or> sint (exc_reg R_a2 sp s) > sint STR_MAX
           then program_trap_handler K sp NULL s else Some s);
     let mutexSemIdx = devSemIdx PRNTINT devNo FALSE;
     (_, s) \<leftarrow> K PASSERN (mutex mutexSemIdx s) 0 0 s;
     (i, devStatus, s) \<leftarrow> printer_loop K sp devNo 0 None s;
     devStatus \<leftarrow> devStatus;
     let s = (if devStatus = READY then set_v0 sp i s else set_v0 sp (- devStatus) s);
     (_, s) \<leftarrow> K VERHO (mutex mutexSemIdx s) 0 0 s;
     Some s
   }"

partial_function (option) transmit_loop ::
    "'a supstate_scheme calls \<Rightarrow> u32 \<Rightarrow> u32 \<Rightarrow> u32 \<Rightarrow> u32 option \<Rightarrow> 'a supstate_scheme \<Rightarrow>
     (u32 \<times> u32 option \<times> 'a supstate_scheme) option" where
  "transmit_loop K sp devNo i transmStatus s =
     (if sint i < sint (exc_reg R_a2 sp s) then do {
        let termDevAdd = devAddrBase TERMINT devNo;
        let s = setSTATUS (getSTATUS s AND NOT IECBITON) s;
        let s = upd_dev termDevAdd (t_transm_command_update (\<lambda>_.
            push_bit TRANS_COMMAND_SHIFT (scast (bytes s (exc_reg R_a1 sp s + i))) + TRANSMIT_COMMAND)) s;
        (transmStatus, s) \<leftarrow> K IOWAIT TERMINT devNo FALSE s;
        let s = setSTATUS (getSTATUS s OR IECBITON) s;
        if transmStatus AND STATUS_CHAR_MASK \<noteq> CHAR_TRANSMITTED
        then Some (i, Some transmStatus, set_v0 sp (- transmStatus) s)
        else transmit_loop K sp devNo (i + 1) (Some transmStatus) s
      }
      else Some (i, transmStatus, s))"

definition WRITE_TO_TERMINAL :: "'a supstate_scheme calls \<Rightarrow> u32 \<Rightarrow> 'a supstate_scheme \<Rightarrow> 'a supstate_scheme option" where
  "WRITE_TO_TERMINAL K sp s = do {
     let devNo = sup_asid (supports s sp) - 1;
     s \<leftarrow> (if helper_check_string_outside_addr_space (exc_reg R_a1 sp s) \<noteq> 0 \<or>
             sint (exc_reg R_a2 sp s) < sint STR_MIN \<or> sint (exc_reg R_a2 sp s) > sint STR_MAX
           then program_trap_handler K sp NULL s else Some s);
     let mutexSemIdx = devSemIdx TERMINT devNo FALSE;
     (_, s) \<leftarrow> K PASSERN (mutex mutexSemIdx s) 0 0 s;
     (i, transmStatus, s) \<leftarrow> transmit_loop K sp devNo 0 None s;
     transmStatus \<leftarrow> transmStatus;
     let s = (if transmStatus AND STATUS_CHAR_MASK = CHAR_TRANSMITTED then set_v0 sp i s
              else set_v0 sp (- transmStatus) s);
     (_, s) \<leftarrow> K VERHO (mutex mutexSemIdx s) 0 0 s;
     Some s
   }"

text \<open>The reading loop ends with a newline or an error, so it may not end.\<close>

partial_function (option) receive_loop ::
    "'a supstate_scheme calls \<Rightarrow> u32 \<Rightarrow> u32 \<Rightarrow> u32 \<Rightarrow> u32 \<Rightarrow> 8 word \<Rightarrow> u32 option \<Rightarrow> 'a supstate_scheme \<Rightarrow>
     (u32 \<times> u32 option \<times> 'a supstate_scheme) option" where
  "receive_loop K sp devNo stringAdd i recvChar recvStatus s =
     (if scast recvChar \<noteq> NEW_LINE then do {
        let termDevAdd = devAddrBase TERMINT devNo;
        let s = setSTATUS (getSTATUS s AND NOT IECBITON) s;
        let s = upd_dev termDevAdd (t_recv_command_update (\<lambda>_. RECEIVE_COMMAND)) s;
        (recvStatusField, s) \<leftarrow> K IOWAIT TERMINT devNo TRUE s;
        let s = setSTATUS (getSTATUS s OR IECBITON) s;
        let recvChar = (ucast (drop_bit RECEIVE_COMMAND_SHIFT (recvStatusField AND RECEIVE_CHAR_MASK)) :: 8 word);
        let recvStatus = recvStatusField AND STATUS_CHAR_MASK;
        let s = s\<lparr>bytes := (bytes s)(stringAdd + i := recvChar)\<rparr>;
        let i = i + 1;
        if recvStatus \<noteq> CHAR_RECIEVED then Some (i, Some recvStatus, set_v0 sp (- recvStatus) s)
        else receive_loop K sp devNo stringAdd i recvChar (Some recvStatus) s
      }
      else Some (i, recvStatus, s))"

definition READ_FROM_TERMINAL :: "'a supstate_scheme calls \<Rightarrow> u32 \<Rightarrow> 'a supstate_scheme \<Rightarrow> 'a supstate_scheme option" where
  "READ_FROM_TERMINAL K sp s = do {
     let devNo = sup_asid (supports s sp) - 1;
     s \<leftarrow> (if helper_check_string_outside_addr_space (exc_reg R_a1 sp s) \<noteq> 0 \<or>
             sint (exc_reg R_a2 sp s) < sint STR_MIN \<or> sint (exc_reg R_a2 sp s) > sint STR_MAX
           then program_trap_handler K sp NULL s else Some s);
     let mutexSemIdx = devSemIdx TERMINT devNo TRUE;
     (_, s) \<leftarrow> K PASSERN (mutex mutexSemIdx s) 0 0 s;
     let stringAdd = exc_reg R_a1 sp s;
     (i, recvStatus, s) \<leftarrow> receive_loop K sp devNo stringAdd 0 97 None s;
     recvStatus \<leftarrow> recvStatus;
     let s = (if recvStatus = CHAR_RECIEVED then set_v0 sp i s else set_v0 sp (- recvStatus) s);
     (_, s) \<leftarrow> K VERHO (mutex mutexSemIdx s) 0 0 s;
     Some s
   }"

section \<open>Dispatch\<close>

text \<open>An arm of the switch without a \<open>break\<close> goes on into the next one if it comes back at all;
  \<open>served\<close> is the pair of statements of most arms, whose second never does.\<close>

definition served :: "('a supstate_scheme \<Rightarrow> 'a supstate_scheme option) \<Rightarrow> u32 \<Rightarrow> 'a supstate_scheme \<Rightarrow>
    (exit option \<times> 'a supstate_scheme) option" where
  "served call sp s = do { s \<leftarrow> call s; (e, s) \<leftarrow> helper_return_control sp s; Some (Some e, s) }"

definition syscall_handler ::
    "'a supstate_scheme calls \<Rightarrow> u32 \<Rightarrow> 'a supstate_scheme \<Rightarrow> (exit option \<times> 'a supstate_scheme) option" where
  "syscall_handler K sp s =
     (let a0 = exc_reg R_a0 sp s
      in if a0 = 9 then do { s \<leftarrow> TERMINATE K sp s; served (GET_TOD sp) sp s }
         else if a0 = 10 then served (GET_TOD sp) sp s
         else if a0 = 11 then served (WRITE_TO_PRINTER K sp) sp s
         else if a0 = 12 then served (WRITE_TO_TERMINAL K sp) sp s
         else if a0 = 13 then served (READ_FROM_TERMINAL K sp) sp s
         else if a0 = 14 then served (WRITE_TO_DISK K sp) sp s
         else if a0 = 15 then served (READ_FROM_DISK K sp) sp s
         else if a0 = 16 then served (WRITE_TO_FLASH K sp) sp s
         else if a0 = 17 then served (READ_FROM_FLASH K sp) sp s
         else if a0 = 18 then do { (e, s) \<leftarrow> DELAY K sp s; Some (Some e, s) }
         else do { s \<leftarrow> program_trap_handler K sp NULL s; Some (None, s) })"

text \<open>If the last call came back there would be nowhere to return to.\<close>

definition general_exception_handler :: "'a supstate_scheme calls \<Rightarrow> 'a supstate_scheme \<Rightarrow> (exit \<times> 'a supstate_scheme) option" where
  "general_exception_handler K s = do {
     (passedUpSupportStruct, s) \<leftarrow> K SUPPORTGET 0 0 0 s;
     let excCode = CauseExcCode (s_cause (sup_exceptState (supports s passedUpSupportStruct) GENERALEXCEPT));
     (e, s) \<leftarrow> (if excCode = SYS then syscall_handler K passedUpSupportStruct s else Some (None, s));
     case e of
       Some e \<Rightarrow> Some (e, s)
     | None \<Rightarrow> do { s \<leftarrow> program_trap_handler K passedUpSupportStruct NULL s; None }
   }"

end
