(* ===== verification/InitProc.thy ===== *)
theory InitProc
  imports SysSupport
begin

text \<open>
  \<^verbatim>\<open>phase3/initProc.c\<close>: the first process. It sets up the mutexes, the swap pool, the backing store
  and the list of sleeping processes, starts the user processes and waits for them to end. Local
  structures are passed to the kernel by address; \<open>frame\<close> stands for these addresses on the stack.
\<close>

definition init_Uproc ::
    "'a supstate_scheme calls \<Rightarrow> u32 \<Rightarrow> u32 \<Rightarrow> u32 \<Rightarrow> 'a supstate_scheme \<Rightarrow> (u32 \<times> 'a supstate_scheme) option" where
  "init_Uproc K frame initSupportPTR ASID s = do {
     let s = s\<lparr>states := (states s)(frame :=
         set_reg R_sp UPROCSTACK (set_reg R_t9 UPROCSTARTADDR ((states s frame)\<lparr>s_pc := UPROCSTARTADDR,
           s_status := ((IEPBITON OR TEBITON) OR IPBITS) OR KUPBITON,
           s_entryHI := push_bit ASID_SHIFT ASID\<rparr>)))\<rparr>;
     let s = upd_support initSupportPTR (sup_asid_update (\<lambda>_. ASID)) s;
     let s = upd_support initSupportPTR (sup_exceptContext_update (\<lambda>c. c(
         PGFAULTEXCEPT := \<lparr>c_stackPtr = sup_stackTlb initSupportPTR TLB_STACK_AREA,
           c_status = ((IEPBITON OR TEBITON) OR IPBITS) AND KUPBITOFF, c_pc = fn_addr s ''TLB_exception_handler''\<rparr>,
         GENERALEXCEPT := \<lparr>c_stackPtr = sup_stackGen initSupportPTR GEN_EXC_STACK_AREA,
           c_status = ((IEPBITON OR TEBITON) OR IPBITS) AND KUPBITOFF, c_pc = fn_addr s ''general_exception_handler''\<rparr>))) s;
     let s = poke (delaySem initSupportPTR) 0 s;
     let s = init_Uproc_pgTable initSupportPTR s;
     K 1 frame initSupportPTR 0 s
   }"

section \<open>The backing store\<close>

definition helper_read_flash ::
    "'a supstate_scheme calls \<Rightarrow> u32 \<Rightarrow> u32 \<Rightarrow> 'a supstate_scheme \<Rightarrow> (u32 \<times> 'a supstate_scheme) option" where
  "helper_read_flash K devNo blockNo s = do {
     let flash_dev_reg_addr = devAddrBase FLASHINT devNo;
     s \<leftarrow> (if sint blockNo > 32 then do { (_, s) \<leftarrow> K TERMINATETHREAD 0 0 0 s; Some s } else Some s);
     let s = upd_dev flash_dev_reg_addr (d_data0_update (\<lambda>_. FLASK_DMA_BUFFER_BASE_ADDR + (BLOCKSIZE * devNo))) s;
     let s = setSTATUS (getSTATUS s AND NOT IECBITON) s;
     let s = upd_dev flash_dev_reg_addr (d_command_update (\<lambda>_. push_bit BLOCKNUM_SHIFT blockNo + READBLK_FLASH)) s;
     (flash_status, s) \<leftarrow> K IOWAIT FLASHINT devNo 0 s;
     let s = setSTATUS (getSTATUS s OR IECBITON) s;
     Some (if flash_status = READY then flash_status else 0 - flash_status, s)
   }"

definition helper_write_disk :: "'a supstate_scheme calls \<Rightarrow> u32 \<Rightarrow> 'a supstate_scheme \<Rightarrow> (u32 \<times> 'a supstate_scheme) option" where
  "helper_write_disk K secNo2D s = do {
     let devNo = RESERVED_DISK_NO;
     let disk_sem_idx = devSemIdx DISKINT devNo FALSE;
     let disk_dev_reg_addr = devAddrBase DISKINT devNo;
     let maxcyl = drop_bit 16 (d_data1 (devregs s disk_dev_reg_addr)) AND 0xFFFF;
     let maxhead = drop_bit 8 (d_data1 (devregs s disk_dev_reg_addr)) AND 0xFF;
     let maxsect = d_data1 (devregs s disk_dev_reg_addr) AND 0xFF;
     s \<leftarrow> (if sint secNo2D > sint (maxcyl * maxhead * maxsect)
           then do { (_, s) \<leftarrow> K TERMINATETHREAD 0 0 0 s; Some s } else Some s);
     inTrack \<leftarrow> int_mod secNo2D (maxhead * maxsect);
     sectNo \<leftarrow> int_mod inTrack maxsect;
     headNo \<leftarrow> int_div inTrack maxsect;
     cylNo \<leftarrow> int_div secNo2D (maxhead * maxsect);
     let s = setSTATUS (getSTATUS s AND NOT IECBITON) s;
     let s = upd_dev disk_dev_reg_addr (d_command_update (\<lambda>_. push_bit CYLNUM_SHIFT cylNo + SEEKCYL)) s;
     (disk_status, s) \<leftarrow> K IOWAIT DISKINT devNo 0 s;
     let s = setSTATUS (getSTATUS s OR IECBITON) s;
     if disk_status \<noteq> READY then do {
       (_, s) \<leftarrow> K VERHO (mutex disk_sem_idx s) 0 0 s;
       Some (0 - disk_status, s)
     }
     else do {
       let s = upd_dev disk_dev_reg_addr (d_data0_update (\<lambda>_. DISK_DMA_BUFFER_BASE_ADDR + (BLOCKSIZE * devNo))) s;
       let s = setSTATUS (getSTATUS s AND NOT IECBITON) s;
       let s = upd_dev disk_dev_reg_addr (d_command_update (\<lambda>_.
           push_bit HEADNUM_SHIFT headNo + push_bit SECTNUM_SHIFT sectNo + WRITEBLK_DSK)) s;
       (disk_status, s) \<leftarrow> K IOWAIT DISKINT devNo 0 s;
       let s = setSTATUS (getSTATUS s OR IECBITON) s;
       Some (if disk_status = READY then disk_status else 0 - disk_status, s)
     }
   }"

text \<open>The two loops, over the pairs of device and page in their order.\<close>

fun store_pages :: "'a supstate_scheme calls \<Rightarrow> (u32 \<times> u32) list \<Rightarrow> 'a supstate_scheme \<Rightarrow> 'a supstate_scheme option" where
  "store_pages K [] s = Some s"
| "store_pages K ((devNo, pageNo) # rest) s = do {
     let flash_sem_idx = devSemIdx FLASHINT devNo FALSE;
     (_, s) \<leftarrow> K PASSERN (mutex flash_sem_idx s) 0 0 s;
     (flash_status, s) \<leftarrow> helper_read_flash K devNo pageNo s;
     let s = helper_copy_block (FLASK_DMA_BUFFER_BASE_ADDR + (BLOCKSIZE * devNo)) (DISK_DMA_BUFFER_BASE_ADDR + (BLOCKSIZE * devNo)) s;
     (disk_status, s) \<leftarrow> helper_write_disk K (32 * devNo + pageNo) s;
     (_, s) \<leftarrow> K VERHO (mutex flash_sem_idx s) 0 0 s;
     store_pages K rest s
   }"

definition set_up_backing_store :: "'a supstate_scheme calls \<Rightarrow> 'a supstate_scheme \<Rightarrow> 'a supstate_scheme option" where
  "set_up_backing_store K s = do {
     let disk_sem_idx = devSemIdx DISKINT RESERVED_DISK_NO FALSE;
     (_, s) \<leftarrow> K PASSERN (mutex disk_sem_idx s) 0 0 s;
     s \<leftarrow> store_pages K [(of_nat devNo, of_nat pageNo). devNo \<leftarrow> [0..<UPROC_NUM], pageNo \<leftarrow> [0..<PAGE_TABLE_SIZE]] s;
     (_, s) \<leftarrow> K VERHO (mutex disk_sem_idx s) 0 0 s;
     Some s
   }"

section \<open>The first process\<close>

text \<open>\<open>initSupportPTRArr\<close> is a local array of support structures, of 4568 bytes each, at the address \<open>arr\<close>.\<close>

fun start_procs :: "'a supstate_scheme calls \<Rightarrow> u32 \<Rightarrow> u32 \<Rightarrow> nat list \<Rightarrow> 'a supstate_scheme \<Rightarrow> 'a supstate_scheme option" where
  "start_procs K frame arr [] s = Some s"
| "start_procs K frame arr (i # is) s = do {
     (newUprocStat, s) \<leftarrow> init_Uproc K frame (arr + 4568 * (of_nat i - 1)) (of_nat i) s;
     s \<leftarrow> (if newUprocStat = -1 then do { (_, s) \<leftarrow> K TERMINATETHREAD 0 0 0 s; Some s } else Some s);
     start_procs K frame arr is s
   }"

fun await_procs :: "'a supstate_scheme calls \<Rightarrow> nat list \<Rightarrow> 'a supstate_scheme \<Rightarrow> 'a supstate_scheme option" where
  "await_procs K [] s = Some s"
| "await_procs K (i # is) s = do { (_, s) \<leftarrow> K PASSERN (masterSemaphore_addr s) 0 0 s; await_procs K is s }"

definition test :: "'a supstate_scheme calls \<Rightarrow> u32 \<Rightarrow> u32 \<Rightarrow> u32 \<Rightarrow> 'a supstate_scheme \<Rightarrow> 'a supstate_scheme option" where
  "test K daemon_frame frame arr s = do {
     let s = fold (\<lambda>i s. poke (mutex (of_nat i) s) 1 s) [0..<DEVINTNUM * DEVPERINT + DEVPERINT] s;
     let s = initSwapStruct s;
     s \<leftarrow> set_up_backing_store K s;
     s \<leftarrow> initADL K daemon_frame s;
     s \<leftarrow> start_procs K frame arr [1..<UPROC_NUM + 1] s;
     s \<leftarrow> await_procs K [1..<UPROC_NUM + 1] s;
     (_, s) \<leftarrow> K TERMINATETHREAD 0 0 0 s;
     Some s
   }"

end
