(* ===== verification/Dispatch.thy ===== *)
theory Dispatch
  imports SysSupport
begin

text \<open>
  The way of a system call 9 to 18 through \<open>general_exception_handler\<close>: which routine the number selects, and
  the return of control to the instruction behind the call.
\<close>

text \<open>The state at the exception, a request for service \<open>k\<close>, and the state the caller goes on with if it
  finds \<open>v\<close> in \<open>v0\<close>.\<close>

abbreviation exc_state :: "u32 \<Rightarrow> 'a kstate_scheme \<Rightarrow> state_t" where
  "exc_state a s \<equiv> sup_exceptState (supports s a) GENERALEXCEPT"

definition asks :: "u32 \<Rightarrow> u32 \<Rightarrow> 'a supstate_scheme \<Rightarrow> bool" where
  "asks a k s \<longleftrightarrow> CauseExcCode (s_cause (exc_state a s)) = SYS \<and> exc_reg R_a0 a s = k"

definition behind :: "state_t \<Rightarrow> state_t" where
  "behind st = st\<lparr>s_pc := s_pc st + 4\<rparr>"

lemma set_v0_saved: "exc_state a (set_v0 a v s) = set_reg R_v0 v (exc_state a s)"
  by (simp add: set_v0_def upd_support_def)

text \<open>The routine of each number that returns through \<open>helper_return_control\<close>.\<close>

definition service :: "'a supstate_scheme calls \<Rightarrow> u32 \<Rightarrow> u32 \<Rightarrow> ('a supstate_scheme \<Rightarrow> 'a supstate_scheme option) option" where
  "service K a k = map_of [(10, GET_TOD a), (11, WRITE_TO_PRINTER K a), (12, WRITE_TO_TERMINAL K a), (13, READ_FROM_TERMINAL K a),
     (14, WRITE_TO_DISK K a), (15, READ_FROM_DISK K a), (16, WRITE_TO_FLASH K a), (17, READ_FROM_FLASH K a)] k"

lemma served_eval:
  assumes "call s = Some s'"
  shows "\<exists>s''. served call a s = Some (Some (LDST (behind (exc_state a s'))), s'') \<and> mem s'' = mem s' \<and> bytes s'' = bytes s' \<and>
     devregs s'' = devregs s' \<and> supstate.more s'' = supstate.more s'"
  using assms by (simp add: served_def helper_return_control_def behind_def upd_support_def)

lemma syscall_served:
  assumes "exc_reg R_a0 a s = k" "service K a k = Some call"
  shows "syscall_handler K a s = served call a s"
  using assms by (auto simp: syscall_handler_def service_def Let_def split: if_splits)

lemma handled:
  assumes "K SUPPORTGET 0 0 0 s0 = Some (a, s)" "asks a k s" "service K a k = Some call" "call s = Some s'"
  shows "\<exists>s''. general_exception_handler K s0 = Some (LDST (behind (exc_state a s')), s'') \<and> mem s'' = mem s' \<and> bytes s'' = bytes s' \<and>
     devregs s'' = devregs s' \<and> supstate.more s'' = supstate.more s'"
proof -
  from served_eval [of call s s' a, OF assms(4)] obtain s'' where
    s'': "served call a s = Some (Some (LDST (behind (exc_state a s'))), s'')" "mem s'' = mem s'" "bytes s'' = bytes s'" "devregs s'' = devregs s'"
      "supstate.more s'' = supstate.more s'" by blast
  moreover have "syscall_handler K a s = served call a s" using assms(2,3) by (intro syscall_served) (simp_all add: asks_def)
  ultimately show ?thesis using assms(1,2) by (simp add: general_exception_handler_def asks_def)
qed

lemma services:
  "service K a 11 = Some (WRITE_TO_PRINTER K a)" "service K a 12 = Some (WRITE_TO_TERMINAL K a)"
  "service K a 13 = Some (READ_FROM_TERMINAL K a)" "service K a 14 = Some (WRITE_TO_DISK K a)" "service K a 15 = Some (READ_FROM_DISK K a)"
  "service K a 16 = Some (WRITE_TO_FLASH K a)" "service K a 17 = Some (READ_FROM_FLASH K a)"
  by (simp_all add: service_def)

lemma delayed:
  assumes "K SUPPORTGET 0 0 0 s0 = Some (a, s)" "asks a 18 s"
  shows "general_exception_handler K s0 = DELAY K a s"
  using assms by (cases "DELAY K a s") (auto simp: asks_def general_exception_handler_def syscall_handler_def Let_def)

section \<open>Exceptions that end the process\<close>

text \<open>An exception that is no system call, a system call 9 or an unknown one, and a call with an argument the code
  refuses: a string or a block outside the address space, a length outside 0 to 128, a sector or block the device
  does not have.\<close>

definition bad_string :: "u32 \<Rightarrow> 'a supstate_scheme \<Rightarrow> bool" where
  "bad_string a s \<longleftrightarrow> helper_check_string_outside_addr_space (exc_reg R_a1 a s) \<noteq> 0 \<or>
     sint (exc_reg R_a2 a s) < sint STR_MIN \<or> sint (exc_reg R_a2 a s) > sint STR_MAX"

definition bad_sector :: "u32 \<Rightarrow> 'a supstate_scheme \<Rightarrow> bool" where
  "bad_sector a s \<longleftrightarrow> (let w = d_data1 (devregs s (devAddrBase DISKINT (exc_reg R_a2 a s))) in exc_reg R_a1 a s < KUSEG \<or>
     sint (exc_reg R_a3 a s) > sint ((drop_bit 16 w AND 0xFFFF) * (drop_bit 8 w AND 0xFF) * (w AND 0xFF)))"

definition bad_block :: "u32 \<Rightarrow> 'a supstate_scheme \<Rightarrow> bool" where
  "bad_block a s \<longleftrightarrow> exc_reg R_a1 a s < KUSEG \<or> sint (exc_reg R_a3 a s) < 32 \<or>
     exc_reg R_a3 a s \<ge> d_data1 (devregs s (devAddrBase FLASHINT (exc_reg R_a2 a s)))"

definition fatal :: "u32 \<Rightarrow> 'a supstate_scheme \<Rightarrow> bool" where
  "fatal a s \<longleftrightarrow> CauseExcCode (s_cause (exc_state a s)) \<noteq> SYS \<or> exc_reg R_a0 a s < 10 \<or> 18 < exc_reg R_a0 a s \<or>
     exc_reg R_a0 a s \<in> {11, 12, 13} \<and> bad_string a s \<or> exc_reg R_a0 a s \<in> {14, 15} \<and> bad_sector a s \<or>
     exc_reg R_a0 a s \<in> {16, 17} \<and> bad_block a s"

lemma fatal_call:
  assumes "TERMINATE K a s = None"
  shows "bad_string a s \<Longrightarrow> k \<in> {11, 12, 13} \<Longrightarrow> service K a k = Some call \<Longrightarrow> call s = None"
    "bad_sector a s \<Longrightarrow> k \<in> {14, 15} \<Longrightarrow> service K a k = Some call \<Longrightarrow> call s = None"
    "bad_block a s \<Longrightarrow> k \<in> {16, 17} \<Longrightarrow> service K a k = Some call \<Longrightarrow> call s = None"
proof -
  have t: "program_trap_handler K a NULL s = None" using assms by (simp add: program_trap_handler_def)
  show "bad_string a s \<Longrightarrow> k \<in> {11, 12, 13} \<Longrightarrow> service K a k = Some call \<Longrightarrow> call s = None"
    using t by (auto simp: service_def bad_string_def WRITE_TO_PRINTER_def WRITE_TO_TERMINAL_def READ_FROM_TERMINAL_def Let_def)
  show "bad_sector a s \<Longrightarrow> k \<in> {14, 15} \<Longrightarrow> service K a k = Some call \<Longrightarrow> call s = None"
    using t by (auto simp: service_def bad_sector_def WRITE_TO_DISK_def READ_FROM_DISK_def Let_def)
  show "bad_block a s \<Longrightarrow> k \<in> {16, 17} \<Longrightarrow> service K a k = Some call \<Longrightarrow> call s = None"
    using t by (auto simp: service_def bad_block_def WRITE_TO_FLASH_def READ_FROM_FLASH_def Let_def)
qed

lemma fatal_ends:
  assumes K: "K SUPPORTGET 0 0 0 s0 = Some (a, s)" and f: "fatal a s" and t: "TERMINATE K a s = None"
  shows "general_exception_handler K s0 = None"
proof (cases "CauseExcCode (s_cause (exc_state a s)) = SYS")
  case False
  then show ?thesis using K t by (simp add: general_exception_handler_def program_trap_handler_def)
next
  case True
  let ?k = "exc_reg R_a0 a s"
  have "syscall_handler K a s = None"
  proof (cases "?k < 10 \<or> 18 < ?k")
    case other: True
    then have "?k \<notin> {10, 11, 12, 13, 14, 15, 16, 17, 18}" by auto
    then show ?thesis using t by (simp add: syscall_handler_def program_trap_handler_def Let_def)
  next
    case False
    with f True have c: "?k \<in> {11, 12, 13} \<and> bad_string a s \<or> ?k \<in> {14, 15} \<and> bad_sector a s \<or> ?k \<in> {16, 17} \<and> bad_block a s"
      by (simp add: fatal_def)
    then obtain call where call: "service K a ?k = Some call" by (auto simp: service_def)
    then have "call s = None" using c fatal_call [OF t, of ?k call] by blast
    then show ?thesis unfolding syscall_served [OF refl call] by (simp add: served_def)
  qed
  then show ?thesis using K True by (simp add: general_exception_handler_def)
qed

end
