(* ===== verification/Props_Support.thy ===== *)
theory Props_Support
  imports Machine Reclaim Adl InitProc Dispatch
begin

text \<open>
  Properties of the support level: page tables and TLB refill, the choice of a frame, the pager, the end of a
  user process, and the delay facility. Each is applied at a concrete state by its witness.
\<close>

section \<open>Concrete states\<close>

text \<open>A support level after reset: one process with the structure at \<open>0x20021000\<close> and the ASID 1,
  which has accessed page 0x80000 and has 3 in \<open>a1\<close>; all frames are free. The disk has 64 cylinders, 4 heads and 8 sectors.\<close>

definition faulting :: state_t where
  "faulting = (set_reg R_a1 3 (p_s fresh_pcb))\<lparr>s_entryHI := 0x80000040, s_cause := 8\<rparr>"

definition support0 :: "'a \<Rightarrow> 'a supstate_scheme" where
  "support0 x = \<lparr>pcbs = (\<lambda>_. fresh_pcb\<lparr>p_supportStruct := 0x20021000\<rparr>), pcbFree_h = None,
     semds = (\<lambda>_. \<lparr>s_next = None, s_semAdd = 0, s_procQ = None\<rparr>), semdFree_h = None, semd_h = None,
     semdTable_addr = 0x20020000, process_count = 1, softBlock_count = 0, readyQ = None, currentP = Some 0,
     device_sem_addr = 0x20010000, fn_addr = (\<lambda>_. 0x20002000), mem = (\<lambda>_. 1), states = (\<lambda>_. faulting),
     supports = (\<lambda>_. \<lparr>sup_asid = 1, sup_exceptState = (\<lambda>_. faulting),
       sup_exceptContext = (\<lambda>_. \<lparr>c_stackPtr = 0, c_status = 0, c_pc = 0\<rparr>), sup_privatePgTbl = fresh_pte 1\<rparr>),
     devregs = (\<lambda>_. \<lparr>d_status = 1, d_command = 0, d_data0 = 0, d_data1 = 0x400408\<rparr>), status = 0, plt = 0,
     plt_lag = (\<lambda>n. of_nat n + 10), plt_reads = 0, swapPoolTable = (\<lambda>_. free_entry), nextFrame = 0,
     swapPoolSema4_addr = 0x20022000, masterSemaphore_addr = 0x20022004, mutex_addr = 0x20022008,
     delayds = (\<lambda>_. \<lparr>d_next = None, d_wakeTime = 0, d_supStruct = 0\<rparr>), delaydFree_h = None, delayd_h = None,
     ADL_mutex_addr = 0x20022100, bytes = (\<lambda>_. 0), cp0_EntryHi = 0, cp0_EntryLo = 0, tlb = [],
     tod = (\<lambda>_. 5000000), tod_reads = 0, \<dots> = x\<rparr>"

text \<open>The state of a process that asks for service \<open>k\<close>, and a support level with such a process.\<close>

definition calling :: "u32 \<Rightarrow> state_t \<Rightarrow> state_t" where
  "calling k st = (set_reg R_a0 k st)\<lparr>s_cause := 32\<rparr>"

definition requesting :: "u32 \<Rightarrow> supstate" where
  "requesting k = upd_support 0x20021000 (\<lambda>sup. sup\<lparr>sup_exceptState := (\<lambda>_. calling k faulting)\<rparr>) (support0 ())"

lemma requesting_sel: "asid a (requesting k) = 1" "swapPoolTable (requesting k) = swapPoolTable (support0 ())" "nextFrame (requesting k) = 0"
  "pgTbl a i (requesting k) = pgTbl a i (support0 ())"
  by (simp_all add: requesting_def upd_support_def support0_def pgTbl_def)

lemma sys_code: "CauseExcCode 32 = SYS"
  by code_simp

text \<open>A kernel whose calls return at once and change nothing.\<close>

definition calm :: "u32 \<Rightarrow> 'a supstate_scheme calls" where
  "calm me n a b c s = Some (if n = SUPPORTGET then me else READY, s)"

lemma calm_ok: "calls_ok (calm me) me A"
proof -
  have "SUPPORTGET \<notin> {PASSERN, VERHO, IOWAIT}" by code_simp
  then show ?thesis by (auto simp: calls_ok_def calm_def)
qed

lemma fresh_absent: "EntryLo (fresh_pte n i) AND VBITON = 0"
  using absent_pte by (simp add: fresh_pte_def)

lemma support0_inv: "vm_inv {0x20021000} (support0 x)"
  by (simp add: vm_inv_def support0_def pgTbl_def fresh_absent)

section \<open>Page tables\<close>

text \<open>C28: After \<open>init_Uproc_pgTable\<close>, whatever the pager later does to the low words of the entries, the refill
  handler returns to the access that missed, having loaded the entry that is in the table of the process at
  the page number modulo 32. This entry is the one of the page that was accessed if and only if the page is
  in the address space (the 31 pages from 0x80000 and the stack page 0xBFFFF); for another page the
  handler loads an entry for a different page, and the access misses again.\<close>

theorem refill_loads_page:
  assumes "currentP s = Some c" "p_supportStruct (pcbs s c) = a" "a \<noteq> NULL" "sup_asid (supports s0 a) < 64"
    "\<forall>i<32. EntryHi (pgTbl a i s) = EntryHi (pgTbl a i (init_Uproc_pgTable a s0))"
  defines "p \<equiv> drop_bit VPN_SHIFT (s_entryHI (bios s)) AND VPN_MASK"
  shows "\<exists>s' e. uTLB_RefillHandler s = Some (LDST (bios s), s') \<and> tlb s' = e # tlb s \<and> supports s' = supports s \<and>
     e = pgTbl a (unat p mod 32) s \<and> (vpn (EntryHi e) = p \<longleftrightarrow> user_page p)"
proof -
  have "\<forall>i<32. vpn (EntryHi (pgTbl a i s)) = of_nat (page_number i)"
    using assms(4,5) by (simp add: init_pgTable_entry fresh_pte_vpn)
  from table_lookup [OF this] refill_eval [OF assms(1-3)] show ?thesis
    unfolding p_def vpn_def [symmetric] by auto
qed

theorem refill_loads_page_witness:
  "\<exists>s' e. uTLB_RefillHandler (support0 ()) = Some (LDST faulting, s') \<and> tlb s' = [e] \<and> vpn (EntryHi e) = 0x80000"
proof -
  have p: "drop_bit VPN_SHIFT (s_entryHI faulting) AND VPN_MASK = 0x80000" by code_simp
  have u: "user_page 0x80000" unfolding user_page_def by (rule exI [of _ 0]) (simp add: page_number_def)
  have b: "bios (support0 ()) = faulting" "tlb (support0 ()) = []" by (simp_all add: support0_def)
  have t: "pgTbl 0x20021000 i (support0 ()) = fresh_pte 1 i" "sup_asid (supports (support0 ()) 0x20021000) = 1" for i
    by (simp_all add: support0_def pgTbl_def)
  have "currentP (support0 ()) = Some 0" "p_supportStruct (pcbs (support0 ()) 0) = 0x20021000" "(0x20021000 :: u32) \<noteq> NULL"
    "sup_asid (supports (support0 ()) 0x20021000) < 64"
    "\<forall>i<32. EntryHi (pgTbl 0x20021000 i (support0 ())) = EntryHi (pgTbl 0x20021000 i (init_Uproc_pgTable 0x20021000 (support0 ())))"
    by (simp_all add: t init_pgTable_entry NULL_def) (simp_all add: support0_def)
  from refill_loads_page [OF this] show ?thesis unfolding b p using u by blast
qed

section \<open>The swap pool\<close>

text \<open>C29: The frame for a page is the first free one, as long as there is one; once all frames are in use the
  frames are taken in turn, so that no frame is taken again before each of the 32 has been taken.\<close>

theorem frames_fifo:
  assumes "unat (nextFrame s) < 32"
  shows "(if \<exists>g<32. free_frame s g then fst (page_replace s) = of_nat (LEAST g. free_frame s g)
     else victims n s = map (\<lambda>j. of_nat ((unat (nextFrame s) + j) mod 32)) [0..<n])"
proof (cases "\<exists>g<32. free_frame s g")
  case True
  then obtain g where "g < 32" "free_frame s g" by blast
  from page_replace_free [OF assms this] obtain f n where
    f: "page_replace s = (of_nat f, s\<lparr>nextFrame := of_nat n\<rparr>)" "free_frame s f" "\<forall>h<f. \<not> free_frame s h" by blast
  have "(LEAST g. free_frame s g) = f" using f(2,3) by (intro Least_equality) (auto simp: not_less [symmetric])
  with f(1) True show ?thesis by simp
next
  case False
  with victims_full [OF assms] show ?thesis by auto
qed

theorem frames_fifo_witness: "fst (page_replace (support0 ())) = 0"
proof -
  have f: "free_frame (support0 ()) g" "unat (nextFrame (support0 ())) < 32" for g by (simp_all add: support0_def)
  have "\<exists>g<32. free_frame (support0 ()) g" by (rule exI [of _ 0]) (simp add: f)
  moreover have "(LEAST g. free_frame (support0 ()) g) = 0" by (rule Least_equality) (simp_all add: f)
  ultimately show ?thesis using frames_fifo [OF f(2)] by simp
qed
section \<open>The pager\<close>


lemma faulting_values:
  "CauseExcCode (s_cause faulting) \<noteq> TLB_MOD" "vpn (s_entryHI faulting) = 0x80000"
  by code_simp+

lemma support0_fields:
  "mutex_addr (support0 x) \<noteq> swapPoolSema4_addr (support0 x)" "sup_exceptState (supports (support0 x) a) e = faulting"
  "asid a (support0 x) = 1" "\<not> present a i (support0 x)" "devregs (support0 x) r = \<lparr>d_status = 1, d_command = 0, d_data0 = 0, d_data1 = 0x400408\<rparr>"
  by (simp_all add: support0_def pgTbl_def fresh_absent)

lemma support0_disk: "disk_ok (support0 x)"
  unfolding disk_ok_def support0_fields(5) by code_simp


section \<open>The end of a user process\<close>


text \<open>A kernel that does not come back from a termination, otherwise like \<open>calm\<close>. The process makes the unknown
  call 19.\<close>

definition calm_end :: "u32 \<Rightarrow> 'a supstate_scheme calls" where
  "calm_end me n a b c s = (if n = TERMINATETHREAD then None else calm me n a b c s)"

lemma calm_end_ok: "calls_ok (calm_end me) me A"
proof -
  have "SUPPORTGET \<notin> {PASSERN, VERHO, IOWAIT, TERMINATETHREAD}" "TERMINATETHREAD \<notin> {PASSERN, VERHO, IOWAIT}" by code_simp+
  then show ?thesis by (auto simp: calls_ok_def calm_end_def calm_def)
qed


section \<open>The delay facility\<close>





text \<open>A kernel that records V, and a state with one sleeper, whose time has come.\<close>

definition recording :: "u32 list supstate_scheme calls" where
  "recording n a b c s = Some (READY, if n = 4 then supstate.more_update (\<lambda>l. l @ [a]) s else s)"

lemma recording_ok: "daemon_calls recording h t"
  by (auto simp: daemon_calls_def recording_def same_adl_def same_clock_def)

definition one_asleep :: "u32 list supstate_scheme" where
  "one_asleep = sleeping 2 0 3000000 0x20021000 (adl_ready (support0 []))"

lemma one_asleep: "adl one_asleep 0 [2] 1 [3..<22]" "clock_ok one_asleep" "reading one_asleep n = 5000000"
    "delayds one_asleep 2 = \<lparr>d_next = Some 1, d_wakeTime = 3000000, d_supStruct = 0x20021000\<rparr>"
    "supstate.more one_asleep = []" "ADL_mutex_addr one_asleep = 0x20022100"
proof -
  have "[2..<MAXPROC + 2] = 2 # [3..<22]" by (subst upt_conv_Cons) (simp_all add: MAXPROC_def)
  with adl_adl_ready [of "support0 []"] have a: "adl (adl_ready (support0 [])) 0 [] 1 (2 # [3..<22])" by simp
  have "(3000000 :: u32) \<noteq> MAXSIGNEDINT" by code_simp
  from adl_sleeping(1) [OF a this refl refl] show "adl one_asleep 0 [2] 1 [3..<22]" by (simp add: one_asleep_def)
  have f: "tod one_asleep n = 5000000" "mem one_asleep b = 1" for n b
    by (simp_all add: one_asleep_def adl_ready_def support0_def poke_def)
  have r: "reading one_asleep n = 5000000" for n unfolding reading_def f by code_simp
  then show "reading one_asleep n = 5000000" .
  have "sint (5000000 :: u32) < sint MAXSIGNEDINT" by code_simp
  then show "clock_ok one_asleep" by (simp add: clock_ok_def r f)
  show "delayds one_asleep 2 = \<lparr>d_next = Some 1, d_wakeTime = 3000000, d_supStruct = 0x20021000\<rparr>"
    "supstate.more one_asleep = []" "ADL_mutex_addr one_asleep = 0x20022100"
    by (simp_all add: one_asleep_def adl_ready_def support0_def poke_def sleeping_def setSTATUS_def Let_def)
qed


end
