(* ===== verification/Disk.thy ===== *)
theory Disk
  imports Dispatch
begin

text \<open>
  The disk calls of a user process on a disk: what \<open>helper_copy_block\<close> copies, where on the disk the
  code puts a sector, and the round trip of a block. \<open>disk_answers\<close> states what a disk does with the commands
  it is given; its contents and the cylinder its heads are at are the extension of the state.
\<close>

section \<open>Blocks\<close>

definition word_at :: "u32 \<Rightarrow> nat \<Rightarrow> u32" where
  "word_at b i = b + 4 * of_nat i"

definition block :: "u32 \<Rightarrow> u32 set" where
  "block b = word_at b ` {..<1024}"

lemma word_at_inj: "i < 1024 \<Longrightarrow> j < 1024 \<Longrightarrow> word_at b i = word_at b j \<longleftrightarrow> i = j"
proof -
  assume ij: "i < 1024" "j < 1024"
  have u: "unat (4 * of_nat k :: u32) = 4 * k" if "k < 1024" for k
    using that by (simp add: unat_word_ariths unat_of_nat)
  have "word_at b i = word_at b j \<longleftrightarrow> (4 * of_nat i :: u32) = 4 * of_nat j" by (simp add: word_at_def)
  also have "\<dots> \<longleftrightarrow> unat (4 * of_nat i :: u32) = unat (4 * of_nat j :: u32)" by (rule word_unat_eq_iff)
  finally show ?thesis using ij by (simp add: u)
qed

lemma copy_loop:
  assumes "n \<le> 1024" "block src \<inter> block dst = {}"
  shows "\<exists>m. fold (\<lambda>i (src, dst, s). (src + 4, dst + 4, poke dst (mem s src) s)) [0..<n] (src, dst, s) =
      (word_at src n, word_at dst n, s\<lparr>mem := m\<rparr>) \<and>
     (\<forall>i<n. m (word_at dst i) = mem s (word_at src i)) \<and> (\<forall>x. x \<notin> word_at dst ` {..<n} \<longrightarrow> m x = mem s x)"
  using assms(1)
proof (induction n)
  case 0
  then show ?case by (intro exI [of _ "mem s"]) (simp add: word_at_def)
next
  case (Suc n)
  then obtain m where m: "fold (\<lambda>i (src, dst, s). (src + 4, dst + 4, poke dst (mem s src) s)) [0..<n] (src, dst, s) =
      (word_at src n, word_at dst n, s\<lparr>mem := m\<rparr>)" "\<forall>i<n. m (word_at dst i) = mem s (word_at src i)"
      "\<forall>x. x \<notin> word_at dst ` {..<n} \<longrightarrow> m x = mem s x" by auto
  have n: "n < 1024" using Suc.prems by simp
  then have "word_at src n \<notin> block dst" using assms(2) by (auto simp: block_def)
  then have "word_at src n \<notin> word_at dst ` {..<n}" using n by (auto simp: block_def)
  then have src: "m (word_at src n) = mem s (word_at src n)" using m(3) by blast
  have ne: "word_at dst i \<noteq> word_at dst n" if "i < n" for i using word_at_inj [of i n dst] that n by simp
  have next': "word_at b n + 4 = word_at b (Suc n)" for b by (simp add: word_at_def algebra_simps)
  let ?m = "m(word_at dst n := m (word_at src n))"
  show ?case
  proof (intro exI [of _ ?m] conjI)
    show "fold (\<lambda>i (src, dst, s). (src + 4, dst + 4, poke dst (mem s src) s)) [0..<Suc n] (src, dst, s) =
      (word_at src (Suc n), word_at dst (Suc n), s\<lparr>mem := ?m\<rparr>)"
      using m(1) by (simp add: poke_def next')
    show "\<forall>i<Suc n. ?m (word_at dst i) = mem s (word_at src i)" using m(2) src ne by (auto simp: less_Suc_eq)
    show "\<forall>x. x \<notin> word_at dst ` {..<Suc n} \<longrightarrow> ?m x = mem s x" using m(3) by (auto simp: lessThan_Suc)
  qed
qed

lemma copy_block:
  assumes "block src \<inter> block dst = {}"
  shows "\<exists>m. helper_copy_block src dst s = s\<lparr>mem := m\<rparr> \<and>
     (\<forall>i<1024. m (word_at dst i) = mem s (word_at src i)) \<and> (\<forall>x. x \<notin> block dst \<longrightarrow> m x = mem s x)"
proof -
  have "unat (BLOCKSIZE div 4) = 1024" by code_simp
  with copy_loop [of 1024 src dst s] assms show ?thesis by (auto simp: helper_copy_block_def block_def)
qed

section \<open>Where a sector lies\<close>

abbreviation disk_reg :: "u32 \<Rightarrow> u32" where "disk_reg d \<equiv> devAddrBase DISKINT d"
abbreviation dma :: "u32 \<Rightarrow> u32" where "dma d \<equiv> DISK_DMA_BUFFER_BASE_ADDR + BLOCKSIZE * d"

definition cyls :: "u32 \<Rightarrow> u32" where "cyls w = drop_bit 16 w AND 0xFFFF"
definition heads :: "u32 \<Rightarrow> u32" where "heads w = drop_bit 8 w AND 0xFF"
definition sects :: "u32 \<Rightarrow> u32" where "sects w = w AND 0xFF"

text \<open>The number of sectors of a disk with the geometry \<open>w\<close>, and the place of sector \<open>n\<close>.\<close>

definition capacity :: "u32 \<Rightarrow> nat" where
  "capacity w = unat (cyls w) * unat (heads w) * unat (sects w)"

definition place :: "u32 \<Rightarrow> u32 \<Rightarrow> u32 \<times> u32 \<times> u32" where
  "place w n = (cmod (cdiv n (sects w)) (cyls w), cmod (cdiv n (sects w * cyls w)) (heads w), cmod n (sects w))"

lemma and_mask_less: "unat (x AND 0xFFFF :: u32) < 0x10000" "unat (x AND 0xFF :: u32) < 0x100"
proof -
  have m: "(0xFFFF :: u32) = mask 16" "(0xFF :: u32) = mask 8" by (simp_all add: mask_eq_exp_minus_1)
  show "unat (x AND 0xFFFF :: u32) < 0x10000" "unat (x AND 0xFF :: u32) < 0x100"
    unfolding m take_bit_eq_mask [symmetric] unsigned_take_bit_eq
    using take_bit_nat_less_exp [of 16 "unat x"] take_bit_nat_less_exp [of 8 "unat x"] by simp_all
qed

lemma dims: "unat (cyls w) < 0x10000" "unat (heads w) < 0x100" "unat (sects w) < 0x100"
  by (simp_all only: cyls_def heads_def sects_def and_mask_less)

lemma cdiv_small:
  assumes "unat a < 2147483648" "0 < unat b" "unat b < 2147483648"
  shows "unat (cdiv a b) = unat a div unat b"
proof -
  have "sint a div sint b = int (unat a div unat b)"
    using sint_small [OF assms(1)] sint_small [OF assms(3)] by (simp only: zdiv_int)
  moreover have "0 \<le> sint a" "0 < sint b"
    unfolding sint_small [OF assms(1)] sint_small [OF assms(3)] using assms(2) by (simp_all only: of_nat_0_less_iff of_nat_0_le_iff)
  ultimately have "cdiv a b = of_nat (unat a div unat b)" using cdiv_pos [of a b] by (simp only: of_int_of_nat_eq)
  moreover have "unat a div unat b < 4294967296"
    using div_le_dividend [of "unat a" "unat b"] assms(1) by linarith
  ultimately show ?thesis by (simp only: unat_of_nat) simp
qed

lemma cmod_unat:
  assumes "unat a < 2147483648" "0 < unat b" "unat b < 2147483648"
  shows "unat (cmod a b) = unat a mod unat b"
  using cmod_small [of a "unat b"] assms by simp

lemma place_eval:
  assumes "0 < capacity w" "unat n < 2147483648"
  obtains c h e where "place w n = (c, h, e)" "unat c = unat n div unat (sects w) mod unat (cyls w)"
    "unat h = unat n div (unat (sects w) * unat (cyls w)) mod unat (heads w)" "unat e = unat n mod unat (sects w)"
    "unat c < unat (cyls w)" "unat h < unat (heads w)" "unat e < unat (sects w)"
    "sects w \<noteq> 0" "sects w * cyls w \<noteq> 0" "heads w \<noteq> 0" "cyls w \<noteq> 0"
proof -
  have pos: "0 < unat (cyls w)" "0 < unat (heads w)" "0 < unat (sects w)" using assms(1) by (simp_all add: capacity_def)
  have "unat (sects w) * unat (cyls w) \<le> 0x100 * 0x10000" using dims [of w] by (intro mult_le_mono) simp_all
  then have sc: "unat (sects w * cyls w) = unat (sects w) * unat (cyls w)" "unat (sects w * cyls w) < 2147483648"
    by (simp_all add: unat_word_ariths)
  have small: "unat (cyls w) < 2147483648" "unat (heads w) < 2147483648" "unat (sects w) < 2147483648"
    using dims [of w] by simp_all
  have q: "unat (cdiv n (sects w)) = unat n div unat (sects w)" "unat (cdiv n (sects w * cyls w)) = unat n div (unat (sects w) * unat (cyls w))"
    using cdiv_small [OF assms(2)] pos sc small by simp_all
  have le: "unat n div k < 2147483648" for k using div_le_dividend [of "unat n" k] assms(2) by linarith
  have r: "unat (cmod (cdiv n (sects w)) (cyls w)) = unat n div unat (sects w) mod unat (cyls w)"
    "unat (cmod (cdiv n (sects w * cyls w)) (heads w)) = unat n div (unat (sects w) * unat (cyls w)) mod unat (heads w)"
    "unat (cmod n (sects w)) = unat n mod unat (sects w)"
    using cmod_unat pos small q le assms(2) by simp_all
  have "0 < unat (sects w * cyls w)" unfolding sc(1) using pos by simp
  with pos have nz: "sects w \<noteq> 0" "sects w * cyls w \<noteq> 0" "heads w \<noteq> 0" "cyls w \<noteq> 0" by (auto simp only: unat_0 less_irrefl)
  have lt: "unat (cmod (cdiv n (sects w)) (cyls w)) < unat (cyls w)" "unat (cmod (cdiv n (sects w * cyls w)) (heads w)) < unat (heads w)"
    "unat (cmod n (sects w)) < unat (sects w)" unfolding r using pos by simp_all
  show ?thesis by (rule that [OF place_def r lt nz])
qed
text \<open>Different sectors lie at different places.\<close>

lemma split_sector:
  fixes n S C H :: nat
  assumes "n < C * H * S"
  shows "n = n mod S + S * (n div S mod C + C * (n div (S * C) mod H))"
proof -
  have "0 < S" "0 < C" using assms by (auto intro: gr0I)
  have "n div (S * C) < H"
    using assms by (intro less_mult_imp_div_less) (simp add: ac_simps)
  then have "n div (S * C) mod H = n div S div C" by (simp add: div_mult2_eq)
  moreover have "n div S = n div S mod C + C * (n div S div C)" by (simp only: mod_mult_div_eq)
  ultimately show ?thesis using mod_mult_div_eq [of n S] by (metis)
qed

lemma place_inj:
  assumes "unat n < capacity w" "unat m < capacity w" "capacity w < 2147483648" "place w n = place w m"
  shows "n = m"
proof -
  have "0 < capacity w" using assms(1) by simp
  have lt: "unat n < 2147483648" "unat m < 2147483648" using assms(1-3) by simp_all
  obtain c h e where n: "place w n = (c, h, e)" "unat c = unat n div unat (sects w) mod unat (cyls w)"
    "unat h = unat n div (unat (sects w) * unat (cyls w)) mod unat (heads w)" "unat e = unat n mod unat (sects w)"
    by (rule place_eval [OF \<open>0 < capacity w\<close> lt(1)]) blast
  obtain c' h' e' where m: "place w m = (c', h', e')" "unat c' = unat m div unat (sects w) mod unat (cyls w)"
    "unat h' = unat m div (unat (sects w) * unat (cyls w)) mod unat (heads w)" "unat e' = unat m mod unat (sects w)"
    by (rule place_eval [OF \<open>0 < capacity w\<close> lt(2)]) blast
  have eq: "c = c'" "h = h'" "e = e'" using assms(4) n(1) m(1) by simp_all
  have "unat n = unat e + unat (sects w) * (unat c + unat (cyls w) * unat h)"
    using split_sector [OF assms(1) [unfolded capacity_def]] n by simp
  moreover have "unat m = unat e + unat (sects w) * (unat c + unat (cyls w) * unat h)"
    using split_sector [OF assms(2) [unfolded capacity_def]] m eq by simp
  ultimately show ?thesis by (simp add: word_unat_eq_iff)
qed

section \<open>The disk\<close>

text \<open>The cylinder at which the heads are, and the words of each sector.\<close>

type_synonym platters = "u32 \<times> (u32 \<times> u32 \<times> u32 \<Rightarrow> nat \<Rightarrow> u32)"

abbreviation at_cyl :: "platters supstate_scheme \<Rightarrow> u32" where "at_cyl s \<equiv> fst (supstate.more s)"
abbreviation stored :: "platters supstate_scheme \<Rightarrow> u32 \<times> u32 \<times> u32 \<Rightarrow> nat \<Rightarrow> u32" where
  "stored s \<equiv> snd (supstate.more s)"
abbreviation geometry :: "u32 \<Rightarrow> 'a supstate_scheme \<Rightarrow> u32" where "geometry d s \<equiv> d_data1 (devregs s (disk_reg d))"

text \<open>\<open>undisturbed q a U s s'\<close>: from \<open>s\<close> to \<open>s'\<close> the memory \<open>U\<close>, the saved states of \<open>a\<close> and the
  geometry of the device with the registers \<open>q\<close> stay.\<close>

definition undisturbed :: "u32 \<Rightarrow> u32 \<Rightarrow> u32 set \<Rightarrow> 'a supstate_scheme \<Rightarrow> 'a supstate_scheme \<Rightarrow> bool" where
  "undisturbed q a U s s' \<longleftrightarrow> (\<forall>x\<in>U. mem s' x = mem s x) \<and>
     sup_exceptState (supports s' a) = sup_exceptState (supports s a) \<and> d_data1 (devregs s' q) = d_data1 (devregs s q)"

text \<open>The semaphores of the disk let the caller pass, and no other process uses the disk or the memory \<open>U\<close> while
  it waits. The disk does what its command register says: it moves the heads to a cylinder, writes
  the page at \<open>d_data0\<close> to a sector, or reads a sector into that page.\<close>

definition disk_answers :: "platters supstate_scheme calls \<Rightarrow> u32 \<Rightarrow> u32 \<Rightarrow> u32 set \<Rightarrow> bool" where
  "disk_answers K d a U \<longleftrightarrow>
     (\<forall>n x s. n \<in> {PASSERN, VERHO} \<longrightarrow>
        (\<exists>r s'. K n x 0 0 s = Some (r, s') \<and> undisturbed (disk_reg d) a U s s' \<and> supstate.more s' = supstate.more s)) \<and>
     (\<forall>s c. d_command (devregs s (disk_reg d)) = push_bit CYLNUM_SHIFT c + SEEKCYL \<and> c < cyls (geometry d s) \<longrightarrow>
        (\<exists>s'. K IOWAIT DISKINT d 0 s = Some (READY, s') \<and> undisturbed (disk_reg d) a U s s' \<and> supstate.more s' = (c, stored s))) \<and>
     (\<forall>s h e. d_command (devregs s (disk_reg d)) = push_bit HEADNUM_SHIFT h + push_bit SECTNUM_SHIFT e + WRITEBLK_DSK \<and>
        h < heads (geometry d s) \<and> e < sects (geometry d s) \<longrightarrow>
        (\<exists>s' b. K IOWAIT DISKINT d 0 s = Some (READY, s') \<and> undisturbed (disk_reg d) a U s s' \<and>
           supstate.more s' = (at_cyl s, (stored s)((at_cyl s, h, e) := b)) \<and>
           (\<forall>i<1024. b i = mem s (word_at (d_data0 (devregs s (disk_reg d))) i)))) \<and>
     (\<forall>s h e. d_command (devregs s (disk_reg d)) = push_bit HEADNUM_SHIFT h + push_bit SECTNUM_SHIFT e + READBLK_DSK \<and>
        h < heads (geometry d s) \<and> e < sects (geometry d s) \<longrightarrow>
        (\<exists>s'. K IOWAIT DISKINT d 0 s = Some (READY, s') \<and> undisturbed (disk_reg d) a (U - block (d_data0 (devregs s (disk_reg d)))) s s' \<and>
           supstate.more s' = supstate.more s \<and>
           (\<forall>i<1024. mem s' (word_at (d_data0 (devregs s (disk_reg d))) i) = stored s (at_cyl s, h, e) i)))"
lemma disk_answersD:
  assumes "disk_answers K d a U"
  shows "n \<in> {PASSERN, VERHO} \<Longrightarrow>
       \<exists>r s'. K n x 0 0 s = Some (r, s') \<and> undisturbed (disk_reg d) a U s s' \<and> supstate.more s' = supstate.more s"
    "d_command (devregs s (disk_reg d)) = push_bit CYLNUM_SHIFT c + SEEKCYL \<Longrightarrow> c < cyls (geometry d s) \<Longrightarrow>
       \<exists>s'. K IOWAIT DISKINT d 0 s = Some (READY, s') \<and> undisturbed (disk_reg d) a U s s' \<and> supstate.more s' = (c, stored s)"
    "d_command (devregs s (disk_reg d)) = push_bit HEADNUM_SHIFT h + push_bit SECTNUM_SHIFT e + WRITEBLK_DSK \<Longrightarrow>
       h < heads (geometry d s) \<Longrightarrow> e < sects (geometry d s) \<Longrightarrow>
       \<exists>s' b. K IOWAIT DISKINT d 0 s = Some (READY, s') \<and> undisturbed (disk_reg d) a U s s' \<and>
           supstate.more s' = (at_cyl s, (stored s)((at_cyl s, h, e) := b)) \<and>
           (\<forall>i<1024. b i = mem s (word_at (d_data0 (devregs s (disk_reg d))) i))"
    "d_command (devregs s (disk_reg d)) = push_bit HEADNUM_SHIFT h + push_bit SECTNUM_SHIFT e + READBLK_DSK \<Longrightarrow>
       h < heads (geometry d s) \<Longrightarrow> e < sects (geometry d s) \<Longrightarrow>
       \<exists>s'. K IOWAIT DISKINT d 0 s = Some (READY, s') \<and> undisturbed (disk_reg d) a (U - block (d_data0 (devregs s (disk_reg d)))) s s' \<and>
           supstate.more s' = supstate.more s \<and>
           (\<forall>i<1024. mem s' (word_at (d_data0 (devregs s (disk_reg d))) i) = stored s (at_cyl s, h, e) i)"
  using assms unfolding disk_answers_def by blast+

lemma undisturbed_trans: "undisturbed q a U s s' \<Longrightarrow> undisturbed q a U s' s'' \<Longrightarrow> undisturbed q a U s s''"
  by (simp add: undisturbed_def)

lemma undisturbed_assign [simp]:
  "undisturbed q a U s (setSTATUS v t) = undisturbed q a U s t" "undisturbed q a U (setSTATUS v s) t = undisturbed q a U s t"
  "undisturbed q a U s (upd_dev r (d_command_update f) t) = undisturbed q a U s t"
  "undisturbed q a U (upd_dev r (d_command_update f) s) t = undisturbed q a U s t"
  "undisturbed q a U s (upd_dev r (d_data0_update f) t) = undisturbed q a U s t"
  "undisturbed q a U (upd_dev r (d_data0_update f) s) t = undisturbed q a U s t"
  by (simp_all add: undisturbed_def setSTATUS_def upd_dev_def)

lemma more_assign [simp]:
  "supstate.more (setSTATUS v t) = supstate.more t" "supstate.more (upd_dev r f t) = supstate.more t"
  "supstate.more (set_v0 a v t) = supstate.more t" "supports (setSTATUS v t) = supports t" "supports (upd_dev r f t) = supports t"
  by (simp_all add: setSTATUS_def upd_dev_def set_v0_def upd_support_def)

lemma reg_assign [simp]:
  "d_command (devregs (upd_dev r (d_command_update f) t) r) = f (d_command (devregs t r))"
  "d_data0 (devregs (upd_dev r (d_command_update f) t) r) = d_data0 (devregs t r)"
  "d_data0 (devregs (upd_dev r (d_data0_update f) t) r) = f (d_data0 (devregs t r))"
  "devregs (setSTATUS v t) = devregs t" "mem (setSTATUS v t) = mem t" "mem (upd_dev r g t) = mem t"
  "d_data1 (devregs (upd_dev r (d_command_update f) t) q) = d_data1 (devregs t q)"
  "d_data1 (devregs (upd_dev r (d_data0_update f) t) q) = d_data1 (devregs t q)"
  by (simp_all add: setSTATUS_def upd_dev_def)

lemma set_v0_reg [simp]: "exc_reg R_v0 a (set_v0 a v s) = v" "geometry d (set_v0 a v s) = geometry d s" "mem (set_v0 a v s) = mem s"
  by (simp_all add: set_v0_def upd_support_def set_reg_def)

lemma sector_in_range:
  fixes n :: u32
  assumes "unat n < capacity w" "capacity w < 2147483648"
  shows "\<not> sint n > sint (cyls w * heads w * sects w)"
proof -
  have "unat (cyls w) * unat (heads w) \<le> 0x10000 * 0x100" using dims [of w] by (intro mult_le_mono) simp_all
  then have "unat (cyls w * heads w) = unat (cyls w) * unat (heads w)" by (simp add: unat_word_ariths)
  then have p: "unat (cyls w * heads w * sects w) = capacity w"
    using assms(2) by (simp add: unat_word_ariths(2) [of "cyls w * heads w"] capacity_def)
  have "sint (cyls w * heads w * sects w) = int (capacity w)" using sint_small [of "cyls w * heads w * sects w"] assms(2) p by simp
  moreover have "sint n = int (unat n)" using sint_small [of n] assms by simp
  ultimately show ?thesis using assms(1) by linarith
qed
section \<open>The two calls\<close>

text \<open>The caller's request: the address \<open>b\<close> of its buffer, the disk \<open>d\<close> and the sector \<open>n\<close>.\<close>

definition disk_request :: "u32 \<Rightarrow> u32 \<Rightarrow> u32 \<Rightarrow> u32 \<Rightarrow> u32 set \<Rightarrow> 'a supstate_scheme \<Rightarrow> bool" where
  "disk_request a b d n U s \<longleftrightarrow> exc_reg R_a1 a s = b \<and> exc_reg R_a2 a s = d \<and> exc_reg R_a3 a s = n \<and> KUSEG \<le> b \<and>
     unat n < capacity (geometry d s) \<and> capacity (geometry d s) < 2147483648 \<and>
     block b \<subseteq> U \<and> block (dma d) \<subseteq> U \<and> block b \<inter> block (dma d) = {}"

lemma undisturbed_reg: "undisturbed q a U s s' \<Longrightarrow> exc_reg r a s' = exc_reg r a s"
  by (simp add: undisturbed_def)

lemma READ_FROM_DISK_spec:
  assumes K: "disk_answers K d a U" and rq: "disk_request a b d n U s"
  shows "\<exists>s'. READ_FROM_DISK K a s = Some s' \<and> exc_state a s' = set_reg R_v0 READY (exc_state a s) \<and>
     (\<forall>i<1024. mem s' (word_at b i) = stored s (place (geometry d s) n) i)"
proof -
  note D = disk_answersD [OF K]
  let ?w = "geometry d s"
  have q: "exc_reg R_a1 a s = b" "exc_reg R_a2 a s = d" "exc_reg R_a3 a s = n" "\<not> b < KUSEG"
    "block b \<subseteq> U" "block (dma d) \<inter> block b = {}" using rq by (auto simp: disk_request_def)
  have cap: "unat n < capacity ?w" "capacity ?w < 2147483648" using rq by (simp_all add: disk_request_def)
  have "0 < capacity ?w" "unat n < 2147483648" using cap by simp_all
  then obtain c h e where p: "place ?w n = (c, h, e)" "unat c < unat (cyls ?w)" "unat h < unat (heads ?w)" "unat e < unat (sects ?w)"
    and nz: "sects ?w \<noteq> 0" "sects ?w * cyls ?w \<noteq> 0" "heads ?w \<noteq> 0" "cyls ?w \<noteq> 0" by (rule place_eval)
  have nums: "int_mod n (sects ?w) = Some e" "int_div n (sects ?w * cyls ?w) = Some (cdiv n (sects ?w * cyls ?w))"
    "int_mod (cdiv n (sects ?w * cyls ?w)) (heads ?w) = Some h" "int_div n (sects ?w) = Some (cdiv n (sects ?w))"
    "int_mod (cdiv n (sects ?w)) (cyls ?w) = Some c"
    using p(1) nz by (simp_all add: int_mod_def int_div_def place_def)
  have lt: "c < cyls ?w" "h < heads ?w" "e < sects ?w" using p(2-4) by (simp_all add: word_less_nat_alt)
  obtain r1 s1 where s1: "K PASSERN (mutex (devSemIdx DISKINT d FALSE) s) 0 0 s = Some (r1, s1)" "undisturbed (disk_reg d) a U s s1"
      "supstate.more s1 = supstate.more s" using D(1) by blast
  let ?t1 = "upd_dev (disk_reg d) (d_command_update (\<lambda>_. push_bit CYLNUM_SHIFT c + SEEKCYL)) (setSTATUS (getSTATUS s1 AND NOT IECBITON) s1)"
  have "geometry d ?t1 = ?w" using s1(2) by (simp add: undisturbed_def)
  then obtain s2 where s2: "K IOWAIT DISKINT d 0 ?t1 = Some (READY, s2)" "undisturbed (disk_reg d) a U ?t1 s2" "supstate.more s2 = (c, stored ?t1)"
    using D(2) [of ?t1 c] lt(1) by auto
  let ?t2 = "setSTATUS (getSTATUS s2 OR IECBITON) s2"
  let ?t3 = "upd_dev (disk_reg d) (d_data0_update (\<lambda>_. dma d)) ?t2"
  let ?t4 = "upd_dev (disk_reg d) (d_command_update (\<lambda>_. push_bit HEADNUM_SHIFT h + push_bit SECTNUM_SHIFT e + READBLK_DSK))
     (setSTATUS (getSTATUS ?t3 AND NOT IECBITON) ?t3)"
  have u2: "undisturbed (disk_reg d) a U s s2" using undisturbed_trans [OF s1(2)] s2(2) by simp
  have "geometry d ?t4 = ?w" "d_data0 (devregs ?t4 (disk_reg d)) = dma d" "supstate.more ?t4 = (c, stored s)"
    using u2 s2(3) s1(3) by (simp_all add: undisturbed_def)
  then obtain s5 where s5: "K IOWAIT DISKINT d 0 ?t4 = Some (READY, s5)" "undisturbed (disk_reg d) a (U - block (dma d)) ?t4 s5"
      "\<forall>i<1024. mem s5 (word_at (dma d) i) = stored s (c, h, e) i"
    using D(4) [of ?t4 h e] lt(2,3) by auto
  let ?t5 = "setSTATUS (getSTATUS s5 OR IECBITON) s5"
  have r5: "exc_reg r a ?t5 = exc_reg r a s" for r
    using undisturbed_reg [OF u2, of r] undisturbed_reg [OF s5(2), of r] by simp
  obtain m where m: "helper_copy_block (dma d) b ?t5 = ?t5\<lparr>mem := m\<rparr>" "\<forall>i<1024. m (word_at b i) = mem ?t5 (word_at (dma d) i)"
    using copy_block [OF q(6)] by blast
  let ?t6 = "?t5\<lparr>mem := m\<rparr>"
  obtain r7 s7 where s7: "K VERHO (mutex (devSemIdx DISKINT d FALSE) ?t6) 0 0 ?t6 = Some (r7, s7)" "undisturbed (disk_reg d) a U ?t6 s7"
    using D(1) by blast
  have "mem s7 (word_at b i) = stored s (c, h, e) i" if "i < 1024" for i
  proof -
    have "word_at b i \<in> U" using q(5) that by (auto simp: block_def)
    then show ?thesis using s7(2) m(2) s5(3) that by (simp add: undisturbed_def)
  qed
  moreover have "exc_state a s7 = exc_state a s" using u2 s5(2) s7(2) by (simp add: undisturbed_def)
  moreover have "READ_FROM_DISK K a s = Some (set_v0 a READY s7)"
    unfolding READ_FROM_DISK_def Let_def q(1-3) cyls_def [symmetric] heads_def [symmetric]
    unfolding sects_def [symmetric] using q(4) sector_in_range [OF cap] s1(1) s2(1) s5(1) s7(1) m(1)
      undisturbed_reg [OF s1(2)] undisturbed_reg [OF u2] r5 q(1-3)
    by (simp add: nums)
  ultimately show ?thesis using p(1) by (intro exI [of _ "set_v0 a READY s7"]) (simp add: set_v0_saved)
qed
lemma WRITE_TO_DISK_spec:
  assumes K: "disk_answers K d a U" and rq: "disk_request a b d n U s"
  shows "\<exists>s' v. WRITE_TO_DISK K a s = Some s' \<and> exc_state a s' = set_reg R_v0 READY (exc_state a s) \<and> geometry d s' = geometry d s \<and>
     stored s' = (stored s)(place (geometry d s) n := v) \<and> (\<forall>i<1024. v i = mem s (word_at b i))"
proof -
  note D = disk_answersD [OF K]
  let ?w = "geometry d s"
  have q: "exc_reg R_a1 a s = b" "exc_reg R_a2 a s = d" "exc_reg R_a3 a s = n" "\<not> b < KUSEG"
    "block b \<subseteq> U" "block b \<inter> block (dma d) = {}" "block (dma d) \<subseteq> U" using rq by (auto simp: disk_request_def)
  have cap: "unat n < capacity ?w" "capacity ?w < 2147483648" using rq by (simp_all add: disk_request_def)
  have "0 < capacity ?w" "unat n < 2147483648" using cap by simp_all
  then obtain c h e where p: "place ?w n = (c, h, e)" "unat c < unat (cyls ?w)" "unat h < unat (heads ?w)" "unat e < unat (sects ?w)"
    and nz: "sects ?w \<noteq> 0" "sects ?w * cyls ?w \<noteq> 0" "heads ?w \<noteq> 0" "cyls ?w \<noteq> 0" by (rule place_eval)
  have nums: "int_mod n (sects ?w) = Some e" "int_div n (sects ?w * cyls ?w) = Some (cdiv n (sects ?w * cyls ?w))"
    "int_mod (cdiv n (sects ?w * cyls ?w)) (heads ?w) = Some h" "int_div n (sects ?w) = Some (cdiv n (sects ?w))"
    "int_mod (cdiv n (sects ?w)) (cyls ?w) = Some c"
    using p(1) nz by (simp_all add: int_mod_def int_div_def place_def)
  have lt: "c < cyls ?w" "h < heads ?w" "e < sects ?w" using p(2-4) by (simp_all add: word_less_nat_alt)
  obtain r1 s1 where s1: "K PASSERN (mutex (devSemIdx DISKINT d FALSE) s) 0 0 s = Some (r1, s1)" "undisturbed (disk_reg d) a U s s1"
      "supstate.more s1 = supstate.more s" using D(1) by blast
  let ?t1 = "upd_dev (disk_reg d) (d_command_update (\<lambda>_. push_bit CYLNUM_SHIFT c + SEEKCYL)) (setSTATUS (getSTATUS s1 AND NOT IECBITON) s1)"
  have "geometry d ?t1 = ?w" using s1(2) by (simp add: undisturbed_def)
  then obtain s2 where s2: "K IOWAIT DISKINT d 0 ?t1 = Some (READY, s2)" "undisturbed (disk_reg d) a U ?t1 s2" "supstate.more s2 = (c, stored ?t1)"
    using D(2) [of ?t1 c] lt(1) by auto
  let ?t2 = "setSTATUS (getSTATUS s2 OR IECBITON) s2"
  have u2: "undisturbed (disk_reg d) a U s s2" using undisturbed_trans [OF s1(2)] s2(2) by simp
  obtain m where m: "helper_copy_block b (dma d) ?t2 = ?t2\<lparr>mem := m\<rparr>" "\<forall>i<1024. m (word_at (dma d) i) = mem ?t2 (word_at b i)"
    using copy_block [OF q(6)] by blast
  let ?t3 = "upd_dev (disk_reg d) (d_data0_update (\<lambda>_. dma d)) (?t2\<lparr>mem := m\<rparr>)"
  let ?t4 = "upd_dev (disk_reg d) (d_command_update (\<lambda>_. push_bit HEADNUM_SHIFT h + push_bit SECTNUM_SHIFT e + WRITEBLK_DSK))
     (setSTATUS (getSTATUS ?t3 AND NOT IECBITON) ?t3)"
  have "geometry d ?t4 = ?w" "d_data0 (devregs ?t4 (disk_reg d)) = dma d" "supstate.more ?t4 = (c, stored s)" "mem ?t4 = m"
    using u2 s2(3) s1(3) by (simp_all add: undisturbed_def)
  then obtain s5 v where s5: "K IOWAIT DISKINT d 0 ?t4 = Some (READY, s5)" "undisturbed (disk_reg d) a U ?t4 s5"
      "stored s5 = (stored s)((c, h, e) := v)" "\<forall>i<1024. v i = m (word_at (dma d) i)"
    using D(3) [of ?t4 h e] lt(2,3) by auto
  let ?t5 = "setSTATUS (getSTATUS s5 OR IECBITON) s5"
  obtain r7 s7 where s7: "K VERHO (mutex (devSemIdx DISKINT d FALSE) ?t5) 0 0 ?t5 = Some (r7, s7)" "undisturbed (disk_reg d) a U ?t5 s7"
      "supstate.more s7 = supstate.more ?t5" using D(1) by blast
  have "v i = mem s (word_at b i)" if "i < 1024" for i
  proof -
    have "word_at b i \<in> U" using q(5) that by (auto simp: block_def)
    then show ?thesis using s5(4) m(2) u2 that by (simp add: undisturbed_def)
  qed
  moreover have "geometry d s7 = ?w" using s7(2) s5(2) u2 by (simp add: undisturbed_def)
  moreover have "exc_state a s7 = exc_state a s" using u2 s5(2) s7(2) by (simp add: undisturbed_def)
  moreover have "WRITE_TO_DISK K a s = Some (set_v0 a READY s7)"
    unfolding WRITE_TO_DISK_def Let_def q(1-3) cyls_def [symmetric] heads_def [symmetric]
    unfolding sects_def [symmetric] using q(4) sector_in_range [OF cap] s1(1) s2(1) s5(1) s7(1) m(1)
      undisturbed_reg [OF s1(2)] undisturbed_reg [OF u2] q(1-3)
    by (simp add: nums)
  ultimately show ?thesis using p(1) s7(3) s5(3) by (intro exI [of _ "set_v0 a READY s7"] exI [of _ v]) (simp add: set_v0_saved)
qed

end
