(* ===== verification/Flash.thy ===== *)
theory Flash
  imports Disk
begin

text \<open>
  The system calls of a user process on a flash device: the transfer of a block through the buffer of the device.
  \<open>flash_answers\<close> states what a flash device does with the commands it is given; its contents are the
  extension of the state.
\<close>

abbreviation flash_reg :: "u32 \<Rightarrow> u32" where "flash_reg d \<equiv> devAddrBase FLASHINT d"
abbreviation flash_dma :: "u32 \<Rightarrow> u32" where "flash_dma d \<equiv> FLASK_DMA_BUFFER_BASE_ADDR + BLOCKSIZE * d"
abbreviation blocks :: "u32 \<Rightarrow> 'a supstate_scheme \<Rightarrow> u32" where "blocks d s \<equiv> d_data1 (devregs s (flash_reg d))"

type_synonym chips = "u32 \<Rightarrow> nat \<Rightarrow> u32"

abbreviation chip :: "chips supstate_scheme \<Rightarrow> u32 \<Rightarrow> nat \<Rightarrow> u32" where "chip \<equiv> supstate.more"

text \<open>The semaphores of the device let the caller pass, and no other process uses the device or the memory \<open>U\<close>
  while it waits. The device does what its command register says: it writes the page at \<open>d_data0\<close> to a
  block, or reads a block into that page.\<close>

definition flash_answers :: "chips supstate_scheme calls \<Rightarrow> u32 \<Rightarrow> u32 \<Rightarrow> u32 set \<Rightarrow> bool" where
  "flash_answers K d a U \<longleftrightarrow>
     (\<forall>n x s. n \<in> {PASSERN, VERHO} \<longrightarrow>
        (\<exists>r s'. K n x 0 0 s = Some (r, s') \<and> undisturbed (flash_reg d) a U s s' \<and> chip s' = chip s)) \<and>
     (\<forall>s n. d_command (devregs s (flash_reg d)) = push_bit BLOCKNUM_SHIFT n + WRITEBLK_FLASH \<and> n < blocks d s \<and> n < 0x1000000 \<longrightarrow>
        (\<exists>s' b. K IOWAIT FLASHINT d 0 s = Some (READY, s') \<and> undisturbed (flash_reg d) a U s s' \<and> chip s' = (chip s)(n := b) \<and>
           (\<forall>i<1024. b i = mem s (word_at (d_data0 (devregs s (flash_reg d))) i)))) \<and>
     (\<forall>s n. d_command (devregs s (flash_reg d)) = push_bit BLOCKNUM_SHIFT n + READBLK_FLASH \<and> n < blocks d s \<and> n < 0x1000000 \<longrightarrow>
        (\<exists>s'. K IOWAIT FLASHINT d 0 s = Some (READY, s') \<and> undisturbed (flash_reg d) a (U - block (d_data0 (devregs s (flash_reg d)))) s s' \<and>
           chip s' = chip s \<and> (\<forall>i<1024. mem s' (word_at (d_data0 (devregs s (flash_reg d))) i) = chip s n i)))"

lemma flash_answersD:
  assumes "flash_answers K d a U"
  shows "n \<in> {PASSERN, VERHO} \<Longrightarrow>
       \<exists>r s'. K n x 0 0 s = Some (r, s') \<and> undisturbed (flash_reg d) a U s s' \<and> chip s' = chip s"
    "d_command (devregs s (flash_reg d)) = push_bit BLOCKNUM_SHIFT n + WRITEBLK_FLASH \<Longrightarrow> n < blocks d s \<Longrightarrow> n < 0x1000000 \<Longrightarrow>
       \<exists>s' b. K IOWAIT FLASHINT d 0 s = Some (READY, s') \<and> undisturbed (flash_reg d) a U s s' \<and> chip s' = (chip s)(n := b) \<and>
         (\<forall>i<1024. b i = mem s (word_at (d_data0 (devregs s (flash_reg d))) i))"
    "d_command (devregs s (flash_reg d)) = push_bit BLOCKNUM_SHIFT n + READBLK_FLASH \<Longrightarrow> n < blocks d s \<Longrightarrow> n < 0x1000000 \<Longrightarrow>
       \<exists>s'. K IOWAIT FLASHINT d 0 s = Some (READY, s') \<and> undisturbed (flash_reg d) a (U - block (d_data0 (devregs s (flash_reg d)))) s s' \<and>
         chip s' = chip s \<and> (\<forall>i<1024. mem s' (word_at (d_data0 (devregs s (flash_reg d))) i) = chip s n i)"
  using assms unfolding flash_answers_def by blast+

text \<open>The caller's request: the address \<open>b\<close> of its buffer, the device \<open>d\<close> and the block \<open>n\<close>, which is not one of the
  32 that hold the pages of the process.\<close>

definition flash_request :: "u32 \<Rightarrow> u32 \<Rightarrow> u32 \<Rightarrow> u32 \<Rightarrow> u32 set \<Rightarrow> 'a supstate_scheme \<Rightarrow> bool" where
  "flash_request a b d n U s \<longleftrightarrow> exc_reg R_a1 a s = b \<and> exc_reg R_a2 a s = d \<and> exc_reg R_a3 a s = n \<and> KUSEG \<le> b \<and>
     32 \<le> n \<and> n < blocks d s \<and> n < 0x1000000 \<and> block b \<subseteq> U \<and> block (flash_dma d) \<subseteq> U \<and> block b \<inter> block (flash_dma d) = {}"

lemma flash_requestD:
  assumes "flash_request a b d n U s"
  shows "exc_reg R_a1 a s = b" "exc_reg R_a2 a s = d" "exc_reg R_a3 a s = n" "\<not> b < KUSEG" "\<not> sint n < 32" "\<not> blocks d s \<le> n"
    "n < blocks d s" "n < 0x1000000" "block b \<subseteq> U" "block (flash_dma d) \<subseteq> U" "block b \<inter> block (flash_dma d) = {}" "block (flash_dma d) \<inter> block b = {}"
proof -
  note r = assms [unfolded flash_request_def]
  show "exc_reg R_a1 a s = b" "exc_reg R_a2 a s = d" "exc_reg R_a3 a s = n" "n < blocks d s" "n < 0x1000000"
    "block b \<subseteq> U" "block (flash_dma d) \<subseteq> U" "block b \<inter> block (flash_dma d) = {}" using r by blast+
  show "\<not> b < KUSEG" "\<not> blocks d s \<le> n" using r by (simp_all add: not_less not_le)
  show "block (flash_dma d) \<inter> block b = {}" using r by blast
  have "unat n < 2147483648" "32 \<le> unat n" using r by (simp_all add: word_less_nat_alt word_le_nat_alt)
  then show "\<not> sint n < 32" unfolding sint_small [OF \<open>unat n < 2147483648\<close>] by linarith
qed

lemma READ_FROM_FLASH_spec:
  assumes K: "flash_answers K d a U" and rq: "flash_request a b d n U s"
  shows "\<exists>s'. READ_FROM_FLASH K a s = Some s' \<and> exc_state a s' = set_reg R_v0 READY (exc_state a s) \<and>
     chip s' = chip s \<and> (\<forall>i<1024. mem s' (word_at b i) = chip s n i)"
proof -
  note D = flash_answersD [OF K] and q = flash_requestD [OF rq]
  obtain r1 s1 where s1: "K PASSERN (mutex (devSemIdx FLASHINT d FALSE) s) 0 0 s = Some (r1, s1)" "undisturbed (flash_reg d) a U s s1"
      "chip s1 = chip s" using D(1) by blast
  let ?t1 = "upd_dev (flash_reg d) (d_data0_update (\<lambda>_. flash_dma d)) s1"
  let ?t2 = "upd_dev (flash_reg d) (d_command_update (\<lambda>_. push_bit BLOCKNUM_SHIFT n + READBLK_FLASH))
     (setSTATUS (getSTATUS ?t1 AND NOT IECBITON) ?t1)"
  have "n < blocks d ?t2" "d_data0 (devregs ?t2 (flash_reg d)) = flash_dma d" "chip ?t2 = chip s"
    using s1(2,3) q(7) by (simp_all add: undisturbed_def)
  then obtain s5 where s5: "K IOWAIT FLASHINT d 0 ?t2 = Some (READY, s5)" "undisturbed (flash_reg d) a (U - block (flash_dma d)) ?t2 s5"
      "chip s5 = chip s" "\<forall>i<1024. mem s5 (word_at (flash_dma d) i) = chip s n i"
    using D(3) [of ?t2 n] q(8) by auto
  let ?t5 = "setSTATUS (getSTATUS s5 OR IECBITON) s5"
  have r5: "exc_reg r a ?t5 = exc_reg r a s" for r
    using undisturbed_reg [OF s1(2), of r] undisturbed_reg [OF s5(2), of r] by simp
  obtain m where m: "helper_copy_block (flash_dma d) b ?t5 = ?t5\<lparr>mem := m\<rparr>" "\<forall>i<1024. m (word_at b i) = mem ?t5 (word_at (flash_dma d) i)"
    using copy_block [OF q(12)] by blast
  let ?t6 = "?t5\<lparr>mem := m\<rparr>"
  obtain r7 s7 where s7: "K VERHO (mutex (devSemIdx FLASHINT d FALSE) ?t6) 0 0 ?t6 = Some (r7, s7)" "undisturbed (flash_reg d) a U ?t6 s7"
    "chip s7 = chip ?t6" using D(1) by blast
  have "mem s7 (word_at b i) = chip s n i" if "i < 1024" for i
  proof -
    have "word_at b i \<in> U" using q(9) that by (auto simp: block_def)
    then show ?thesis using s7(2) m(2) s5(4) that by (simp add: undisturbed_def)
  qed
  moreover have "exc_state a s7 = exc_state a s" using s1(2) s5(2) s7(2) by (simp add: undisturbed_def)
  moreover have "READ_FROM_FLASH K a s = Some (set_v0 a READY s7)"
    unfolding READ_FROM_FLASH_def Let_def q(1-3) using q(4-6) s1(1) s5(1) s7(1) m(1) undisturbed_reg [OF s1(2)] r5 q(1-3) by simp
  ultimately show ?thesis using s7(3) s5(3) by (intro exI [of _ "set_v0 a READY s7"]) (simp add: set_v0_saved)
qed

lemma WRITE_TO_FLASH_spec:
  assumes K: "flash_answers K d a U" and rq: "flash_request a b d n U s"
  shows "\<exists>s' v. WRITE_TO_FLASH K a s = Some s' \<and> exc_state a s' = set_reg R_v0 READY (exc_state a s) \<and>
     chip s' = (chip s)(n := v) \<and> (\<forall>i<1024. v i = mem s (word_at b i))"
proof -
  note D = flash_answersD [OF K] and q = flash_requestD [OF rq]
  obtain r1 s1 where s1: "K PASSERN (mutex (devSemIdx FLASHINT d FALSE) s) 0 0 s = Some (r1, s1)" "undisturbed (flash_reg d) a U s s1"
      "chip s1 = chip s" using D(1) by blast
  obtain m where m: "helper_copy_block b (flash_dma d) s1 = s1\<lparr>mem := m\<rparr>" "\<forall>i<1024. m (word_at (flash_dma d) i) = mem s1 (word_at b i)"
    using copy_block [OF q(11)] by blast
  let ?t1 = "upd_dev (flash_reg d) (d_data0_update (\<lambda>_. flash_dma d)) (s1\<lparr>mem := m\<rparr>)"
  let ?t2 = "upd_dev (flash_reg d) (d_command_update (\<lambda>_. push_bit BLOCKNUM_SHIFT n + WRITEBLK_FLASH))
     (setSTATUS (getSTATUS ?t1 AND NOT IECBITON) ?t1)"
  have "n < blocks d ?t2" "d_data0 (devregs ?t2 (flash_reg d)) = flash_dma d" "chip ?t2 = chip s" "mem ?t2 = m"
    using s1(2,3) q(7) by (simp_all add: undisturbed_def)
  then obtain s5 v where s5: "K IOWAIT FLASHINT d 0 ?t2 = Some (READY, s5)" "undisturbed (flash_reg d) a U ?t2 s5"
      "chip s5 = (chip s)(n := v)" "\<forall>i<1024. v i = m (word_at (flash_dma d) i)"
    using D(2) [of ?t2 n] q(8) by auto
  let ?t5 = "setSTATUS (getSTATUS s5 OR IECBITON) s5"
  obtain r7 s7 where s7: "K VERHO (mutex (devSemIdx FLASHINT d FALSE) ?t5) 0 0 ?t5 = Some (r7, s7)" "undisturbed (flash_reg d) a U ?t5 s7"
    "chip s7 = chip ?t5" using D(1) by blast
  have "v i = mem s (word_at b i)" if "i < 1024" for i
  proof -
    have "word_at b i \<in> U" using q(9) that by (auto simp: block_def)
    then show ?thesis using s5(4) m(2) s1(2) that by (simp add: undisturbed_def)
  qed
  moreover have "exc_state a s7 = exc_state a s" using s1(2) s5(2) s7(2) by (simp add: undisturbed_def)
  moreover have "WRITE_TO_FLASH K a s = Some (set_v0 a READY s7)"
    unfolding WRITE_TO_FLASH_def Let_def q(1-3) using q(4-6) s1(1) s5(1) s7(1) m(1) undisturbed_reg [OF s1(2)] q(1-3) by simp
  ultimately show ?thesis using s7(3) s5(3) by (intro exI [of _ "set_v0 a READY s7"] exI [of _ v]) (simp add: set_v0_saved)
qed

end
