(* ===== verification/Chars.thy ===== *)
theory Chars
  imports Dispatch
begin

text \<open>
  The system calls on printers and terminals. The loops that send a string are the two instances of
  \<open>send_loop\<close>. What a device has printed, or what is still to be read from it, is the extension of the
  state.
\<close>

section \<open>The loops\<close>

definition print_char :: "'a supstate_scheme calls \<Rightarrow> u32 \<Rightarrow> u32 \<Rightarrow> u32 \<Rightarrow> 'a supstate_scheme \<Rightarrow> (u32 \<times> 'a supstate_scheme) option" where
  "print_char K a d i s = do {
     let s = setSTATUS (getSTATUS s AND NOT IECBITON) s;
     let s = upd_dev (devAddrBase PRNTINT d) (d_data0_update (\<lambda>_. scast (bytes s (exc_reg R_a1 a s + i)))) s;
     let s = upd_dev (devAddrBase PRNTINT d) (d_command_update (\<lambda>_. PRINTCHR)) s;
     (r, s) \<leftarrow> K IOWAIT PRNTINT d 0 s;
     Some (r, setSTATUS (getSTATUS s OR IECBITON) s)
   }"

definition transmit_char :: "'a supstate_scheme calls \<Rightarrow> u32 \<Rightarrow> u32 \<Rightarrow> u32 \<Rightarrow> 'a supstate_scheme \<Rightarrow> (u32 \<times> 'a supstate_scheme) option" where
  "transmit_char K a d i s = do {
     let s = setSTATUS (getSTATUS s AND NOT IECBITON) s;
     let s = upd_dev (devAddrBase TERMINT d) (t_transm_command_update (\<lambda>_.
         push_bit TRANS_COMMAND_SHIFT (scast (bytes s (exc_reg R_a1 a s + i))) + TRANSMIT_COMMAND)) s;
     (r, s) \<leftarrow> K IOWAIT TERMINT d FALSE s;
     Some (r, setSTATUS (getSTATUS s OR IECBITON) s)
   }"

interpretation pr: send_loop "print_char K a d" "\<lambda>r. r = READY" "exc_reg R_a2 a" "\<lambda>r. set_v0 a (- r)" "printer_loop K a d" for K a d
proof
  fix i st s
  show "printer_loop K a d i st s = (if sint i < sint (exc_reg R_a2 a s)
     then do { (r, s) \<leftarrow> print_char K a d i s; if r = READY then printer_loop K a d (i + 1) (Some r) s
       else Some (i, Some r, set_v0 a (- r) s) }
     else Some (i, st, s))"
    by (subst printer_loop.simps) (auto simp: print_char_def Let_def split: bind_split)
qed

interpretation tr: send_loop "transmit_char K a d" "\<lambda>r. r AND STATUS_CHAR_MASK = CHAR_TRANSMITTED" "exc_reg R_a2 a"
  "\<lambda>r. set_v0 a (- r)" "transmit_loop K a d" for K a d
proof
  fix i st s
  show "transmit_loop K a d i st s = (if sint i < sint (exc_reg R_a2 a s)
     then do { (r, s) \<leftarrow> transmit_char K a d i s;
       if r AND STATUS_CHAR_MASK = CHAR_TRANSMITTED then transmit_loop K a d (i + 1) (Some r) s
       else Some (i, Some r, set_v0 a (- r) s) }
     else Some (i, st, s))"
    by (subst transmit_loop.simps) (auto simp: transmit_char_def Let_def split: bind_split)
qed

section \<open>Printing\<close>

text \<open>\<open>keeps a B s s'\<close>: from \<open>s\<close> to \<open>s'\<close> the request of the caller \<open>a\<close> and the bytes of its string stay.\<close>

definition keeps :: "u32 \<Rightarrow> u32 set \<Rightarrow> 'a supstate_scheme \<Rightarrow> 'a supstate_scheme \<Rightarrow> bool" where
  "keeps a B s s' \<longleftrightarrow> sup_exceptState (supports s' a) = sup_exceptState (supports s a) \<and>
     sup_asid (supports s' a) = sup_asid (supports s a) \<and> (\<forall>x\<in>B. bytes s' x = bytes s x)"

abbreviation paper :: "8 word list supstate_scheme \<Rightarrow> 8 word list" where "paper \<equiv> supstate.more"

text \<open>P and V return and print nothing; the device prints the character it is given if and only if it
  answers with the status for success.\<close>

definition waits_ok :: "'a supstate_scheme calls \<Rightarrow> u32 \<Rightarrow> u32 set \<Rightarrow> bool" where
  "waits_ok K a B \<longleftrightarrow> (\<forall>n x s. n \<in> {PASSERN, VERHO} \<longrightarrow>
     (\<exists>r s'. K n x 0 0 s = Some (r, s') \<and> keeps a B s s' \<and> supstate.more s' = supstate.more s))"

definition prints :: "8 word list supstate_scheme calls \<Rightarrow> u32 \<Rightarrow> u32 \<Rightarrow> u32 set \<Rightarrow> bool" where
  "prints K d a B \<longleftrightarrow> (\<forall>s. d_command (devregs s (devAddrBase PRNTINT d)) = PRINTCHR \<longrightarrow>
     (\<exists>r s'. K IOWAIT PRNTINT d 0 s = Some (r, s') \<and> keeps a B s s' \<and>
        paper s' = paper s @ (if r = READY then [ucast (d_data0 (devregs s (devAddrBase PRNTINT d)))] else [])))"

definition transmits :: "8 word list supstate_scheme calls \<Rightarrow> u32 \<Rightarrow> u32 \<Rightarrow> u32 set \<Rightarrow> bool" where
  "transmits K d a B \<longleftrightarrow> (\<forall>s w. d_data1 (devregs s (devAddrBase TERMINT d)) = push_bit 8 w + TRANSMIT_COMMAND \<longrightarrow>
     (\<exists>r s'. K IOWAIT TERMINT d FALSE s = Some (r, s') \<and> keeps a B s s' \<and>
        paper s' = paper s @ (if r AND STATUS_CHAR_MASK = CHAR_TRANSMITTED then [ucast w] else [])))"

lemma keeps_trans: "keeps a B s s' \<Longrightarrow> keeps a B s' s'' \<Longrightarrow> keeps a B s s''"
  by (simp add: keeps_def)

lemma keeps_assign [simp]:
  "keeps a B s (setSTATUS v t) = keeps a B s t" "keeps a B (setSTATUS v s) t = keeps a B s t"
  "keeps a B s (upd_dev r f t) = keeps a B s t" "keeps a B (upd_dev r f s) t = keeps a B s t" "keeps a B s s"
  by (simp_all add: keeps_def setSTATUS_def upd_dev_def)

lemma char_back: "ucast (scast (c :: 8 word) :: u32) = c"
  by (rule bit_word_eqI) (auto simp: bit_simps)

text \<open>The string that the caller \<open>a\<close> asks to be sent: \<open>n\<close> bytes from \<open>b\<close> on.\<close>

definition string_bytes :: "u32 \<Rightarrow> nat \<Rightarrow> u32 set" where
  "string_bytes b n = (\<lambda>i. b + of_nat i) ` {..<n}"

definition text_at :: "'a supstate_scheme \<Rightarrow> u32 \<Rightarrow> nat \<Rightarrow> 8 word list" where
  "text_at s b k = map (\<lambda>i. bytes s (b + of_nat i)) [0..<k]"

definition string_request :: "u32 \<Rightarrow> u32 \<Rightarrow> nat \<Rightarrow> 'a supstate_scheme \<Rightarrow> bool" where
  "string_request a b n s \<longleftrightarrow> exc_reg R_a1 a s = b \<and> exc_reg R_a2 a s = of_nat n \<and> 0 < n \<and> n \<le> 128 \<and>
     helper_check_string_outside_addr_space b = FALSE"

text \<open>After \<open>k\<close> characters.\<close>

definition sent :: "u32 \<Rightarrow> nat \<Rightarrow> 8 word list supstate_scheme \<Rightarrow> nat \<Rightarrow> 8 word list supstate_scheme \<Rightarrow> bool" where
  "sent a n s0 k s \<longleftrightarrow> keeps a (string_bytes (exc_reg R_a1 a s0) n) s0 s \<and> paper s = paper s0 @ text_at s0 (exc_reg R_a1 a s0) k"

lemma sent_reg: "sent a n s0 k s \<Longrightarrow> exc_reg r a s = exc_reg r a s0"
  by (simp add: sent_def keeps_def)

lemma sent_byte: "sent a n s0 k s \<Longrightarrow> k < n \<Longrightarrow> bytes s (exc_reg R_a1 a s0 + of_nat k) = bytes s0 (exc_reg R_a1 a s0 + of_nat k)"
  by (simp add: sent_def keeps_def string_bytes_def)

lemma sent_next:
  "sent a n s0 k s \<Longrightarrow> keeps a (string_bytes (exc_reg R_a1 a s0) n) s s' \<Longrightarrow>
   paper s' = paper s @ (if g then [bytes s0 (exc_reg R_a1 a s0 + of_nat k)] else []) \<Longrightarrow>
   if g then sent a n s0 (Suc k) s' else sent a n s0 k s'"
  using keeps_trans by (auto simp: sent_def text_at_def)
lemma sent_0: "sent a n s 0 s"
  by (simp add: sent_def text_at_def)

lemma paper_assign [simp]:
  "supstate.more (setSTATUS v t) = supstate.more t" "supstate.more (upd_dev r f t) = supstate.more t"
  "supstate.more (set_v0 a v t) = supstate.more t"
  "bytes (setSTATUS v t) = bytes t" "bytes (upd_dev r f t) = bytes t"
  "supports (setSTATUS v t) = supports t" "supports (upd_dev r f t) = supports t"
  "devregs (upd_dev r f t) r = f (devregs t r)"
  by (simp_all add: setSTATUS_def upd_dev_def set_v0_def upd_support_def)

lemma set_reg_twice: "set_reg r v (set_reg r w st) = set_reg r v st"
  by (simp add: set_reg_def)

lemma v0_set: "exc_reg R_v0 a (set_v0 a v s) = v"
  by (simp add: set_v0_def upd_support_def set_reg_def)

lemma print_step:
  assumes K: "prints K d a (string_bytes (exc_reg R_a1 a s0) n)" and s: "sent a n s0 k s" "k < n"
  shows "\<exists>r s'. print_char K a d (of_nat k) s = Some (r, s') \<and> (if r = READY then sent a n s0 (Suc k) s' else sent a n s0 k s')"
proof -
  let ?p = "devAddrBase PRNTINT d"
  let ?c = "bytes s0 (exc_reg R_a1 a s0 + of_nat k)"
  let ?t = "upd_dev ?p (d_command_update (\<lambda>_. PRINTCHR)) (upd_dev ?p (d_data0_update (\<lambda>_. scast ?c)) (setSTATUS (getSTATUS s AND NOT IECBITON) s))"
  have "d_command (devregs ?t ?p) = PRINTCHR" by simp
  then obtain r s' where s': "K IOWAIT PRNTINT d 0 ?t = Some (r, s')" "keeps a (string_bytes (exc_reg R_a1 a s0) n) ?t s'"
      "paper s' = paper ?t @ (if r = READY then [ucast (d_data0 (devregs ?t ?p))] else [])"
    using K unfolding prints_def by blast
  have "print_char K a d (of_nat k) s = Some (r, setSTATUS (getSTATUS s' OR IECBITON) s')"
    using s'(1) sent_byte [OF s] sent_reg [OF s(1)] by (simp add: print_char_def)
  then show ?thesis using sent_next [OF s(1), of "setSTATUS (getSTATUS s' OR IECBITON) s'" "r = READY"] s'(2,3)
    by (simp add: char_back)
qed

lemma transmit_step:
  assumes K: "transmits K d a (string_bytes (exc_reg R_a1 a s0) n)" and s: "sent a n s0 k s" "k < n"
  shows "\<exists>r s'. transmit_char K a d (of_nat k) s = Some (r, s') \<and>
    (if r AND STATUS_CHAR_MASK = CHAR_TRANSMITTED then sent a n s0 (Suc k) s' else sent a n s0 k s')"
proof -
  let ?p = "devAddrBase TERMINT d"
  let ?c = "bytes s0 (exc_reg R_a1 a s0 + of_nat k)"
  let ?t = "upd_dev ?p (t_transm_command_update (\<lambda>_. push_bit 8 (scast ?c) + TRANSMIT_COMMAND)) (setSTATUS (getSTATUS s AND NOT IECBITON) s)"
  have "d_data1 (devregs ?t ?p) = push_bit 8 (scast ?c) + TRANSMIT_COMMAND" by simp
  then obtain r s' where s': "K IOWAIT TERMINT d FALSE ?t = Some (r, s')" "keeps a (string_bytes (exc_reg R_a1 a s0) n) ?t s'"
      "paper s' = paper ?t @ (if r AND STATUS_CHAR_MASK = CHAR_TRANSMITTED then [ucast (scast ?c :: u32)] else [])"
    using K unfolding transmits_def by blast
  have "transmit_char K a d (of_nat k) s = Some (r, setSTATUS (getSTATUS s' OR IECBITON) s')"
    using s'(1) sent_byte [OF s] sent_reg [OF s(1)] by (simp add: transmit_char_def TRANS_COMMAND_SHIFT_def)
  then show ?thesis using sent_next [OF s(1), of "setSTATUS (getSTATUS s' OR IECBITON) s'" "r AND STATUS_CHAR_MASK = CHAR_TRANSMITTED"] s'(2,3)
    by (simp add: char_back)
qed

lemma request_passes:
  assumes "string_request a b n s"
  shows "\<not> (helper_check_string_outside_addr_space (exc_reg R_a1 a s) \<noteq> 0 \<or>
             sint (exc_reg R_a2 a s) < sint STR_MIN \<or> sint (exc_reg R_a2 a s) > sint STR_MAX)"
proof -
  have r: "exc_reg R_a1 a s = b" "exc_reg R_a2 a s = of_nat n" "n \<le> 128" "helper_check_string_outside_addr_space b = FALSE"
    using assms by (simp_all add: string_request_def)
  have "sint (of_nat n :: u32) = int n" using sint_small [of "of_nat n"] r(3) by (simp add: unat_of_nat)
  then show ?thesis using r by (simp add: STR_MIN_def STR_MAX_def FALSE_def)
qed

text \<open>\<open>outcome g s j v\<close>: the first \<open>j\<close> of \<open>n\<close> characters were sent, and \<open>v\<close> is what the caller finds in \<open>v0\<close>.\<close>

definition outcome :: "(u32 \<Rightarrow> bool) \<Rightarrow> nat \<Rightarrow> nat \<Rightarrow> u32 \<Rightarrow> bool" where
  "outcome good n j v \<longleftrightarrow> (if j = n then v = of_nat n else j < n \<and> (\<exists>r. \<not> good r \<and> v = - r))"

text \<open>The two calls differ in the device, its status for success and its loop only.\<close>

definition send_string ::
    "'a supstate_scheme calls \<Rightarrow> u32 \<Rightarrow> (u32 \<Rightarrow> bool) \<Rightarrow>
     (u32 \<Rightarrow> u32 \<Rightarrow> u32 option \<Rightarrow> 'a supstate_scheme \<Rightarrow> (u32 \<times> u32 option \<times> 'a supstate_scheme) option) \<Rightarrow>
     u32 \<Rightarrow> 'a supstate_scheme \<Rightarrow> 'a supstate_scheme option" where
  "send_string K line good loop sp s = do {
     let devNo = sup_asid (supports s sp) - 1;
     s \<leftarrow> (if helper_check_string_outside_addr_space (exc_reg R_a1 sp s) \<noteq> 0 \<or>
             sint (exc_reg R_a2 sp s) < sint STR_MIN \<or> sint (exc_reg R_a2 sp s) > sint STR_MAX
           then program_trap_handler K sp NULL s else Some s);
     let mutexSemIdx = devSemIdx line devNo FALSE;
     (_, s) \<leftarrow> K PASSERN (mutex mutexSemIdx s) 0 0 s;
     (i, st, s) \<leftarrow> loop devNo 0 None s;
     st \<leftarrow> st;
     let s = (if good st then set_v0 sp i s else set_v0 sp (- st) s);
     (_, s) \<leftarrow> K VERHO (mutex mutexSemIdx s) 0 0 s;
     Some s
   }"

lemma send_strings:
  "WRITE_TO_PRINTER K a s = send_string K PRNTINT (\<lambda>r. r = READY) (printer_loop K a) a s"
  "WRITE_TO_TERMINAL K a s = send_string K TERMINT (\<lambda>r. r AND STATUS_CHAR_MASK = CHAR_TRANSMITTED) (transmit_loop K a) a s"
  by (simp_all add: WRITE_TO_PRINTER_def WRITE_TO_TERMINAL_def send_string_def)

lemma send_string_spec:
  assumes W: "waits_ok K a (string_bytes b n)" and rq: "string_request a b n s" "sup_asid (supports s a) = d + 1"
    and L: "\<And>s1. sent a n s1 0 s1 \<Longrightarrow> exc_reg R_a1 a s1 = b \<Longrightarrow> exc_reg R_a2 a s1 = of_nat n \<Longrightarrow> \<exists>j st s2. 0 \<le> j \<and> j \<le> n \<and>
       (if j = n then good st \<and> sent a n s1 n s2 \<and> loop d (of_nat 0) None s1 = Some (of_nat n, Some st, s2)
        else \<not> good st \<and> sent a n s1 j s2 \<and> loop d (of_nat 0) None s1 = Some (of_nat j, Some st, set_v0 a (- st) s2))"
  shows "\<exists>s' j v. send_string K line good loop a s = Some s' \<and> paper s' = paper s @ text_at s b j \<and>
     exc_state a s' = set_reg R_v0 v (exc_state a s) \<and> outcome good n j v"
proof -
  have r: "exc_reg R_a1 a s = b" "exc_reg R_a2 a s = of_nat n" "n \<le> 128" using rq(1) by (simp_all add: string_request_def)
  let ?m = "mutex (devSemIdx line d FALSE)"
  obtain r1 s1 where s1: "K PASSERN (?m s) 0 0 s = Some (r1, s1)" "keeps a (string_bytes b n) s s1" "paper s1 = paper s"
    using W unfolding waits_ok_def by blast
  have r1: "exc_reg R_a1 a s1 = b" "exc_reg R_a2 a s1 = of_nat n" using s1(2) r(1,2) by (simp_all add: keeps_def)
  have t1: "text_at s1 b j = text_at s b j" if "j \<le> n" for j
    using s1(2) that by (auto simp: keeps_def text_at_def string_bytes_def)
  from L [OF sent_0 r1] obtain j st s2 where j: "j \<le> n" and
    l: "if j = n then good st \<and> sent a n s1 n s2 \<and> loop d (of_nat 0) None s1 = Some (of_nat n, Some st, s2)
      else \<not> good st \<and> sent a n s1 j s2 \<and> loop d (of_nat 0) None s1 = Some (of_nat j, Some st, set_v0 a (- st) s2)" by blast
  let ?s3 = "if j = n then set_v0 a (of_nat n) s2 else set_v0 a (- st) (set_v0 a (- st) s2)"
  obtain r4 s4 where s4: "K VERHO (?m ?s3) 0 0 ?s3 = Some (r4, s4)" "keeps a (string_bytes b n) ?s3 s4" "paper s4 = paper ?s3"
    using W unfolding waits_ok_def by blast
  have "send_string K line good loop a s = Some s4"
    using request_passes [OF rq(1)] rq(2) s1(1) l s4(1) by (auto simp: send_string_def Let_def split: if_splits)
  moreover have "paper s4 = paper s @ text_at s b j"
    using s4(3) l s1(3) r1(1) t1 [OF j] by (auto simp: sent_def split: if_splits)
  moreover have "exc_state a s4 = set_reg R_v0 (if j = n then of_nat n else - st) (exc_state a s)"
  proof -
    have "exc_state a s2 = exc_state a s" using l s1(2) by (auto simp: sent_def keeps_def split: if_splits)
    then show ?thesis using s4(2) by (simp add: keeps_def set_v0_saved set_reg_twice)
  qed
  moreover have "outcome good n j (if j = n then of_nat n else - st)" using j l by (auto simp: outcome_def split: if_splits)
  ultimately show ?thesis by blast
qed

lemma WRITE_TO_PRINTER_spec:
  assumes W: "waits_ok K a (string_bytes b n)" and K: "prints K d a (string_bytes b n)"
    and rq: "string_request a b n s" "sup_asid (supports s a) = d + 1"
  shows "\<exists>s' j v. WRITE_TO_PRINTER K a s = Some s' \<and> paper s' = paper s @ text_at s b j \<and>
     exc_state a s' = set_reg R_v0 v (exc_state a s) \<and> outcome (\<lambda>r. r = READY) n j v"
  unfolding send_strings
proof (rule send_string_spec [OF W rq])
  fix s1 assume s1: "sent a n s1 0 s1" "exc_reg R_a1 a s1 = b" "exc_reg R_a2 a s1 = of_nat n"
  have n: "0 < n" "n < 2147483648" using rq(1) by (simp_all add: string_request_def)
  have "prints K d a (string_bytes (exc_reg R_a1 a s1) n)" using K s1(2) by simp
  from print_step [OF this] have step: "\<And>k s. sent a n s1 k s \<Longrightarrow> k < n \<Longrightarrow> \<exists>r s'. print_char K a d (of_nat k) s = Some (r, s') \<and>
      (if r = READY then sent a n s1 (Suc k) s' else sent a n s1 k s')" .
  have len: "\<And>k s. sent a n s1 k s \<Longrightarrow> exc_reg R_a2 a s = of_nat n" using sent_reg s1(3) by simp
  have z: "0 = n \<longrightarrow> (\<exists>r. None = Some r \<and> r = READY)" using n(1) by simp
  show "\<exists>j st s2. 0 \<le> j \<and> j \<le> n \<and>
       (if j = n then st = READY \<and> sent a n s1 n s2 \<and> printer_loop K a d (of_nat 0) None s1 = Some (of_nat n, Some st, s2)
        else st \<noteq> READY \<and> sent a n s1 j s2 \<and> printer_loop K a d (of_nat 0) None s1 = Some (of_nat j, Some st, set_v0 a (- st) s2))"
    by (rule pr.loop_ends [where I = "sent a n s1"]) (fact step len n s1(1) le0 z)+
qed

lemma WRITE_TO_TERMINAL_spec:
  assumes W: "waits_ok K a (string_bytes b n)" and K: "transmits K d a (string_bytes b n)"
    and rq: "string_request a b n s" "sup_asid (supports s a) = d + 1"
  shows "\<exists>s' j v. WRITE_TO_TERMINAL K a s = Some s' \<and> paper s' = paper s @ text_at s b j \<and>
     exc_state a s' = set_reg R_v0 v (exc_state a s) \<and> outcome (\<lambda>r. r AND STATUS_CHAR_MASK = CHAR_TRANSMITTED) n j v"
  unfolding send_strings
proof (rule send_string_spec [OF W rq])
  fix s1 assume s1: "sent a n s1 0 s1" "exc_reg R_a1 a s1 = b" "exc_reg R_a2 a s1 = of_nat n"
  have n: "0 < n" "n < 2147483648" using rq(1) by (simp_all add: string_request_def)
  have "transmits K d a (string_bytes (exc_reg R_a1 a s1) n)" using K s1(2) by simp
  from transmit_step [OF this] have step: "\<And>k s. sent a n s1 k s \<Longrightarrow> k < n \<Longrightarrow> \<exists>r s'. transmit_char K a d (of_nat k) s = Some (r, s') \<and>
      (if r AND STATUS_CHAR_MASK = CHAR_TRANSMITTED then sent a n s1 (Suc k) s' else sent a n s1 k s')" .
  have len: "\<And>k s. sent a n s1 k s \<Longrightarrow> exc_reg R_a2 a s = of_nat n" using sent_reg s1(3) by simp
  have z: "0 = n \<longrightarrow> (\<exists>r. None = Some r \<and> r AND STATUS_CHAR_MASK = CHAR_TRANSMITTED)" using n(1) by simp
  show "\<exists>j st s2. 0 \<le> j \<and> j \<le> n \<and>
       (if j = n then st AND STATUS_CHAR_MASK = CHAR_TRANSMITTED \<and> sent a n s1 n s2 \<and> transmit_loop K a d (of_nat 0) None s1 = Some (of_nat n, Some st, s2)
        else st AND STATUS_CHAR_MASK \<noteq> CHAR_TRANSMITTED \<and> sent a n s1 j s2 \<and>
          transmit_loop K a d (of_nat 0) None s1 = Some (of_nat j, Some st, set_v0 a (- st) s2))"
    by (rule tr.loop_ends [where I = "sent a n s1"]) (fact step len n s1(1) le0 z)+
qed
section \<open>Reading\<close>

text \<open>The characters that are still to come from the terminal. With one to come the device answers with it.\<close>

abbreviation pending :: "8 word list supstate_scheme \<Rightarrow> 8 word list" where "pending \<equiv> supstate.more"

definition receives :: "8 word list supstate_scheme calls \<Rightarrow> u32 \<Rightarrow> u32 \<Rightarrow> u32 set \<Rightarrow> bool" where
  "receives K d a B \<longleftrightarrow> (\<forall>s c cs. d_command (devregs s (devAddrBase TERMINT d)) = RECEIVE_COMMAND \<and> pending s = c # cs \<longrightarrow>
     (\<exists>r s'. K IOWAIT TERMINT d TRUE s = Some (r, s') \<and> keeps a B s s' \<and> pending s' = cs \<and>
        r AND STATUS_CHAR_MASK = CHAR_RECIEVED \<and> ucast (drop_bit RECEIVE_COMMAND_SHIFT (r AND RECEIVE_CHAR_MASK)) = c))"

lemma newline: "(scast (c :: 8 word) :: u32) = NEW_LINE \<longleftrightarrow> c = 10"
proof
  assume "(scast c :: u32) = NEW_LINE"
  then have "(ucast (scast c :: u32) :: 8 word) = ucast NEW_LINE" by simp
  then show "c = 10" by (simp add: char_back NEW_LINE_def)
qed (simp add: NEW_LINE_def)

lemma string_addr_inj: "i < 4294967296 \<Longrightarrow> j < 4294967296 \<Longrightarrow> (b :: u32) + of_nat i = b + of_nat j \<longleftrightarrow> i = j"
proof -
  assume "i < 4294967296" "j < 4294967296"
  then have "unat (of_nat i :: u32) = i" "unat (of_nat j :: u32) = j" by (simp_all add: unat_of_nat)
  then show ?thesis by (metis add_left_cancel)
qed

lemma text_at_keeps: "keeps a (string_bytes b n) s s' \<Longrightarrow> k \<le> n \<Longrightarrow> text_at s' b k = text_at s b k"
  by (auto simp: keeps_def text_at_def string_bytes_def)

lemma text_at_store:
  assumes "k < 4294967296"
  shows "text_at (s\<lparr>bytes := (bytes s)(b + of_nat k := c)\<rparr>) b (Suc k) = text_at s b k @ [c]"
proof -
  have "b + of_nat i \<noteq> b + of_nat k" if "i < k" for i using string_addr_inj [of i k b] that assms by simp
  then show ?thesis by (simp add: text_at_def)
qed

text \<open>One round of the loop.\<close>

lemma receive_step:
  assumes K: "receives K d a (string_bytes b n)" and n: "n < 4294967296"
    and p: "pending s = c # cs" and c0: "c0 \<noteq> 10" and i: "i < n"
  shows "\<exists>s'. receive_loop K a d b (of_nat i) c0 st s = receive_loop K a d b (of_nat (Suc i)) c (Some CHAR_RECIEVED) s' \<and> pending s' = cs \<and>
      sup_exceptState (supports s' a) = sup_exceptState (supports s a) \<and> text_at s' b (Suc i) = text_at s b i @ [c]"
proof -
  let ?p = "devAddrBase TERMINT d"
  let ?t = "upd_dev ?p (t_recv_command_update (\<lambda>_. RECEIVE_COMMAND)) (setSTATUS (getSTATUS s AND NOT IECBITON) s)"
  have "d_command (devregs ?t ?p) = RECEIVE_COMMAND" "pending ?t = c # cs" using p by simp_all
  then obtain r s1 where s1: "K IOWAIT TERMINT d TRUE ?t = Some (r, s1)" "keeps a (string_bytes b n) ?t s1" "pending s1 = cs"
      "r AND STATUS_CHAR_MASK = CHAR_RECIEVED" "ucast (drop_bit RECEIVE_COMMAND_SHIFT (r AND RECEIVE_CHAR_MASK)) = c"
    using K unfolding receives_def by blast
  let ?s1 = "setSTATUS (getSTATUS s1 OR IECBITON) s1"
  let ?s2 = "?s1\<lparr>bytes := (bytes ?s1)(b + of_nat i := c)\<rparr>"
  have "receive_loop K a d b (of_nat i) c0 st s = receive_loop K a d b (of_nat (Suc i)) c (Some CHAR_RECIEVED) ?s2"
    using c0 s1(1,4,5) newline [of c0] by (subst receive_loop.simps) (simp add: Let_def add.commute)
  moreover have "pending ?s2 = cs" using s1(3) by simp
  moreover have "sup_exceptState (supports ?s2 a) = sup_exceptState (supports s a)" using s1(2) by (simp add: keeps_def)
  moreover have "keeps a (string_bytes b n) s ?s1" using s1(2) by simp
  then have "text_at ?s1 b i = text_at s b i" using text_at_keeps i by (metis less_imp_le)
  then have "text_at ?s2 b (Suc i) = text_at s b i @ [c]" using text_at_store [of i ?s1 b c] i n by simp
  ultimately show ?thesis by blast
qed

lemma receive_line:
  assumes K: "receives K d a (string_bytes b n)" and n: "n < 4294967296"
  shows "pending s = line @ 10 # rest \<Longrightarrow> 10 \<notin> set line \<Longrightarrow> c0 \<noteq> 10 \<Longrightarrow> i + length line < n \<Longrightarrow>
    \<exists>s'. receive_loop K a d b (of_nat i) c0 st s = Some (of_nat (i + length line + 1), Some CHAR_RECIEVED, s') \<and> pending s' = rest \<and>
      sup_exceptState (supports s' a) = sup_exceptState (supports s a) \<and> text_at s' b (i + length line + 1) = text_at s b i @ line @ [10]"
proof (induction line arbitrary: s i c0 st)
  case Nil
  then obtain s' where s': "receive_loop K a d b (of_nat i) c0 st s = receive_loop K a d b (of_nat (Suc i)) 10 (Some CHAR_RECIEVED) s'"
      "pending s' = rest" "sup_exceptState (supports s' a) = sup_exceptState (supports s a)" "text_at s' b (Suc i) = text_at s b i @ [10]"
    using receive_step [OF K n, of s 10 rest c0 i st] by auto
  have "receive_loop K a d b (of_nat (Suc i)) 10 (Some CHAR_RECIEVED) s' = Some (of_nat (Suc i), Some CHAR_RECIEVED, s')"
    using newline [of 10] by (subst receive_loop.simps) simp
  with s' show ?case by simp
next
  case (Cons c line)
  then obtain s1 where s1: "receive_loop K a d b (of_nat i) c0 st s = receive_loop K a d b (of_nat (Suc i)) c (Some CHAR_RECIEVED) s1"
      "pending s1 = line @ 10 # rest" "sup_exceptState (supports s1 a) = sup_exceptState (supports s a)" "text_at s1 b (Suc i) = text_at s b i @ [c]"
    using receive_step [OF K n, of s c "line @ 10 # rest" c0 i st] by auto
  have "c \<noteq> 10" "10 \<notin> set line" "Suc i + length line < n" using Cons.prems by auto
  from Cons.IH [OF s1(2) this(2,1,3)] show ?case using s1 by auto
qed

lemma READ_FROM_TERMINAL_spec:
  assumes W: "waits_ok K a (string_bytes b n)" and K: "receives K d a (string_bytes b n)"
    and rq: "exc_reg R_a1 a s = b" "helper_check_string_outside_addr_space b = FALSE" "0 \<le> sint (exc_reg R_a2 a s)"
      "sint (exc_reg R_a2 a s) \<le> 128" "sup_asid (supports s a) = d + 1"
    and p: "pending s = line @ 10 # rest" "10 \<notin> set line" "length line < n" "n < 4294967296"
  shows "\<exists>s'. READ_FROM_TERMINAL K a s = Some s' \<and> pending s' = rest \<and>
     text_at s' b (length line + 1) = line @ [10] \<and> exc_state a s' = set_reg R_v0 (of_nat (length line + 1)) (exc_state a s)"
proof -
  let ?m = "mutex (devSemIdx TERMINT d TRUE)"
  have ok: "\<not> (helper_check_string_outside_addr_space (exc_reg R_a1 a s) \<noteq> 0 \<or>
      sint (exc_reg R_a2 a s) < sint STR_MIN \<or> sint (exc_reg R_a2 a s) > sint STR_MAX)"
    using rq by (simp add: STR_MIN_def STR_MAX_def FALSE_def)
  obtain r1 s1 where s1: "K PASSERN (?m s) 0 0 s = Some (r1, s1)" "keeps a (string_bytes b n) s s1" "pending s1 = pending s"
    using W unfolding waits_ok_def by blast
  obtain s2 where s2: "receive_loop K a d b (of_nat 0) 97 None s1 = Some (of_nat (0 + length line + 1), Some CHAR_RECIEVED, s2)" "pending s2 = rest"
      "text_at s2 b (length line + 1) = line @ [10]" "sup_exceptState (supports s2 a) = sup_exceptState (supports s1 a)"
    using receive_line [OF K p(4), of s1 line rest 97 0 None] s1(3) p(1-3) by (auto simp: text_at_def)
  let ?s3 = "set_v0 a (of_nat (length line + 1)) s2"
  obtain r4 s4 where s4: "K VERHO (?m ?s3) 0 0 ?s3 = Some (r4, s4)" "keeps a (string_bytes b n) ?s3 s4" "pending s4 = pending ?s3"
    using W unfolding waits_ok_def by blast
  have "READ_FROM_TERMINAL K a s = Some s4"
    using ok rq(1,5) s1(1,2) s2(1) s4(1) by (simp add: READ_FROM_TERMINAL_def Let_def keeps_def add.commute)
  moreover have "text_at s4 b (length line + 1) = line @ [10]"
  proof -
    have "bytes ?s3 = bytes s2" by (simp add: set_v0_def upd_support_def)
    then have "text_at ?s3 b (length line + 1) = line @ [10]" using s2(3) by (simp only: text_at_def)
    then show ?thesis using text_at_keeps [OF s4(2), of "length line + 1"] p(3) by simp
  qed
  moreover have "exc_state a s4 = set_reg R_v0 (of_nat (length line + 1)) (exc_state a s)"
    using s4(2) s2(4) s1(2) by (simp add: keeps_def set_v0_saved)
  ultimately show ?thesis using s4(3) s2(2) by (intro exI [of _ s4]) simp
qed

end
