(* ===== verification/Props_IO.thy ===== *)
theory Props_IO
  imports Props_Support Flash Chars
begin

text \<open>
  Properties of the system calls on devices: blocks of a disk, and strings on printers and terminals.
\<close>

section \<open>A disk\<close>

text \<open>Disk 1, as a function that decodes its command register.\<close>

definition sector_of :: "u32 \<Rightarrow> u32 \<Rightarrow> u32 \<times> u32 \<times> u32" where
  "sector_of c w = (c, drop_bit 16 w, drop_bit 8 w AND 0xFF)"

definition disk1 :: "platters supstate_scheme calls" where
  "disk1 n x b c s =
     (let w = d_command (devregs s (disk_reg 1)); p = d_data0 (devregs s (disk_reg 1)); k = sector_of (at_cyl s) w
      in if n = SUPPORTGET then Some (0x20021000, s)
         else if n \<noteq> IOWAIT then Some (READY, s)
         else if w AND 0xFF = SEEKCYL then Some (READY, supstate.more_update (\<lambda>_. (drop_bit 8 w, stored s)) s)
         else if w AND 0xFF = WRITEBLK_DSK
         then Some (READY, supstate.more_update (\<lambda>_. (at_cyl s, (stored s)(k := (\<lambda>i. mem s (word_at p i))))) s)
         else Some (READY, s\<lparr>mem := (\<lambda>x. if x \<in> block p then stored s k (unat (x - p) div 4) else mem s x)\<rparr>))"

lemma byte_mask: "(w AND 0xFF) = v \<longleftrightarrow> unat (w :: u32) mod 256 = unat v" if "unat v < 256"
proof -
  have "unat (w AND 0xFF) = unat w mod 256"
  proof -
    have m: "(0xFF :: u32) = mask 8" by (simp add: mask_eq_exp_minus_1)
    show ?thesis unfolding m take_bit_eq_mask [symmetric] unsigned_take_bit_eq by (simp add: take_bit_eq_mod)
  qed
  then show ?thesis by (simp add: word_unat_eq_iff)
qed

lemma unat_drop_bit: "unat (drop_bit n (w :: u32)) = unat w div 2 ^ n"
proof -
  have "take_bit 32 (unat w) = unat w" by (rule take_bit_nat_eq_self) (use unsigned_less [of w] in simp)
  then show ?thesis unfolding unsigned_drop_bit_eq by (simp add: drop_bit_eq_div)
qed

lemma decode_seek:
  assumes "unat c < 0x10000"
  shows "(push_bit CYLNUM_SHIFT c + SEEKCYL) AND 0xFF = SEEKCYL" "drop_bit 8 (push_bit CYLNUM_SHIFT c + SEEKCYL) = c"
proof -
  have u: "unat (push_bit CYLNUM_SHIFT c + SEEKCYL) = unat c * 256 + 2"
    using assms by (simp add: CYLNUM_SHIFT_def SEEKCYL_def push_bit_eq_mult unat_word_ariths)
  show "(push_bit CYLNUM_SHIFT c + SEEKCYL) AND 0xFF = SEEKCYL"
    using byte_mask [of SEEKCYL] u by (simp add: SEEKCYL_def) presburger
  show "drop_bit 8 (push_bit CYLNUM_SHIFT c + SEEKCYL) = c"
    by (simp add: word_unat_eq_iff unat_drop_bit u)
qed

lemma decode_transfer:
  assumes "unat h < 0x100" "unat e < 0x100" "unat v < 0x100"
  defines "w \<equiv> push_bit HEADNUM_SHIFT h + push_bit SECTNUM_SHIFT e + v"
  shows "w AND 0xFF = v" "sector_of c w = (c, h, e)"
proof -
  have u: "unat w = unat h * 65536 + unat e * 256 + unat v"
    using assms(1-3) by (simp add: w_def HEADNUM_SHIFT_def SECTNUM_SHIFT_def push_bit_eq_mult unat_word_ariths)
  have "unat h * 65536 + unat e * 256 + unat v = unat v + 256 * (256 * unat h + unat e)" by simp
  then have "(unat h * 65536 + unat e * 256 + unat v) mod 256 = unat v" using assms(3) by (simp only: mod_mult_self2) simp
  then show "w AND 0xFF = v" using assms(3) by (simp add: byte_mask u)
  have "drop_bit 16 w = h" using assms(2,3) by (simp add: word_unat_eq_iff unat_drop_bit u)
  moreover have "drop_bit 8 w AND 0xFF = e"
  proof -
    have "unat h * 65536 + unat e * 256 + unat v = unat v + 256 * (unat e + 256 * unat h)" by simp
    then have "(unat h * 65536 + unat e * 256 + unat v) div 256 = unat e + 256 * unat h"
      using assms(3) by simp
    then show ?thesis using assms(2) by (simp add: byte_mask unat_drop_bit u)
  qed
  ultimately show "sector_of c w = (c, h, e)" by (simp add: sector_of_def)
qed
lemma opcodes: "SEEKCYL \<noteq> WRITEBLK_DSK" "READBLK_DSK \<noteq> WRITEBLK_DSK" "READBLK_DSK \<noteq> SEEKCYL" "WRITEBLK_DSK \<noteq> SEEKCYL"
  "unat WRITEBLK_DSK < 0x100" "unat READBLK_DSK < 0x100" "IOWAIT \<noteq> PASSERN" "IOWAIT \<noteq> VERHO" "IOWAIT \<noteq> SUPPORTGET" "PASSERN \<noteq> SUPPORTGET" "VERHO \<noteq> SUPPORTGET"
  by (simp_all add: SEEKCYL_def WRITEBLK_DSK_def READBLK_DSK_def IOWAIT_def PASSERN_def VERHO_def SUPPORTGET_def)

lemma word_index: "i < 1024 \<Longrightarrow> unat (word_at b i - b) div 4 = i"
  by (simp add: word_at_def unat_word_ariths unat_of_nat)

lemma disk1_ok: "disk_answers disk1 1 a U"
proof -
  have less: "x < cyls w \<Longrightarrow> unat x < 0x10000" "x < heads w \<Longrightarrow> unat x < 0x100" "x < sects w \<Longrightarrow> unat x < 0x100" for x w
    using dims [of w] by (simp_all add: word_less_nat_alt)
  have 1: "\<exists>r s'. disk1 n x 0 0 s = Some (r, s') \<and> undisturbed (disk_reg 1) a U s s' \<and> supstate.more s' = supstate.more s"
    if "n \<in> {PASSERN, VERHO}" for n x s
    using that opcodes(7-11) by (intro exI [of _ READY] exI [of _ s]) (auto simp: disk1_def undisturbed_def)
  have 2: "\<exists>s'. disk1 IOWAIT DISKINT 1 0 s = Some (READY, s') \<and> undisturbed (disk_reg 1) a U s s' \<and> supstate.more s' = (c, stored s)"
    if "d_command (devregs s (disk_reg 1)) = push_bit CYLNUM_SHIFT c + SEEKCYL" "c < cyls (geometry 1 s)" for s c
    using that decode_seek [OF less(1) [OF that(2)]]
    by (intro exI [of _ "supstate.more_update (\<lambda>_. (c, stored s)) s"]) (simp add: disk1_def undisturbed_def opcodes)
  have 3: "\<exists>s' v. disk1 IOWAIT DISKINT 1 0 s = Some (READY, s') \<and> undisturbed (disk_reg 1) a U s s' \<and>
       supstate.more s' = (at_cyl s, (stored s)((at_cyl s, h, e) := v)) \<and>
       (\<forall>i<1024. v i = mem s (word_at (d_data0 (devregs s (disk_reg 1))) i))"
    if "d_command (devregs s (disk_reg 1)) = push_bit HEADNUM_SHIFT h + push_bit SECTNUM_SHIFT e + WRITEBLK_DSK"
      "h < heads (geometry 1 s)" "e < sects (geometry 1 s)" for s h e
  proof -
    let ?v = "\<lambda>i. mem s (word_at (d_data0 (devregs s (disk_reg 1))) i)"
    show ?thesis
      using that decode_transfer [OF less(2) [OF that(2)] less(3) [OF that(3)] opcodes(5)] opcodes
      by (intro exI [of _ "supstate.more_update (\<lambda>_. (at_cyl s, (stored s)((at_cyl s, h, e) := ?v))) s"] exI [of _ ?v])
        (simp add: disk1_def undisturbed_def)
  qed
  have 4: "\<exists>s'. disk1 IOWAIT DISKINT 1 0 s = Some (READY, s') \<and> undisturbed (disk_reg 1) a (U - block (d_data0 (devregs s (disk_reg 1)))) s s' \<and>
       supstate.more s' = supstate.more s \<and> (\<forall>i<1024. mem s' (word_at (d_data0 (devregs s (disk_reg 1))) i) = stored s (at_cyl s, h, e) i)"
    if "d_command (devregs s (disk_reg 1)) = push_bit HEADNUM_SHIFT h + push_bit SECTNUM_SHIFT e + READBLK_DSK"
      "h < heads (geometry 1 s)" "e < sects (geometry 1 s)" for s h e
  proof -
    let ?p = "d_data0 (devregs s (disk_reg 1))"
    let ?m = "\<lambda>x. if x \<in> block ?p then stored s (at_cyl s, h, e) (unat (x - ?p) div 4) else mem s x"
    note dec = decode_transfer [OF less(2) [OF that(2)] less(3) [OF that(3)] opcodes(6)]
    have "disk1 IOWAIT DISKINT 1 0 s = Some (READY, s\<lparr>mem := ?m\<rparr>)"
      unfolding disk1_def Let_def that(1) dec using opcodes(2,3,9) by simp
    moreover have "undisturbed (disk_reg 1) a (U - block ?p) s (s\<lparr>mem := ?m\<rparr>)" by (simp add: undisturbed_def)
    moreover have "\<forall>i<1024. mem (s\<lparr>mem := ?m\<rparr>) (word_at ?p i) = stored s (at_cyl s, h, e) i"
      using word_index by (simp add: block_def)
    moreover have "supstate.more (s\<lparr>mem := ?m\<rparr>) = supstate.more s" by simp
    ultimately show ?thesis by blast
  qed
  show ?thesis unfolding disk_answers_def
    by (intro conjI allI impI; (elim conjE)?) (rule 1 2 3 4; assumption)+
qed


text \<open>A disk and a process that writes sector 13 from \<open>0x80001000\<close> and reads it to \<open>0x80003000\<close>.\<close>

definition asking :: "u32 \<Rightarrow> u32 \<Rightarrow> platters supstate_scheme" where
  "asking k b = (support0 (0, (\<lambda>_ _. 0)))\<lparr>mem := (\<lambda>x. x), supports := (\<lambda>_. \<lparr>sup_asid = 1,
     sup_exceptState = (\<lambda>_. calling k (set_reg R_a1 b (set_reg R_a2 1 (set_reg R_a3 13 faulting)))),
     sup_exceptContext = (\<lambda>_. \<lparr>c_stackPtr = 0, c_status = 0, c_pc = 0\<rparr>), sup_privatePgTbl = fresh_pte 1\<rparr>)\<rparr>"

lemma asking_fields: "exc_reg R_a1 a (asking k b) = b" "exc_reg R_a2 a (asking k b) = 1" "exc_reg R_a3 a (asking k b) = 13"
  "geometry 1 (asking k b) = 0x400408" "mem (asking k b) x = x"
  by (simp_all add: asking_def calling_def set_reg_def support0_def)

lemma asking_asks: "asks a k (asking k b)"
  by (simp add: asks_def asking_def calling_def set_reg_def support0_def sys_code)

lemma block_bounds: "x \<in> block b \<Longrightarrow> unat b + 4096 \<le> 4294967296 \<Longrightarrow> unat b \<le> unat x \<and> unat x < unat b + 4096"
  by (auto simp: block_def word_at_def unat_word_ariths unat_of_nat)

lemma apart_blocks:
  assumes "unat c + 4096 \<le> unat b" "unat b + 4096 \<le> 4294967296"
  shows "block b \<inter> block c = {}"
  using block_bounds [of _ b] block_bounds [of _ c] assms by fastforce

lemma asking_request: "b = 0x80001000 \<or> b = 0x80003000 \<Longrightarrow> disk_request 0x20021000 b 1 13 UNIV (asking k b)"
proof -
  assume b: "b = 0x80001000 \<or> b = 0x80003000"
  have d: "dma 1 = 0x20021000" "capacity 0x400408 = 2048" by code_simp+
  have "block b \<inter> block (dma 1) = {}" unfolding d(1) using b by (intro apart_blocks) auto
  moreover have "KUSEG \<le> b" using b by (auto simp: KUSEG_def)
  ultimately show ?thesis by (simp add: disk_request_def asking_fields d)
qed


section \<open>A flash device\<close>

text \<open>C36: A block of a flash device, too, that a process writes (system call 16) and later reads (17) is the same 1024
  words; the write changes no other block, and so none of the first 32 blocks, which hold the pages of the process
  whose device it is. Both exceptions end behind the call, with the status of the device in \<open>v0\<close>.\<close>

theorem flash_roundtrip:
  assumes "flash_answers K d a U" "K SUPPORTGET 0 0 0 s0 = Some (a, s)" "asks a 16 s" "flash_request a b d n U s"
  shows "\<exists>s1. general_exception_handler K s0 = Some (LDST (behind (set_reg R_v0 READY (exc_state a s))), s1) \<and>
     (\<forall>m. m \<noteq> n \<or> m < 32 \<longrightarrow> chip s1 m = chip s m) \<and>
     (\<forall>t0 t b2. K SUPPORTGET 0 0 0 t0 = Some (a, t) \<and> asks a 17 t \<and> flash_request a b2 d n U t \<and> chip t = chip s1 \<longrightarrow>
        (\<exists>s3. general_exception_handler K t0 = Some (LDST (behind (set_reg R_v0 READY (exc_state a t))), s3) \<and>
           (\<forall>i<1024. mem s3 (b2 + 4 * of_nat i) = mem s (b + 4 * of_nat i))))"
proof -
  obtain u v where w: "WRITE_TO_FLASH K a s = Some u" "exc_state a u = set_reg R_v0 READY (exc_state a s)"
      "chip u = (chip s)(n := v)" "\<forall>i<1024. v i = mem s (word_at b i)"
    using WRITE_TO_FLASH_spec [OF assms(1,4)] by blast
  obtain s1 where s1: "general_exception_handler K s0 = Some (LDST (behind (exc_state a u)), s1)" "chip s1 = chip u"
    using handled [OF assms(2,3) services(6) w(1)] by blast
  have "32 \<le> n" using assms(4) by (simp add: flash_request_def)
  then have "\<forall>m. m \<noteq> n \<or> m < 32 \<longrightarrow> chip s1 m = chip s m" using w(3) s1(2) by auto
  moreover have "\<exists>s3. general_exception_handler K t0 = Some (LDST (behind (set_reg R_v0 READY (exc_state a t))), s3) \<and>
      (\<forall>i<1024. mem s3 (b2 + 4 * of_nat i) = mem s (b + 4 * of_nat i))"
    if t: "K SUPPORTGET 0 0 0 t0 = Some (a, t) \<and> asks a 17 t \<and> flash_request a b2 d n U t \<and> chip t = chip s1" for t0 t b2
  proof -
    obtain r where r: "READ_FROM_FLASH K a t = Some r" "exc_state a r = set_reg R_v0 READY (exc_state a t)"
        "\<forall>i<1024. mem r (word_at b2 i) = chip t n i"
      using READ_FROM_FLASH_spec [OF assms(1), of b2 n t] t by blast
    have "K SUPPORTGET 0 0 0 t0 = Some (a, t)" "asks a 17 t" using t by simp_all
    from handled [OF this services(7) r(1)] obtain s3 where
      "general_exception_handler K t0 = Some (LDST (behind (exc_state a r)), s3)" "mem s3 = mem r" by blast
    then show ?thesis using r(2,3) t w(3,4) s1(2) by (simp add: word_at_def)
  qed
  ultimately show ?thesis using s1(1) w(2) by auto
qed

text \<open>Flash device 1, and a process that writes its block 40 from \<open>0x80001000\<close> and reads it to \<open>0x80003000\<close>.\<close>

definition flash1 :: "chips supstate_scheme calls" where
  "flash1 n x b c s =
     (let w = d_command (devregs s (flash_reg 1)); p = d_data0 (devregs s (flash_reg 1)); k = drop_bit 8 w
      in if n = SUPPORTGET then Some (0x20021000, s)
         else if n \<noteq> IOWAIT then Some (READY, s)
         else if w AND 0xFF = WRITEBLK_FLASH
         then Some (READY, supstate.more_update (\<lambda>_. (chip s)(k := (\<lambda>i. mem s (word_at p i)))) s)
         else Some (READY, s\<lparr>mem := (\<lambda>x. if x \<in> block p then chip s k (unat (x - p) div 4) else mem s x)\<rparr>))"

lemma decode_block:
  fixes n v :: u32
  assumes "n < 0x1000000" "unat v < 0x100"
  shows "(push_bit BLOCKNUM_SHIFT n + v) AND 0xFF = v" "drop_bit 8 (push_bit BLOCKNUM_SHIFT n + v) = n"
proof -
  have "unat n < 0x1000000" using assms(1) by (simp add: word_less_nat_alt)
  then have u: "unat (push_bit BLOCKNUM_SHIFT n + v) = unat v + 256 * unat n"
    using assms(2) by (simp add: BLOCKNUM_SHIFT_def push_bit_eq_mult unat_word_ariths)
  show "(push_bit BLOCKNUM_SHIFT n + v) AND 0xFF = v" using assms(2) by (simp add: byte_mask u)
  show "drop_bit 8 (push_bit BLOCKNUM_SHIFT n + v) = n" using assms(2) by (simp add: word_unat_eq_iff unat_drop_bit u)
qed

lemma flash_opcodes: "unat WRITEBLK_FLASH < 0x100" "unat READBLK_FLASH < 0x100" "READBLK_FLASH \<noteq> WRITEBLK_FLASH"
  by (simp_all add: WRITEBLK_FLASH_def READBLK_FLASH_def)

lemma flash1_ok: "flash_answers flash1 1 a U"
proof -
  have 1: "\<exists>r s'. flash1 n x 0 0 s = Some (r, s') \<and> undisturbed (flash_reg 1) a U s s' \<and> chip s' = chip s"
    if "n \<in> {PASSERN, VERHO}" for n x s
    using that opcodes(7-11) by (intro exI [of _ READY] exI [of _ s]) (auto simp: flash1_def undisturbed_def)
  have 2: "\<exists>s' v. flash1 IOWAIT FLASHINT 1 0 s = Some (READY, s') \<and> undisturbed (flash_reg 1) a U s s' \<and> chip s' = (chip s)(n := v) \<and>
       (\<forall>i<1024. v i = mem s (word_at (d_data0 (devregs s (flash_reg 1))) i))"
    if "d_command (devregs s (flash_reg 1)) = push_bit BLOCKNUM_SHIFT n + WRITEBLK_FLASH" "n < blocks 1 s" "n < 0x1000000" for s n
  proof -
    let ?v = "\<lambda>i. mem s (word_at (d_data0 (devregs s (flash_reg 1))) i)"
    show ?thesis using that decode_block [OF that(3) flash_opcodes(1)] opcodes(9)
      by (intro exI [of _ "supstate.more_update (\<lambda>_. (chip s)(n := ?v)) s"] exI [of _ ?v]) (simp add: flash1_def undisturbed_def)
  qed
  have 3: "\<exists>s'. flash1 IOWAIT FLASHINT 1 0 s = Some (READY, s') \<and>
       undisturbed (flash_reg 1) a (U - block (d_data0 (devregs s (flash_reg 1)))) s s' \<and> chip s' = chip s \<and>
       (\<forall>i<1024. mem s' (word_at (d_data0 (devregs s (flash_reg 1))) i) = chip s n i)"
    if "d_command (devregs s (flash_reg 1)) = push_bit BLOCKNUM_SHIFT n + READBLK_FLASH" "n < blocks 1 s" "n < 0x1000000" for s n
  proof -
    let ?p = "d_data0 (devregs s (flash_reg 1))"
    let ?m = "\<lambda>x. if x \<in> block ?p then chip s n (unat (x - ?p) div 4) else mem s x"
    have "flash1 IOWAIT FLASHINT 1 0 s = Some (READY, s\<lparr>mem := ?m\<rparr>)"
      unfolding flash1_def Let_def that(1) decode_block [OF that(3) flash_opcodes(2)] using opcodes(9) flash_opcodes(3) by simp
    moreover have "undisturbed (flash_reg 1) a (U - block ?p) s (s\<lparr>mem := ?m\<rparr>)" by (simp add: undisturbed_def)
    moreover have "\<forall>i<1024. mem (s\<lparr>mem := ?m\<rparr>) (word_at ?p i) = chip s n i" using word_index by (simp add: block_def)
    moreover have "chip (s\<lparr>mem := ?m\<rparr>) = chip s" by simp
    ultimately show ?thesis by blast
  qed
  show ?thesis unfolding flash_answers_def
    by (intro conjI allI impI; (elim conjE)?) (rule 1 2 3; assumption)+
qed

definition asking_flash :: "u32 \<Rightarrow> u32 \<Rightarrow> chips supstate_scheme" where
  "asking_flash k b = (support0 (\<lambda>_ _. 0))\<lparr>mem := (\<lambda>x. x), supports := (\<lambda>_. \<lparr>sup_asid = 1,
     sup_exceptState = (\<lambda>_. calling k (set_reg R_a1 b (set_reg R_a2 1 (set_reg R_a3 40 faulting)))),
     sup_exceptContext = (\<lambda>_. \<lparr>c_stackPtr = 0, c_status = 0, c_pc = 0\<rparr>), sup_privatePgTbl = fresh_pte 1\<rparr>)\<rparr>"

lemma asking_flash_fields: "exc_reg R_a1 a (asking_flash k b) = b" "exc_reg R_a2 a (asking_flash k b) = 1"
  "exc_reg R_a3 a (asking_flash k b) = 40" "blocks 1 (asking_flash k b) = 0x400408" "mem (asking_flash k b) x = x"
  "asks a k (asking_flash k b)"
  by (simp_all add: asks_def sys_code asking_flash_def calling_def set_reg_def support0_def)

lemma asking_flash_request:
  "b = 0x80001000 \<or> b = 0x80003000 \<Longrightarrow> flash_request 0x20021000 b 1 40 UNIV (asking_flash k b)"
proof -
  assume b: "b = 0x80001000 \<or> b = 0x80003000"
  have d: "flash_dma 1 = 0x20029000" by code_simp
  have "block b \<inter> block (flash_dma 1) = {}" unfolding d using b by (intro apart_blocks) auto
  moreover have "KUSEG \<le> b" using b by (auto simp: KUSEG_def)
  ultimately show ?thesis by (simp add: flash_request_def asking_flash_fields)
qed

theorem flash_roundtrip_witness:
  "\<exists>s1 s3 r r'. general_exception_handler flash1 (asking_flash 16 0x80001000) = Some (r, s1) \<and>
     general_exception_handler flash1 ((asking_flash 17 0x80003000)\<lparr>supstate.more := chip s1\<rparr>) = Some (r', s3) \<and>
     mem s3 (0x80003000 + 4 * of_nat 7) = 0x80001000 + 4 * of_nat 7"
proof -
  have g: "flash1 SUPPORTGET 0 0 0 s = Some (0x20021000, s)" for s by (simp add: flash1_def Let_def)
  from flash_roundtrip [OF flash1_ok g asking_flash_fields(6) asking_flash_request, of "0x80001000"] obtain s1 r where
    w: "general_exception_handler flash1 (asking_flash 16 0x80001000) = Some (r, s1)" and
    r: "\<forall>t0 t b2. flash1 SUPPORTGET 0 0 0 t0 = Some (0x20021000, t) \<and> asks 0x20021000 17 t \<and> flash_request 0x20021000 b2 1 40 UNIV t \<and>
        chip t = chip s1 \<longrightarrow>
        (\<exists>s3. general_exception_handler flash1 t0 = Some (LDST (behind (set_reg R_v0 READY (exc_state 0x20021000 t))), s3) \<and>
           (\<forall>i<1024. mem s3 (b2 + 4 * of_nat i) = mem (asking_flash 16 0x80001000) (0x80001000 + 4 * of_nat i)))" by auto
  let ?s2 = "supstate.more_update (\<lambda>_. chip s1) (asking_flash 17 0x80003000)"
  have "flash_request 0x20021000 0x80003000 1 40 UNIV ?s2"
    using asking_flash_request [of "0x80003000" 17] by (simp add: flash_request_def)
  moreover have "asks 0x20021000 17 ?s2" using asking_flash_fields(6) [of "0x20021000" 17 "0x80003000"] by (simp add: asks_def)
  moreover have "chip ?s2 = chip s1" by simp
  ultimately obtain s3 r' where s3: "general_exception_handler flash1 ?s2 = Some (r', s3)"
    "\<forall>i<1024. mem s3 (0x80003000 + 4 * of_nat i) = mem (asking_flash 16 0x80001000) (0x80001000 + 4 * of_nat i)"
    using r g by blast
  have "mem s3 (0x80003000 + 4 * of_nat 7) = mem (asking_flash 16 0x80001000) (0x80001000 + 4 * of_nat 7)"
    by (rule s3(2) [rule_format]) simp
  then have "mem s3 (0x80003000 + 4 * of_nat 7) = 0x80001000 + 4 * of_nat 7" unfolding asking_flash_fields .
  with w s3(1) show ?thesis by blast
qed

section \<open>Strings\<close>

text \<open>C37: A process that writes a string of 1 to 128 characters to its printer (system call 11) or its
  terminal (12) gets it written from the first character on, in order, and goes on behind the call: either all of it
  is written, with the length in \<open>v0\<close>, or the characters before the one at which the device reported an error, with that
  status negated in \<open>v0\<close>. The other registers are as they were.\<close>

theorem string_written:
  assumes "waits_ok K a (string_bytes b n)" "K SUPPORTGET 0 0 0 s0 = Some (a, s)" "string_request a b n s" "sup_asid (supports s a) = d + 1"
    and "asks a 11 s \<and> good = (\<lambda>r. r = READY) \<and> prints K d a (string_bytes b n) \<or>
      asks a 12 s \<and> good = (\<lambda>r. r AND STATUS_CHAR_MASK = CHAR_TRANSMITTED) \<and> transmits K d a (string_bytes b n)"
  shows "\<exists>s' j v. general_exception_handler K s0 = Some (LDST (behind (set_reg R_v0 v (exc_state a s))), s') \<and>
     paper s' = paper s @ map (\<lambda>i. bytes s (b + of_nat i)) [0..<j] \<and>
     (if j = n then v = of_nat n else j < n \<and> (\<exists>r. \<not> good r \<and> v = - r))"
proof -
  have "\<exists>k call u j v. asks a k s \<and> service K a k = Some call \<and> call s = Some u \<and> paper u = paper s @ text_at s b j \<and>
     exc_state a u = set_reg R_v0 v (exc_state a s) \<and> outcome good n j v"
    using assms(5)
  proof (elim disjE conjE)
    assume k: "asks a 11 s" "good = (\<lambda>r. r = READY)" "prints K d a (string_bytes b n)"
    from WRITE_TO_PRINTER_spec [OF assms(1) k(3) assms(3,4)] k(1) services(1) show ?thesis unfolding k(2) by blast
  next
    assume k: "asks a 12 s" "good = (\<lambda>r. r AND STATUS_CHAR_MASK = CHAR_TRANSMITTED)" "transmits K d a (string_bytes b n)"
    from WRITE_TO_TERMINAL_spec [OF assms(1) k(3) assms(3,4)] k(1) services(2) show ?thesis unfolding k(2) by blast
  qed
  then obtain k call u j v where c: "asks a k s" "service K a k = Some call" "call s = Some u" "paper u = paper s @ text_at s b j"
     "exc_state a u = set_reg R_v0 v (exc_state a s)" "outcome good n j v" by blast
  from handled [OF assms(2) c(1-3)] obtain s' where "general_exception_handler K s0 = Some (LDST (behind (exc_state a u)), s')"
    "paper s' = paper u" by blast
  with c(4-6) show ?thesis unfolding outcome_def text_at_def by metis
qed

text \<open>A printer that is out of paper after two characters, and a request for three.\<close>

definition two_lines :: "8 word list supstate_scheme calls" where
  "two_lines n x b c s =
     (if n = SUPPORTGET then Some (0x20021000, s)
      else if n \<noteq> IOWAIT then Some (READY, s)
      else if length (paper s) < 2
      then Some (READY, supstate.more_update (\<lambda>l. l @ [ucast (d_data0 (devregs s (devAddrBase PRNTINT 0)))]) s)
      else Some (4, s))"

definition asking_print :: "8 word list supstate_scheme" where
  "asking_print = (support0 [])\<lparr>bytes := ucast, supports := (\<lambda>_. \<lparr>sup_asid = 1,
     sup_exceptState = (\<lambda>_. calling 11 (set_reg R_a1 0x80001041 (set_reg R_a2 3 faulting))),
     sup_exceptContext = (\<lambda>_. \<lparr>c_stackPtr = 0, c_status = 0, c_pc = 0\<rparr>), sup_privatePgTbl = fresh_pte 1\<rparr>)\<rparr>"

lemma two_lines_ok: "waits_ok two_lines a B" "prints two_lines 0 a B"
proof -
  have ne: "IOWAIT \<noteq> PASSERN" "IOWAIT \<noteq> VERHO" "IOWAIT \<noteq> SUPPORTGET" "PASSERN \<noteq> SUPPORTGET" "VERHO \<noteq> SUPPORTGET" "(4 :: u32) \<noteq> READY"
    by (simp_all add: IOWAIT_def PASSERN_def VERHO_def SUPPORTGET_def READY_def)
  show "waits_ok two_lines a B" using ne by (auto simp: waits_ok_def two_lines_def)
  show "prints two_lines 0 a B" using ne unfolding prints_def two_lines_def by (auto simp: keeps_def)
qed

theorem string_written_witness:
  "\<exists>r s' j. general_exception_handler two_lines asking_print = Some (r, s') \<and>
     paper s' = map (\<lambda>i. ucast (0x80001041 + of_nat i :: u32)) [0..<j] \<and> j \<le> 3"
proof -
  have h: "helper_check_string_outside_addr_space 0x80001041 = FALSE" by code_simp
  have f: "exc_reg R_a1 x asking_print = 0x80001041" "exc_reg R_a2 x asking_print = 3" "sup_asid (supports asking_print x) = 0 + 1"
    "paper asking_print = []" "bytes asking_print y = ucast y" "asks x 11 asking_print" for x y
    by (simp_all add: asking_print_def calling_def asks_def sys_code set_reg_def support0_def)
  have rq: "string_request 0x20021000 0x80001041 3 asking_print" using h by (simp add: string_request_def f)
  have g: "two_lines SUPPORTGET 0 0 0 asking_print = Some (0x20021000, asking_print)" by (simp add: two_lines_def)
  have "asks 0x20021000 11 asking_print \<and> (\<lambda>r. r = READY) = (\<lambda>r. r = READY) \<and>
     prints two_lines 0 0x20021000 (string_bytes 0x80001041 3)" using two_lines_ok(2) f(6) by blast
  from string_written [OF two_lines_ok(1) g rq f(3) disjI1 [OF this]] obtain s' j v where
    s': "general_exception_handler two_lines asking_print = Some (LDST (behind (set_reg R_v0 v (exc_state 0x20021000 asking_print))), s')"
    "paper s' = paper asking_print @ map (\<lambda>i. bytes asking_print (0x80001041 + of_nat i)) [0..<j]"
    "if j = 3 then v = of_nat 3 else j < 3 \<and> (\<exists>r. \<not> r = READY \<and> v = - r)" by blast
  have "j \<le> 3" using s'(3) by (simp split: if_splits)
  then show ?thesis using s'(1,2) unfolding f by auto
qed

text \<open>C38: A process that reads from its terminal (system call 13) gets the characters up to and with the next
  newline, in order, at the address it gave, and goes on behind the call with their number in \<open>v0\<close>; what comes after
  the newline is left for the next call. The length it gave in \<open>a2\<close> has no influence: a longer line is written
  behind the end of the buffer.\<close>

theorem line_read:
  assumes "waits_ok K a (string_bytes b n)" "receives K d a (string_bytes b n)" "sup_asid (supports s a) = d + 1"
    and "K SUPPORTGET 0 0 0 s0 = Some (a, s)" "asks a 13 s"
    and "exc_reg R_a1 a s = b" "helper_check_string_outside_addr_space b = FALSE" "0 \<le> sint (exc_reg R_a2 a s)" "sint (exc_reg R_a2 a s) \<le> 128"
    and "pending s = line @ 10 # rest" "10 \<notin> set line" "length line < n" "n < 4294967296"
  shows "\<exists>s'. general_exception_handler K s0 = Some (LDST (behind (set_reg R_v0 (of_nat (length line + 1)) (exc_state a s))), s') \<and>
     pending s' = rest \<and> map (\<lambda>i. bytes s' (b + of_nat i)) [0..<length line + 1] = line @ [10]"
proof -
  obtain u where u: "READ_FROM_TERMINAL K a s = Some u" "pending u = rest" "text_at u b (length line + 1) = line @ [10]"
      "exc_state a u = set_reg R_v0 (of_nat (length line + 1)) (exc_state a s)"
    using READ_FROM_TERMINAL_spec [OF assms(1,2,6-9,3,10-13)] by blast
  from handled [OF assms(4,5) services(3) u(1)] obtain s' where
    "general_exception_handler K s0 = Some (LDST (behind (exc_state a u)), s')" "bytes s' = bytes u" "pending s' = pending u" by blast
  with u(2-4) show ?thesis unfolding text_at_def by metis
qed

definition keyboard :: "8 word list supstate_scheme calls" where
  "keyboard n x b c s =
     (if n = SUPPORTGET then Some (0x20021000, s)
      else if n \<noteq> IOWAIT then Some (READY, s)
      else case pending s of [] \<Rightarrow> None
        | ch # cs \<Rightarrow> Some (push_bit 8 (ucast ch) OR CHAR_RECIEVED, supstate.more_update (\<lambda>_. cs) s))"

lemma keyboard_status:
  "(push_bit 8 (ucast (c :: 8 word)) OR CHAR_RECIEVED) AND STATUS_CHAR_MASK = CHAR_RECIEVED"
  "ucast (drop_bit RECEIVE_COMMAND_SHIFT ((push_bit 8 (ucast (c :: 8 word)) OR CHAR_RECIEVED) AND RECEIVE_CHAR_MASK)) = c"
proof -
  have m: "(STATUS_CHAR_MASK :: u32) = mask 8" "(RECEIVE_CHAR_MASK :: u32) = push_bit 8 (mask 8)" by code_simp+
  have b: "bit (CHAR_RECIEVED :: u32) i \<longleftrightarrow> i = 0 \<or> i = 2" if "i < 32" for i
  proof -
    have "\<forall>i\<in>set [0..<32]. bit (CHAR_RECIEVED :: u32) i \<longleftrightarrow> i = 0 \<or> i = 2" by code_simp
    then show ?thesis using that by simp
  qed
  show "(push_bit 8 (ucast (c :: 8 word)) OR CHAR_RECIEVED) AND STATUS_CHAR_MASK = CHAR_RECIEVED"
    unfolding m by (rule bit_word_eqI) (auto simp: bit_simps b)
  show "ucast (drop_bit RECEIVE_COMMAND_SHIFT ((push_bit 8 (ucast (c :: 8 word)) OR CHAR_RECIEVED) AND RECEIVE_CHAR_MASK)) = c"
    unfolding m RECEIVE_COMMAND_SHIFT_def by (rule bit_word_eqI) (auto simp: bit_simps b)
qed

lemma keyboard_ok: "waits_ok keyboard a B" "receives keyboard d a B"
proof -
  have ne: "IOWAIT \<noteq> PASSERN" "IOWAIT \<noteq> VERHO" "IOWAIT \<noteq> SUPPORTGET" "PASSERN \<noteq> SUPPORTGET" "VERHO \<noteq> SUPPORTGET"
    by (simp_all add: IOWAIT_def PASSERN_def VERHO_def SUPPORTGET_def)
  then show "waits_ok keyboard a B" by (auto simp: waits_ok_def keyboard_def)
  show "receives keyboard d a B" unfolding receives_def keyboard_def using keyboard_status ne by (auto simp: keeps_def)
qed

text \<open>A process asks for one character; the line has four.\<close>

definition asking_line :: "8 word list supstate_scheme" where
  "asking_line = (support0 [112, 115, 33, 10, 55])\<lparr>supports := (\<lambda>_. \<lparr>sup_asid = 1,
     sup_exceptState = (\<lambda>_. calling 13 (set_reg R_a1 0x80001000 (set_reg R_a2 1 faulting))),
     sup_exceptContext = (\<lambda>_. \<lparr>c_stackPtr = 0, c_status = 0, c_pc = 0\<rparr>), sup_privatePgTbl = fresh_pte 1\<rparr>)\<rparr>"

theorem line_read_witness:
  "\<exists>r s'. general_exception_handler keyboard asking_line = Some (LDST r, s') \<and> pending s' = [55] \<and>
     map (\<lambda>i. bytes s' (0x80001000 + of_nat i)) [0..<4] = [112, 115, 33, 10]"
proof -
  have f: "exc_reg R_a1 x asking_line = 0x80001000" "exc_reg R_a2 x asking_line = 1" "sup_asid (supports asking_line x) = 0 + 1"
    "pending asking_line = [112, 115, 33] @ 10 # [55]" "asks x 13 asking_line" for x
    by (simp_all add: asking_line_def calling_def asks_def sys_code set_reg_def support0_def)
  have h: "helper_check_string_outside_addr_space 0x80001000 = FALSE" by code_simp
  have g: "keyboard SUPPORTGET 0 0 0 asking_line = Some (0x20021000, asking_line)" by (simp add: keyboard_def)
  have r: "0 \<le> sint (exc_reg R_a2 0x20021000 asking_line)" "sint (exc_reg R_a2 0x20021000 asking_line) \<le> 128"
    unfolding f by simp_all
  have n: "10 \<notin> set [112, 115, 33 :: 8 word]" "length [112, 115, 33 :: 8 word] < 4" "4 < (4294967296 :: nat)" by simp_all
  from line_read [OF keyboard_ok(1) keyboard_ok(2) f(3) g f(5) f(1) h r f(4) n] obtain s' st where
    s': "general_exception_handler keyboard asking_line = Some (LDST st, s')" "pending s' = [55]"
    "map (\<lambda>i. bytes s' (0x80001000 + of_nat i)) [0..<length [112, 115, 33 :: 8 word] + 1] = [112, 115, 33] @ [10]"
    by (elim exE conjE) (rule that)
  have l: "length [112, 115, 33 :: 8 word] + 1 = 4" "[112, 115, 33] @ [10] = [112, 115, 33, 10 :: 8 word]" by simp_all
  show ?thesis by (intro exI [of _ st] exI [of _ s'] conjI) (fact s'(1) s'(2) s'(3) [unfolded l])+
qed

end
