(* ===== verification/Startup.thy ===== *)
theory Startup
  imports InitProc Reclaim Adl
begin

text \<open>
  The first process up to the point where it waits for the user processes: each step of \<open>test\<close>, and the
  invariants of the pager and of the list of the sleepers once all are started. \<open>boot_calls\<close> states what it
  relies on when it calls the kernel.
\<close>

section \<open>The kernel as the first process needs it\<close>

definition same_boot :: "'a supstate_scheme \<Rightarrow> 'a supstate_scheme \<Rightarrow> bool" where
  "same_boot s s' \<longleftrightarrow> swapPoolTable s' = swapPoolTable s \<and> nextFrame s' = nextFrame s \<and> supports s' = supports s \<and>
     d_data1 (devregs s' pager_disk) = d_data1 (devregs s pager_disk)"

text \<open>P, V and the wait for a device return to the first process, which is alone until it creates others.
  A process can be created, and from then on the processes that run keep the two invariants and change
  the support structures of processes that were started only.\<close>

definition boot_calls :: "'a supstate_scheme calls \<Rightarrow> bool" where
  "boot_calls K \<longleftrightarrow>
     (\<forall>n x y z s. n \<in> {PASSERN, VERHO, IOWAIT} \<longrightarrow> (\<exists>r s'. K n x y z s = Some (r, s') \<and> same_boot s s')) \<and>
     (\<forall>f a s A. (a = NULL \<or> a \<in> A) \<and> vm_inv A s \<and> (\<exists>ds fl. adl s 0 ds 1 fl) \<longrightarrow>
        (\<exists>r s'. K 1 f a 0 s = Some (r, s') \<and> r \<noteq> -1 \<and> vm_inv A s' \<and> (\<exists>ds fl. adl s' 0 ds 1 fl) \<and>
           (\<forall>b. asid b s' = asid b s) \<and> (\<forall>b. b \<notin> A \<longrightarrow> supports s' b = supports s b)))"

lemma boot_callsD:
  assumes "boot_calls K"
  shows "n \<in> {PASSERN, VERHO, IOWAIT} \<Longrightarrow> \<exists>r s'. K n x y z s = Some (r, s') \<and> same_boot s s'"
    "a = NULL \<or> a \<in> A \<Longrightarrow> vm_inv A s \<Longrightarrow> adl s 0 ds 1 fl \<Longrightarrow>
        \<exists>r s' ds fl. K 1 f a 0 s = Some (r, s') \<and> r \<noteq> -1 \<and> vm_inv A s' \<and> adl s' 0 ds 1 fl \<and>
           (\<forall>b. asid b s' = asid b s) \<and> (\<forall>b. b \<notin> A \<longrightarrow> supports s' b = supports s b)"
proof -
  note K = assms [unfolded boot_calls_def]
  show "n \<in> {PASSERN, VERHO, IOWAIT} \<Longrightarrow> \<exists>r s'. K n x y z s = Some (r, s') \<and> same_boot s s'"
    using conjunct1 [OF K] by blast
  have "(a = NULL \<or> a \<in> A) \<and> vm_inv A s \<and> (\<exists>ds fl. adl s 0 ds 1 fl) \<longrightarrow>
        (\<exists>r s'. K 1 f a 0 s = Some (r, s') \<and> r \<noteq> -1 \<and> vm_inv A s' \<and> (\<exists>ds fl. adl s' 0 ds 1 fl) \<and>
           (\<forall>b. asid b s' = asid b s) \<and> (\<forall>b. b \<notin> A \<longrightarrow> supports s' b = supports s b))"
    using conjunct2 [OF K] by (elim allE)
  moreover assume "a = NULL \<or> a \<in> A" "vm_inv A s" "adl s 0 ds 1 fl"
  ultimately show "\<exists>r s' ds fl. K 1 f a 0 s = Some (r, s') \<and> r \<noteq> -1 \<and> vm_inv A s' \<and> adl s' 0 ds 1 fl \<and>
           (\<forall>b. asid b s' = asid b s) \<and> (\<forall>b. b \<notin> A \<longrightarrow> supports s' b = supports s b)" by metis
qed

lemma same_boot_trans: "same_boot s s' \<Longrightarrow> same_boot s' s'' \<Longrightarrow> same_boot s s''"
  by (simp add: same_boot_def)

lemma same_boot_assign [simp]:
  "same_boot s (setSTATUS v t) = same_boot s t" "same_boot s (upd_dev r (d_command_update f) t) = same_boot s t"
  "same_boot s (upd_dev r (d_data0_update f) t) = same_boot s t" "same_boot s (poke x v t) = same_boot s t" "same_boot s s"
  by (simp_all add: same_boot_def setSTATUS_def upd_dev_def poke_def)

lemma vm_inv_cong:
  "swapPoolTable s' = swapPoolTable s \<Longrightarrow> nextFrame s' = nextFrame s \<Longrightarrow> (\<And>a. a \<in> A \<Longrightarrow> supports s' a = supports s a) \<Longrightarrow>
   vm_inv A s' = vm_inv A s"
  by (simp add: vm_inv_def pgTbl_def)

section \<open>The backing store\<close>

lemma copy_block_same: "same_boot s (helper_copy_block src dst t) = same_boot s t"
proof -
  have "\<exists>m. snd (snd (fold (\<lambda>i (src, dst, s). (src + 4, dst + 4, poke dst (mem s src) s)) xs (src, dst, t))) = t\<lparr>mem := m\<rparr>" for xs
  proof (induction xs arbitrary: src dst t)
    case Nil
    show ?case by (intro exI [of _ "mem t"]) simp
  next
    case (Cons x xs)
    from Cons.IH [of "src + 4" "dst + 4" "poke dst (mem t src) t"] show ?case by (auto simp: poke_def)
  qed
  then obtain m where "helper_copy_block src dst t = t\<lparr>mem := m\<rparr>" by (auto simp: helper_copy_block_def)
  then show ?thesis by (simp add: same_boot_def)
qed

lemma helper_read_flash_returns:
  assumes K: "boot_calls K" and b: "sint b \<le> 32"
  shows "\<exists>r s'. helper_read_flash K d b s = Some (r, s') \<and> same_boot s s'"
proof -
  let ?t = "upd_dev (devAddrBase FLASHINT d) (d_command_update (\<lambda>_. push_bit BLOCKNUM_SHIFT b + READBLK_FLASH))
     (setSTATUS (getSTATUS (upd_dev (devAddrBase FLASHINT d) (d_data0_update (\<lambda>_. FLASK_DMA_BUFFER_BASE_ADDR + (BLOCKSIZE * d))) s) AND NOT IECBITON)
       (upd_dev (devAddrBase FLASHINT d) (d_data0_update (\<lambda>_. FLASK_DMA_BUFFER_BASE_ADDR + (BLOCKSIZE * d))) s))"
  obtain r s' where s': "K IOWAIT FLASHINT d 0 ?t = Some (r, s')" "same_boot ?t s'" using boot_callsD(1) [OF K] by blast
  have "same_boot s ?t" by simp
  from same_boot_trans [OF this s'(2)] have "same_boot s s'" .
  then show ?thesis using b s'(1) by (simp add: helper_read_flash_def Let_def)
qed

lemma helper_write_disk_returns:
  assumes K: "boot_calls K" and d: "disk_ok s" and n: "sint n \<le> 255"
  shows "\<exists>r s'. helper_write_disk K n s = Some (r, s') \<and> same_boot s s'"
proof -
  note B = boot_callsD(1) [OF K]
  let ?w = "d_data1 (devregs s pager_disk)"
  let ?C = "drop_bit 16 ?w AND 0xFFFF" and ?H = "drop_bit 8 ?w AND 0xFF" and ?S = "?w AND 0xFF"
  have g: "\<not> sint n > sint (?C * ?H * ?S)" "?H * ?S \<noteq> 0" "?S \<noteq> 0" using d n by (auto simp: disk_ok_def Let_def)
  obtain inT sec hd cy where q: "int_mod n (?H * ?S) = Some inT" "int_mod inT ?S = Some sec" "int_div inT ?S = Some hd"
      "int_div n (?H * ?S) = Some cy" using g by (simp add: int_mod_def int_div_def)
  let ?t = "upd_dev pager_disk (d_command_update (\<lambda>_. push_bit CYLNUM_SHIFT cy + SEEKCYL)) (setSTATUS (getSTATUS s AND NOT IECBITON) s)"
  obtain r1 s1 where s1: "K IOWAIT DISKINT RESERVED_DISK_NO 0 ?t = Some (r1, s1)" "same_boot ?t s1" using B by blast
  let ?s1 = "setSTATUS (getSTATUS s1 OR IECBITON) s1"
  have "same_boot s ?t" by simp
  from same_boot_trans [OF this s1(2)] have a1: "same_boot s ?s1" by simp
  show ?thesis
  proof (cases "r1 = READY")
    case False
    obtain r2 s2 where "K VERHO (mutex (devSemIdx DISKINT RESERVED_DISK_NO FALSE) ?s1) 0 0 ?s1 = Some (r2, s2)" "same_boot ?s1 s2"
      using B by blast
    with False same_boot_trans [OF a1] show ?thesis using g q s1(1) by (simp add: helper_write_disk_def Let_def)
  next
    case True
    let ?u = "upd_dev pager_disk (d_data0_update (\<lambda>_. DISK_DMA_BUFFER_BASE_ADDR + (BLOCKSIZE * RESERVED_DISK_NO))) ?s1"
    let ?v = "upd_dev pager_disk (d_command_update (\<lambda>_. push_bit HEADNUM_SHIFT hd + push_bit SECTNUM_SHIFT sec + WRITEBLK_DSK))
       (setSTATUS (getSTATUS ?u AND NOT IECBITON) ?u)"
    obtain r2 s2 where s2: "K IOWAIT DISKINT RESERVED_DISK_NO 0 ?v = Some (r2, s2)" "same_boot ?v s2" using B by blast
    have "same_boot ?s1 ?v" by simp
    from same_boot_trans [OF a1 same_boot_trans [OF this s2(2)]] have "same_boot s s2" .
    then show ?thesis using True g q s1(1) s2(1) by (simp add: helper_write_disk_def Let_def)
  qed
qed

lemma store_pages_returns:
  assumes K: "boot_calls K"
  shows "disk_ok s \<Longrightarrow> (\<forall>(d, p)\<in>set xs. sint p \<le> 32 \<and> sint (32 * d + p) \<le> 255) \<Longrightarrow>
    \<exists>s'. store_pages K xs s = Some s' \<and> same_boot s s'"
proof (induction xs arbitrary: s)
  case (Cons x xs)
  obtain d p where x: "x = (d, p)" by (cases x)
  have b: "sint p \<le> 32" "sint (32 * d + p) \<le> 255" using Cons.prems(2) x by auto
  let ?m = "mutex (devSemIdx FLASHINT d FALSE)"
  obtain r1 s1 where s1: "K PASSERN (?m s) 0 0 s = Some (r1, s1)" "same_boot s s1" using boot_callsD(1) [OF K] by blast
  obtain r2 s2 where s2: "helper_read_flash K d p s1 = Some (r2, s2)" "same_boot s1 s2" using helper_read_flash_returns [OF K b(1)] by blast
  let ?s2 = "helper_copy_block (FLASK_DMA_BUFFER_BASE_ADDR + (BLOCKSIZE * d)) (DISK_DMA_BUFFER_BASE_ADDR + (BLOCKSIZE * d)) s2"
  have a2: "same_boot s ?s2" using same_boot_trans [OF s1(2) s2(2)] by (simp add: copy_block_same)
  then have "disk_ok ?s2" using Cons.prems(1) by (simp add: same_boot_def disk_ok_def)
  from helper_write_disk_returns [OF K this b(2)] obtain r3 s3 where
    s3: "helper_write_disk K (32 * d + p) ?s2 = Some (r3, s3)" "same_boot ?s2 s3" by blast
  obtain r4 s4 where s4: "K VERHO (?m s3) 0 0 s3 = Some (r4, s4)" "same_boot s3 s4" using boot_callsD(1) [OF K] by blast
  have a4: "same_boot s s4" using same_boot_trans [OF a2 same_boot_trans [OF s3(2) s4(2)]] .
  then have "disk_ok s4" using Cons.prems(1) by (simp add: same_boot_def disk_ok_def)
  then obtain s5 where "store_pages K xs s4 = Some s5" "same_boot s4 s5" using Cons.IH [of s4] Cons.prems(2) by auto
  then show ?case using x s1(1) s2(1) s3(1) s4(1) same_boot_trans [OF a4] by (simp add: Let_def)
qed simp

section \<open>The user processes\<close>

text \<open>What \<open>init_Uproc\<close> sets up before it asks for the new process.\<close>

definition user_ready :: "u32 \<Rightarrow> u32 \<Rightarrow> u32 \<Rightarrow> 'a supstate_scheme \<Rightarrow> bool" where
  "user_ready frame a n s \<longleftrightarrow> s_pc (states s frame) = UPROCSTARTADDR \<and> s_reg (states s frame) R_sp = UPROCSTACK \<and>
     s_reg (states s frame) R_t9 = UPROCSTARTADDR \<and> s_status (states s frame) = ((IEPBITON OR TEBITON) OR IPBITS) OR KUPBITON \<and>
     s_entryHI (states s frame) = push_bit ASID_SHIFT n \<and> asid a s = n \<and>
     c_pc (sup_exceptContext (supports s a) PGFAULTEXCEPT) = fn_addr s ''TLB_exception_handler'' \<and>
     c_pc (sup_exceptContext (supports s a) GENERALEXCEPT) = fn_addr s ''general_exception_handler'' \<and>
     mem s (delaySem a) = 0 \<and> (\<forall>i<32. pgTbl a i s = fresh_pte n i)"

lemma upd_support_sel [simp]:
  "swapPoolTable (upd_support a f s) = swapPoolTable s" "nextFrame (upd_support a f s) = nextFrame s"
  "states (upd_support a f s) = states s" "mem (upd_support a f s) = mem s" "fn_addr (upd_support a f s) = fn_addr s"
  "supports (upd_support a f s) b = (if b = a then f (supports s a) else supports s b)"
  "delayds (upd_support a f s) = delayds s" "delayd_h (upd_support a f s) = delayd_h s"
  "delaydFree_h (upd_support a f s) = delaydFree_h s"
  by (simp_all add: upd_support_def)

lemma upd_pte_others [simp]:
  "states (upd_pte a i f s) = states s" "mem (upd_pte a i f s) = mem s" "fn_addr (upd_pte a i f s) = fn_addr s"
  "delayds (upd_pte a i f s) = delayds s" "delayd_h (upd_pte a i f s) = delayd_h s" "delaydFree_h (upd_pte a i f s) = delaydFree_h s"
  "b \<noteq> a \<Longrightarrow> supports (upd_pte a i f s) b = supports s b"
  by (simp_all add: upd_pte_def)

lemma init_pgTable_same:
  fixes s :: "'a supstate_scheme"
  shows "swapPoolTable (init_Uproc_pgTable a s) = swapPoolTable s \<and> nextFrame (init_Uproc_pgTable a s) = nextFrame s \<and>
   states (init_Uproc_pgTable a s) = states s \<and> mem (init_Uproc_pgTable a s) = mem s \<and> fn_addr (init_Uproc_pgTable a s) = fn_addr s \<and>
   delayds (init_Uproc_pgTable a s) = delayds s \<and> delayd_h (init_Uproc_pgTable a s) = delayd_h s \<and>
   delaydFree_h (init_Uproc_pgTable a s) = delaydFree_h s \<and>
   (\<forall>b. b \<noteq> a \<longrightarrow> supports (init_Uproc_pgTable a s) b = supports s b) \<and>
   asid a (init_Uproc_pgTable a s) = asid a s \<and> sup_exceptContext (supports (init_Uproc_pgTable a s) a) = sup_exceptContext (supports s a)"
proof -
  let ?F = "\<lambda>g h xs. fold (\<lambda>i (s :: 'a supstate_scheme). upd_pte a i (g i s) (upd_pte a i (h i s) s)) xs"
  have 1: "swapPoolTable (?F g h xs t) = swapPoolTable t \<and> nextFrame (?F g h xs t) = nextFrame t \<and>
     states (?F g h xs t) = states t \<and> mem (?F g h xs t) = mem t \<and> fn_addr (?F g h xs t) = fn_addr t \<and>
     delayds (?F g h xs t) = delayds t \<and> delayd_h (?F g h xs t) = delayd_h t \<and> delaydFree_h (?F g h xs t) = delaydFree_h t \<and>
     asid a (?F g h xs t) = asid a t \<and> sup_exceptContext (supports (?F g h xs t) a) = sup_exceptContext (supports t a)" for g h xs t
    by (induction xs arbitrary: t) simp_all
  have 2: "b \<noteq> a \<Longrightarrow> supports (?F g h xs t) b = supports t b" for g h xs t b
    by (induction xs arbitrary: t) simp_all
  show ?thesis unfolding init_Uproc_pgTable_def Let_def
    using 1 [of _ _ "[0..<PAGE_TABLE_SIZE]" s] 2 [of _ _ _ "[0..<PAGE_TABLE_SIZE]" s] by simp
qed

lemma init_Uproc_calls:
  "\<exists>s'. init_Uproc K frame a n s = K 1 frame a 0 s' \<and> user_ready frame a n s' \<and>
     swapPoolTable s' = swapPoolTable s \<and> nextFrame s' = nextFrame s \<and> (\<forall>b. b \<noteq> a \<longrightarrow> supports s' b = supports s b) \<and>
     delayds s' = delayds s \<and> delayd_h s' = delayd_h s \<and> delaydFree_h s' = delaydFree_h s"
proof -
  let ?s1 = "s\<lparr>states := (states s)(frame :=
         set_reg R_sp UPROCSTACK (set_reg R_t9 UPROCSTARTADDR ((states s frame)\<lparr>s_pc := UPROCSTARTADDR,
           s_status := ((IEPBITON OR TEBITON) OR IPBITS) OR KUPBITON, s_entryHI := push_bit ASID_SHIFT n\<rparr>)))\<rparr>"
  let ?s2 = "upd_support a (sup_exceptContext_update (\<lambda>c. c(
         PGFAULTEXCEPT := \<lparr>c_stackPtr = sup_stackTlb a TLB_STACK_AREA,
           c_status = ((IEPBITON OR TEBITON) OR IPBITS) AND KUPBITOFF, c_pc = fn_addr s ''TLB_exception_handler''\<rparr>,
         GENERALEXCEPT := \<lparr>c_stackPtr = sup_stackGen a GEN_EXC_STACK_AREA,
           c_status = ((IEPBITON OR TEBITON) OR IPBITS) AND KUPBITOFF, c_pc = fn_addr s ''general_exception_handler''\<rparr>)))
       (upd_support a (sup_asid_update (\<lambda>_. n)) ?s1)"
  let ?s3 = "poke (delaySem a) 0 ?s2"
  let ?s4 = "init_Uproc_pgTable a ?s3"
  have e: "init_Uproc K frame a n s = K 1 frame a 0 ?s4" by (simp add: init_Uproc_def Let_def)
  have ne: "PGFAULTEXCEPT \<noteq> GENERALEXCEPT" by (simp add: PGFAULTEXCEPT_def GENERALEXCEPT_def)
  note i = init_pgTable_same [of a ?s3]
  have a3: "asid a ?s3 = n" by (simp add: poke_def)
  have "\<forall>i<32. pgTbl a i ?s4 = fresh_pte n i" using init_pgTable_entry [of _ a ?s3] unfolding a3 by blast
  then have "user_ready frame a n ?s4" using i a3 ne by (simp add: user_ready_def poke_def set_reg_def)
  moreover have "swapPoolTable ?s4 = swapPoolTable s" "nextFrame ?s4 = nextFrame s" "\<forall>b. b \<noteq> a \<longrightarrow> supports ?s4 b = supports s b"
    "delayds ?s4 = delayds s" "delayd_h ?s4 = delayd_h s" "delaydFree_h ?s4 = delaydFree_h s"
    using i by (simp_all add: poke_def)
  ultimately show ?thesis using e by blast
qed

text \<open>A process with fresh page table joins those the pager knows.\<close>

lemma vm_inv_join:
  assumes inv: "vm_inv A s" and n: "1 \<le> unat (asid a s)" "unat (asid a s) \<le> 8" and fresh: "\<forall>i<32. \<not> present a i s"
  shows "vm_inv (insert a A) s"
proof -
  note d = vm_invD [OF inv]
  show ?thesis unfolding vm_inv_def using d(1-4) n fresh by (auto 0 4)
qed

section \<open>The steps of the first process\<close>

lemma mutexes_free:
  "same_boot t (fold (\<lambda>i s. poke (mutex (of_nat i) s) 1 s) xs s) = same_boot t s"
  by (induction xs arbitrary: s) simp_all

lemma initSwapStruct_fields:
  "f < 32 \<Longrightarrow> free_frame (initSwapStruct s) f" "nextFrame (initSwapStruct s) = nextFrame s"
  "devregs (initSwapStruct s) = devregs s"
proof -
  have 1: "swapPoolTable (fold (\<lambda>i. upd_frame i (\<lambda>f. f\<lparr>sw_ASID := -1, sw_VPN := -1, matchingPgTableEntry := None\<rparr>)) xs s) f =
      (if f \<in> set xs then free_entry else swapPoolTable s f)" for xs and s :: "'a supstate_scheme" and f
    by (induction xs arbitrary: s) (auto simp: upd_frame_def intro!: swapPoolFrame_t.equality)
  have 2: "nextFrame (fold (\<lambda>i. upd_frame i (\<lambda>f. f\<lparr>sw_ASID := -1, sw_VPN := -1, matchingPgTableEntry := None\<rparr>)) xs s) = nextFrame s \<and>
      devregs (fold (\<lambda>i. upd_frame i (\<lambda>f. f\<lparr>sw_ASID := -1, sw_VPN := -1, matchingPgTableEntry := None\<rparr>)) xs s) = devregs s"
    for xs and s :: "'a supstate_scheme"
    by (induction xs arbitrary: s) (simp_all add: upd_frame_def)
  show "f < 32 \<Longrightarrow> free_frame (initSwapStruct s) f" "nextFrame (initSwapStruct s) = nextFrame s"
    "devregs (initSwapStruct s) = devregs s"
    by (simp_all add: initSwapStruct_def Let_def poke_def 1 2 SWAP_POOL_SIZE_def)
qed

lemma backing_store_returns:
  assumes K: "boot_calls K" and d: "disk_ok s"
  shows "\<exists>s'. set_up_backing_store K s = Some s' \<and> same_boot s s'"
proof -
  let ?m = "mutex (devSemIdx DISKINT RESERVED_DISK_NO FALSE)"
  let ?pages = "[(of_nat devNo, of_nat pageNo). devNo \<leftarrow> [0..<UPROC_NUM], pageNo \<leftarrow> [0..<PAGE_TABLE_SIZE]] :: (u32 \<times> u32) list"
  obtain r1 s1 where s1: "K PASSERN (?m s) 0 0 s = Some (r1, s1)" "same_boot s s1" using boot_callsD(1) [OF K] by blast
  have "disk_ok s1" using d s1(2) by (simp add: same_boot_def disk_ok_def)
  moreover have "\<forall>(d, p)\<in>set ?pages. sint p \<le> 32 \<and> sint (32 * d + p) \<le> 255" by code_simp
  ultimately obtain s2 where s2: "store_pages K ?pages s1 = Some s2" "same_boot s1 s2" using store_pages_returns [OF K] by blast
  obtain r3 s3 where s3: "K VERHO (?m s2) 0 0 s2 = Some (r3, s3)" "same_boot s2 s3" using boot_callsD(1) [OF K] by blast
  have "same_boot s s3" using same_boot_trans [OF s1(2) same_boot_trans [OF s2(2) s3(2)]] .
  then show ?thesis using s1(1) s2(1) s3(1) by (simp add: set_up_backing_store_def Let_def)
qed

text \<open>Up to the creation of the user process.\<close>

lemma test_creates:
  assumes K: "boot_calls K" and d: "disk_ok s" and n: "unat (nextFrame s) < 32"
  shows "\<exists>s1 r s2 ds fl. user_ready frame arr 1 s1 \<and> vm_inv {arr} s1 \<and> adl s1 0 ds 1 fl \<and> K 1 frame arr 0 s1 = Some (r, s2) \<and> r \<noteq> -1 \<and>
     vm_inv {arr} s2 \<and> asid arr s2 = 1 \<and> (\<exists>ds fl. adl s2 0 ds 1 fl) \<and>
     test K daemon_frame frame arr s = do {
       s \<leftarrow> await_procs K [1..<UPROC_NUM + 1] s2;
       (_, s) \<leftarrow> K TERMINATETHREAD 0 0 0 s;
       Some s }"
proof -
  let ?a = "fold (\<lambda>i s. poke (mutex (of_nat i) s) 1 s) [0..<DEVINTNUM * DEVPERINT + DEVPERINT] s"
  let ?b = "initSwapStruct ?a"
  have "same_boot s ?a" by (simp only: mutexes_free same_boot_assign)
  then have b: "disk_ok ?b" "unat (nextFrame ?b) < 32"
    using d n by (simp_all add: disk_ok_def same_boot_def initSwapStruct_fields del: upt_Suc)
  obtain c where c: "set_up_backing_store K ?b = Some c" "same_boot ?b c" using backing_store_returns [OF K b(1)] by blast
  have "vm_inv {} ?b" unfolding vm_inv_def using b(2) initSwapStruct_fields(1) [of _ ?a] by blast
  moreover have "vm_inv {} (fork daemon_frame (adl_ready c)) = vm_inv {} ?b"
    using c(2) by (intro vm_inv_cong) (simp_all add: same_boot_def fork_def adl_ready_def poke_def)
  ultimately have v: "vm_inv {} (fork daemon_frame (adl_ready c))" by simp
  have "adl (fork daemon_frame (adl_ready c)) 0 [] 1 [2..<MAXPROC + 2]" using adl_adl_ready [of c] by (simp add: adl_def fork_def)
  from boot_callsD(2) [OF K _ v this, where f = daemon_frame and a = NULL] obtain r e ds fl where
    e: "K 1 daemon_frame NULL 0 (fork daemon_frame (adl_ready c)) = Some (r, e)" "vm_inv {} e" "adl e 0 ds 1 fl" by blast
  then have i: "initADL K daemon_frame c = Some e" by (simp add: initADL_eval)
  obtain g where g: "init_Uproc K frame arr 1 e = K 1 frame arr 0 g" "user_ready frame arr 1 g"
      "swapPoolTable g = swapPoolTable e" "nextFrame g = nextFrame e"
      "delayds g = delayds e" "delayd_h g = delayd_h e" "delaydFree_h g = delaydFree_h e"
    using init_Uproc_calls by metis
  have "vm_inv {} g" using e(2) vm_inv_cong [OF g(3,4), where A = "{}"] by simp
  moreover have "asid arr g = 1" "\<forall>i<32. \<not> present arr i g" using g(2) absent_pte by (simp_all add: user_ready_def fresh_pte_def)
  ultimately have w: "vm_inv {arr} g" using vm_inv_join [of "{}" g arr] by simp
  have l: "adl g 0 ds 1 fl" using e(3) g(5-7) by (simp add: adl_def)
  from boot_callsD(2) [OF K _ w l, where f = frame and a = arr] obtain r2 s2 ds2 fl2 where
    s2: "K 1 frame arr 0 g = Some (r2, s2)" "r2 \<noteq> -1" "vm_inv {arr} s2" "adl s2 0 ds2 1 fl2" "\<forall>b. asid b s2 = asid b g" by blast
  have p: "[1..<UPROC_NUM + 1] = [1]" by (simp add: UPROC_NUM_def)
  have "test K daemon_frame frame arr s = do {
       s \<leftarrow> await_procs K [1..<UPROC_NUM + 1] s2;
       (_, s) \<leftarrow> K TERMINATETHREAD 0 0 0 s;
       Some s }"
    unfolding test_def p using c(1) i g(1) s2(1,2) by (simp add: Let_def)
  then show ?thesis using g(2) w l s2 \<open>asid arr g = 1\<close> by metis
qed

end
