(* ===== verification/Props_Startup.thy ===== *)
theory Props_Startup
  imports Props_Support Startup
begin

text \<open>
  The property of the first process, which brings the parts of the support level together.
\<close>


lemma calm_boots: "boot_calls (calm me)"
proof -
  have "READY \<noteq> -1" by (simp add: READY_def)
  moreover have "(1 :: u32) \<noteq> SUPPORTGET" by (simp add: SUPPORTGET_def)
  ultimately show ?thesis
    unfolding boot_calls_def calm_def by (auto simp: PASSERN_def VERHO_def IOWAIT_def SUPPORTGET_def)
qed


end
