(* ===== verification/P2test.thy ===== *)
theory P2test
  imports Support P1test
begin

text \<open>
  \<^verbatim>\<open>phase2/p2test.c\<close>: the test program of the nucleus, whose root process is \<open>p2_root\<close> (\<^verbatim>\<open>test\<close> in the code). Its
  functions are the programs of thirteen processes and of two exception handlers. As at the support level
  \<open>K\<close> stands for \<^verbatim>\<open>SYSCALL\<close>. A load or store that the hardware may refuse is a parameter as well
  (\<open>L\<close>, \<open>W\<close>), with the value \<open>None\<close> if control does not get behind it.

  A function has the result \<open>Some (None, s)\<close> if it returns and \<open>Some (Some e, s)\<close> if it leaves by
  \<^verbatim>\<open>PANIC\<close> or \<^verbatim>\<open>LDST\<close>. The statements of a function are the list of a \<open>block\<close>.
\<close>

section \<open>State\<close>

text \<open>Semaphores, processor states and the support structure of \<open>p5\<close> are at the addresses that \<open>var_addr\<close> gives
  their names. \<open>cpu n\<close> is the state of the processor when it is stored for the \<open>n\<close>-th time.\<close>

record p2mem = supstate +
  var_addr :: "string \<Rightarrow> u32"
  p1p2synch :: u32
  p8inc :: u32
  p4inc :: u32
  p5Stack :: u32
  creation :: u32
  p5MemLocation :: u32
  cpu :: "nat \<Rightarrow> state_t"
  cpu_reads :: nat

type_synonym 's loads = "u32 \<Rightarrow> 's \<Rightarrow> (u32 \<times> 's) option"
type_synonym 's stores = "u32 \<Rightarrow> u32 \<Rightarrow> 's \<Rightarrow> 's option"

definition BYTELEN :: nat where "BYTELEN = 8"
definition RECVD :: u32 where "RECVD = 5"
definition TERMSTATMASK :: u32 where "TERMSTATMASK = 0xFF"
definition CAUSEMASK :: u32 where "CAUSEMASK = 0xFF"
definition BUSERROR :: u32 where "BUSERROR = 6"
definition RESVINSTR :: u32 where "RESVINSTR = 10"
definition ADDRERROR :: u32 where "ADDRERROR = 4"
definition SYSCALLEXCPT :: u32 where "SYSCALLEXCPT = 8"
definition QPAGE :: u32 where "QPAGE = 1024"
definition CAUSEINTMASK :: u32 where "CAUSEINTMASK = 0xFD00"
definition MINLOOPTIME :: u32 where "MINLOOPTIME = 30000"
definition CLOCKLOOP :: nat where "CLOCKLOOP = 10"
definition MINCLOCKLOOP :: u32 where "MINCLOCKLOOP = 3000"
definition BADADDR :: u32 where "BADADDR = 0xFFFFFFFF"
definition TERM0ADDR :: u32 where "TERM0ADDR = 0x10000254"
definition NOLEAVES :: nat where "NOLEAVES = 4"
definition MAXSEM :: nat where "MAXSEM = 20"

text \<open>The numbers of the system calls that \<^verbatim>\<open>h/const.h\<close> has no name for.\<close>

definition CREATETHREAD :: u32 where "CREATETHREAD = 1"
definition GETCPU :: u32 where "GETCPU = 6"
definition CLOCKWAIT :: u32 where "CLOCKWAIT = 7"

text \<open>\<open>&s[i]\<close>, and the values that the globals start with.\<close>

definition s_sem :: "nat \<Rightarrow> 'a p2mem_scheme \<Rightarrow> u32" where
  "s_sem i s = var_addr s ''s'' + 4 * of_nat i"

definition p2_globals :: "'a p2mem_scheme \<Rightarrow> 'a p2mem_scheme" where
  "p2_globals s =
     (let s = fold (\<lambda>x s. poke (var_addr s x) 0 s)
           [''testsem'', ''startp2'', ''endp2'', ''endp3'', ''synp4'', ''endp4'', ''endp5'', ''endp8'', ''endcreate'', ''blkp8''] s;
          s = fold (\<lambda>i s. poke (s_sem i s) 0 s) [0..<Suc MAXSEM] s;
          s = poke (var_addr s ''blkp4'') 1 (poke (var_addr s ''term_mut'') 1 s)
      in s\<lparr>p1p2synch := 0, p8inc := 0, p4inc := 1, p5Stack := 0, creation := 0, p5MemLocation := 0\<rparr>)"

section \<open>Statements\<close>

fun block :: "('s \<Rightarrow> 's outcome) list \<Rightarrow> 's \<Rightarrow> 's outcome" where
  "block [] s = Some (None, s)"
| "block (c # cs) s = do { (e, s) \<leftarrow> c s; if e = None then block cs s else Some (e, s) }"

definition assign :: "('s \<Rightarrow> 's) \<Rightarrow> 's \<Rightarrow> 's outcome" where
  "assign f s = Some (None, f s)"

definition panic :: "'s \<Rightarrow> 's outcome" where
  "panic s = Some (Some PANIC, s)"

definition syscall :: "'s calls \<Rightarrow> u32 \<Rightarrow> ('s \<Rightarrow> u32) \<Rightarrow> u32 \<Rightarrow> 's \<Rightarrow> 's outcome" where
  "syscall K n a1 a2 s = do { (_, s) \<leftarrow> K n (a1 s) a2 0 s; Some (None, s) }"

definition P_sem :: "'a p2mem_scheme calls \<Rightarrow> string \<Rightarrow> 'a p2mem_scheme \<Rightarrow> 'a p2mem_scheme outcome" where
  "P_sem K x = syscall K PASSERN (\<lambda>s. var_addr s x) 0"

definition V_sem :: "'a p2mem_scheme calls \<Rightarrow> string \<Rightarrow> 'a p2mem_scheme \<Rightarrow> 'a p2mem_scheme outcome" where
  "V_sem K x = syscall K VERHO (\<lambda>s. var_addr s x) 0"

definition start :: "'a p2mem_scheme calls \<Rightarrow> string \<Rightarrow> u32 \<Rightarrow> 'a p2mem_scheme \<Rightarrow> 'a p2mem_scheme outcome" where
  "start K x spt = syscall K CREATETHREAD (\<lambda>s. var_addr s x) spt"

definition finish :: "'s calls \<Rightarrow> 's \<Rightarrow> 's outcome" where
  "finish K = syscall K TERMINATETHREAD (\<lambda>_. 0) 0"

text \<open>A store to \<open>a\<close>.\<close>

definition store_word :: "'s stores \<Rightarrow> u32 \<Rightarrow> u32 \<Rightarrow> 's \<Rightarrow> 's outcome" where
  "store_word W a v s = do { s \<leftarrow> W a v s; Some (None, s) }"

section \<open>Printing and the refill handler\<close>

fun print_chars :: "'a p2mem_scheme calls \<Rightarrow> string \<Rightarrow> 'a p2mem_scheme \<Rightarrow> 'a p2mem_scheme outcome" where
  "print_chars K [] s = Some (None, s)"
| "print_chars K (c # msg) s = do {
     let s = upd_dev TERM0ADDR (t_transm_command_update
         (\<lambda>_. PRINTCHR OR push_bit BYTELEN (scast (of_char c :: 8 word)))) s;
     (status, s) \<leftarrow> K IOWAIT TERMINT 0 0 s;
     if status AND TERMSTATMASK \<noteq> RECVD then panic s else print_chars K msg s
   }"

definition print :: "'a p2mem_scheme calls \<Rightarrow> string \<Rightarrow> 'a p2mem_scheme \<Rightarrow> 'a p2mem_scheme outcome" where
  "print K msg = block [P_sem K ''term_mut'', print_chars K msg, V_sem K ''term_mut'']"

definition p2_uTLB_RefillHandler :: "'a p2mem_scheme \<Rightarrow> 'a p2mem_scheme outcome" where
  "p2_uTLB_RefillHandler s =
     (let s = s\<lparr>cp0_EntryHi := 0x80000000\<rparr>;
          s = s\<lparr>cp0_EntryLo := 0x00000000\<rparr>;
          s = TLBWR s
      in Some (Some (LDST (states s 0x0FFFF000)), s))"

section \<open>The processes\<close>

definition min_time :: "u32 \<Rightarrow> 'a p2mem_scheme \<Rightarrow> u32 option" where
  "min_time n s = (if mem s TIMESCALEADDR = 0 then None else Some (cdiv n (mem s TIMESCALEADDR)))"

text \<open>V, then P.\<close>

definition p2_pair :: "'a p2mem_scheme calls \<Rightarrow> nat \<Rightarrow> 'a p2mem_scheme \<Rightarrow> 'a p2mem_scheme outcome" where
  "p2_pair K i = block [
     syscall K VERHO (s_sem i) 0,
     syscall K PASSERN (s_sem i) 0,
     \<lambda>s. if mem s (s_sem i s) \<noteq> 0 then print K (line ''error: p2 bad v/p pairs'') s else Some (None, s)]"

definition p2_blew :: "'a p2mem_scheme calls \<Rightarrow> u32 \<Rightarrow> u32 \<Rightarrow> 'a p2mem_scheme \<Rightarrow> 'a p2mem_scheme outcome" where
  "p2_blew K real used = block [
     \<lambda>s. if sint real < sint used then print K (line ''error: more cpu time than real time'') s else Some (None, s),
     \<lambda>s. do {
       m \<leftarrow> min_time MINLOOPTIME s;
       if sint used < sint m then print K (line ''error: not enough cpu time went by'') s else Some (None, s) },
     print K (line ''p2 blew it!'')]"

text \<open>The real time and the processor time between two readings of both clocks. The loop between the two calls only
  takes time.\<close>

definition p2_readings :: "'a p2mem_scheme calls \<Rightarrow> 'a p2mem_scheme \<Rightarrow> (u32 \<times> u32 \<times> 'a p2mem_scheme) option" where
  "p2_readings K s = do {
     (now1, s) \<leftarrow> STCK s;
     (cpu_t1, s) \<leftarrow> K GETCPU 0 0 0 s;
     (cpu_t2, s) \<leftarrow> K GETCPU 0 0 0 s;
     (now2, s) \<leftarrow> STCK s;
     Some (now2 - now1, cpu_t2 - cpu_t1, s)
   }"

definition p2_times :: "'a p2mem_scheme calls \<Rightarrow> 'a p2mem_scheme \<Rightarrow> 'a p2mem_scheme outcome" where
  "p2_times K s = do {
     (real, used, s) \<leftarrow> p2_readings K s;
     if sint real \<ge> sint used then do {
       m \<leftarrow> min_time MINLOOPTIME s;
       if sint used \<ge> sint m then print K (line ''p2 is OK'') s else p2_blew K real used s }
     else p2_blew K real used s
   }"

definition p2 :: "'a p2mem_scheme calls \<Rightarrow> 'a p2mem_scheme \<Rightarrow> 'a p2mem_scheme outcome" where
  "p2 K = block [
     P_sem K ''startp2'',
     print K (line ''p2 starts''),
     assign (fold (\<lambda>i s. poke (s_sem i s) 0 s) [0..<Suc MAXSEM]),
     block (map (p2_pair K) [0..<Suc MAXSEM]),
     print K (line ''p2 v's successfully''),
     p2_times K,
     assign (\<lambda>s. s\<lparr>p1p2synch := 1\<rparr>),
     V_sem K ''endp2'',
     finish K,
     print K (line ''error: p2 didn't terminate''),
     panic]"

text \<open>The loop that \<open>p3\<close> and \<open>p5b\<close> share, which compares unsigned numbers.\<close>

partial_function (option) half_interval ::
    "'a p2mem_scheme calls \<Rightarrow> u32 \<Rightarrow> u32 \<Rightarrow> 'a p2mem_scheme \<Rightarrow> 'a p2mem_scheme outcome" where
  "half_interval K time1 time2 s =
     (if time2 - time1 < drop_bit 1 CLOCKINTERVAL then do {
        (time1, s) \<leftarrow> STCK s;
        (_, s) \<leftarrow> K CLOCKWAIT 0 0 0 s;
        (time2, s) \<leftarrow> STCK s;
        half_interval K time1 time2 s }
      else Some (None, s))"

definition p3_times :: "'a p2mem_scheme calls \<Rightarrow> 'a p2mem_scheme \<Rightarrow> 'a p2mem_scheme outcome" where
  "p3_times K s = do {
     (cpu_t1, s) \<leftarrow> K GETCPU 0 0 0 s;
     (_, s) \<leftarrow> block (replicate CLOCKLOOP (syscall K CLOCKWAIT (\<lambda>_. 0) 0)) s;
     (cpu_t2, s) \<leftarrow> K GETCPU 0 0 0 s;
     m \<leftarrow> min_time MINCLOCKLOOP s;
     if sint (cpu_t2 - cpu_t1) < sint m then print K (line ''error: p3 - CPU time incorrectly maintained'') s
     else print K (line ''p3 - CPU time correctly maintained'') s
   }"

definition p3 :: "'a p2mem_scheme calls \<Rightarrow> 'a p2mem_scheme \<Rightarrow> 'a p2mem_scheme outcome" where
  "p3 K = block [
     half_interval K 0 0,
     print K (line ''p3 - WAITCLOCK OK''),
     p3_times K,
     V_sem K ''endp3'',
     finish K,
     print K (line ''error: p3 didn't terminate''),
     panic]"

definition p4_starts :: "'a p2mem_scheme calls \<Rightarrow> 'a p2mem_scheme \<Rightarrow> 'a p2mem_scheme outcome" where
  "p4_starts K s =
     (if p4inc s = 1 then
        block [print K (line ''first incarnation of p4 starts''), assign (\<lambda>s. s\<lparr>p4inc := p4inc s + 1\<rparr>)] s
      else if p4inc s = 2 then print K (line ''second incarnation of p4 starts'') s
      else Some (None, s))"

definition upd_state :: "string \<Rightarrow> (state_t \<Rightarrow> state_t) \<Rightarrow> 'a p2mem_scheme \<Rightarrow> 'a p2mem_scheme" where
  "upd_state x f s = s\<lparr>states := (states s)(var_addr s x := f (states s (var_addr s x)))\<rparr>"

definition sp_of :: "string \<Rightarrow> 'a p2mem_scheme \<Rightarrow> u32" where
  "sp_of x s = s_reg (states s (var_addr s x)) R_sp"

definition p4 :: "'a p2mem_scheme calls \<Rightarrow> 'a p2mem_scheme \<Rightarrow> 'a p2mem_scheme outcome" where
  "p4 K = block [
     p4_starts K,
     V_sem K ''synp4'',
     P_sem K ''blkp4'',
     P_sem K ''synp4'',
     assign (\<lambda>s. upd_state ''p4state'' (set_reg R_sp (sp_of ''p4state'' s - QPAGE)) s),
     start K ''p4state'' 0,
     P_sem K ''synp4'',
     print K (line ''p4 is OK''),
     V_sem K ''endp4'',
     finish K,
     print K (line ''error: p4 didn't terminate''),
     panic]"

section \<open>The process with a support structure\<close>

definition exc5 :: "nat \<Rightarrow> 'a p2mem_scheme \<Rightarrow> state_t" where
  "exc5 n s = sup_exceptState (supports s (var_addr s ''pFiveSupport'')) n"

definition upd_exc5 :: "nat \<Rightarrow> (state_t \<Rightarrow> state_t) \<Rightarrow> 'a p2mem_scheme \<Rightarrow> 'a p2mem_scheme" where
  "upd_exc5 n f s = upd_support (var_addr s ''pFiveSupport'') (\<lambda>sp. sp\<lparr>sup_exceptState :=
     (sup_exceptState sp)(n := f (sup_exceptState sp n))\<rparr>) s"

definition go_on :: "nat \<Rightarrow> string \<Rightarrow> 'a p2mem_scheme \<Rightarrow> 'a p2mem_scheme" where
  "go_on n f s = (let s = upd_exc5 n (\<lambda>st. st\<lparr>s_pc := fn_addr s f\<rparr>) s
                  in upd_exc5 n (set_reg R_t9 (fn_addr s f)) s)"

definition p5sys :: "'a p2mem_scheme calls \<Rightarrow> 'a p2mem_scheme \<Rightarrow> 'a p2mem_scheme outcome" where
  "p5sys K s =
     (let p5status = drop_bit 31 (push_bit 28 (s_status (exc5 GENERALEXCEPT s)))
      in block [
        if p5status = 1 then print K (line ''High level SYS call from user mode process'')
        else if p5status = 0 then print K (line ''High level SYS call from kernel mode process'')
        else block [],
        assign (upd_exc5 GENERALEXCEPT (\<lambda>st. st\<lparr>s_pc := s_pc st + 4\<rparr>)),
        \<lambda>s. Some (Some (LDST (exc5 GENERALEXCEPT s)), s)] s)"

definition p5gen :: "'a p2mem_scheme calls \<Rightarrow> 'a p2mem_scheme \<Rightarrow> 'a p2mem_scheme outcome" where
  "p5gen K s =
     (let exeCode = drop_bit 2 (s_cause (exc5 GENERALEXCEPT s) AND CAUSEMASK);
          kernel_mode = upd_exc5 GENERALEXCEPT (\<lambda>st. st\<lparr>s_status := s_status st AND KUPBITOFF\<rparr>)
      in block [
        if exeCode = BUSERROR then
          block [print K (line ''Bus Error: Access non-existent memory''), assign (go_on GENERALEXCEPT ''p5a'')]
        else if exeCode = RESVINSTR then
          block [print K (line ''privileged instruction''), assign (\<lambda>s. kernel_mode (go_on GENERALEXCEPT ''p5b'' s))]
        else if exeCode = ADDRERROR then
          block [print K (line ''Address Error: non-kuseg access w/KU=1''), assign (\<lambda>s. kernel_mode (go_on GENERALEXCEPT ''p5b'' s))]
        else if exeCode = SYSCALLEXCPT then p5sys K
        else print K (line ''other program trap''),
        \<lambda>s. Some (Some (LDST (exc5 GENERALEXCEPT s)), s)] s)"

definition p5mm :: "'a p2mem_scheme calls \<Rightarrow> 'a p2mem_scheme \<Rightarrow> 'a p2mem_scheme outcome" where
  "p5mm K = block [
     print K (line ''memory management trap''),
     \<lambda>s. do {
       (pFiveSupAddr, s) \<leftarrow> K SUPPORTGET 0 0 0 s;
       if pFiveSupAddr \<noteq> var_addr s ''pFiveSupport'' then print K (line ''Support Structure Address Error'') s
       else print K (line ''Correct Support Structure Address'') s },
     assign (upd_exc5 PGFAULTEXCEPT (\<lambda>st. st\<lparr>s_status := s_status st OR KUPBITON\<rparr>)),
     assign (go_on PGFAULTEXCEPT ''p5b''),
     \<lambda>s. Some (Some (LDST (exc5 PGFAULTEXCEPT s)), s)]"

definition p5 :: "'a p2mem_scheme calls \<Rightarrow> 'a p2mem_scheme loads \<Rightarrow> 'a p2mem_scheme stores \<Rightarrow>
    'a p2mem_scheme \<Rightarrow> 'a p2mem_scheme outcome" where
  "p5 K L W = block [
     print K (line ''p5 starts''),
     \<lambda>s. do { (v, s) \<leftarrow> L (p5MemLocation s) s; store_word W (p5MemLocation s) (v + 1) s }]"

definition p5a :: "'a p2mem_scheme stores \<Rightarrow> 'a p2mem_scheme \<Rightarrow> 'a p2mem_scheme outcome" where
  "p5a W = block [
     assign (\<lambda>s. s\<lparr>p5MemLocation := 0x80000000\<rparr>),
     \<lambda>s. store_word W (p5MemLocation s) 42 s]"

definition p5b :: "'a p2mem_scheme calls \<Rightarrow> 'a p2mem_scheme \<Rightarrow> 'a p2mem_scheme outcome" where
  "p5b K = block [
     syscall K 9 (\<lambda>_. 0) 0,
     P_sem K ''endp4'',
     half_interval K 0 0,
     V_sem K ''blkp4'',
     V_sem K ''endp5'',
     finish K,
     print K (line ''error: p5 didn't terminate''),
     panic]"

section \<open>Processes without a support structure, and the tree\<close>

definition p6 :: "'a p2mem_scheme calls \<Rightarrow> 'a p2mem_scheme \<Rightarrow> 'a p2mem_scheme outcome" where
  "p6 K = block [
     print K (line ''p6 starts''),
     syscall K 9 (\<lambda>_. 0) 0,
     print K (line ''error: p6 alive after SYS9() with no trap vector''),
     panic]"

definition p7 :: "'a p2mem_scheme calls \<Rightarrow> 'a p2mem_scheme stores \<Rightarrow> 'a p2mem_scheme \<Rightarrow> 'a p2mem_scheme outcome" where
  "p7 K W = block [
     print K (line ''p7 starts''),
     store_word W BADADDR 0,
     print K (line ''error: p7 alive after program trap with no trap vector''),
     panic]"

definition p8root :: "'a p2mem_scheme calls \<Rightarrow> 'a p2mem_scheme \<Rightarrow> 'a p2mem_scheme outcome" where
  "p8root K = block [
     print K (line ''p8root starts''),
     start K ''child1state'' NULL,
     start K ''child2state'' NULL,
     block (replicate NOLEAVES (P_sem K ''endcreate'')),
     V_sem K ''endp8'',
     finish K]"

definition child1 :: "'a p2mem_scheme calls \<Rightarrow> 'a p2mem_scheme \<Rightarrow> 'a p2mem_scheme outcome" where
  "child1 K = block [
     print K (line ''child1 starts''),
     start K ''gchild1state'' NULL,
     start K ''gchild2state'' NULL,
     P_sem K ''blkp8'']"

definition child2 :: "'a p2mem_scheme calls \<Rightarrow> 'a p2mem_scheme \<Rightarrow> 'a p2mem_scheme outcome" where
  "child2 K = block [
     print K (line ''child2 starts''),
     start K ''gchild3state'' NULL,
     start K ''gchild4state'' NULL,
     P_sem K ''blkp8'']"

definition p8leaf :: "'a p2mem_scheme calls \<Rightarrow> 'a p2mem_scheme \<Rightarrow> 'a p2mem_scheme outcome" where
  "p8leaf K = block [
     print K (line ''leaf process starts''),
     V_sem K ''endcreate'',
     P_sem K ''blkp8'']"

section \<open>The root process\<close>

definition STST :: "string \<Rightarrow> 'a p2mem_scheme \<Rightarrow> 'a p2mem_scheme" where
  "STST x s = upd_state x (\<lambda>_. cpu s (cpu_reads s)) (s\<lparr>cpu_reads := Suc (cpu_reads s)\<rparr>)"

text \<open>The four statements that set up the state \<open>x\<close> of a process that runs \<open>f\<close>, with its stack \<open>n\<close> bytes below
  that of \<open>y\<close>.\<close>

definition set_up :: "string \<Rightarrow> string \<Rightarrow> u32 \<Rightarrow> string \<Rightarrow> 'a p2mem_scheme \<Rightarrow> 'a p2mem_scheme" where
  "set_up x y n f s =
     (let s = STST x s;
          s = upd_state x (set_reg R_sp (sp_of y s - n)) s;
          s = upd_state x (set_reg R_t9 (fn_addr s f)) s;
          s = upd_state x (\<lambda>st. st\<lparr>s_pc := fn_addr s f\<rparr>) s
      in upd_state x (\<lambda>st. st\<lparr>s_status := s_status st OR IEPBITON OR CAUSEINTMASK OR TEBITON\<rparr>) s)"

definition p2_states :: "'a p2mem_scheme \<Rightarrow> 'a p2mem_scheme" where
  "p2_states s =
     (let s = set_up ''p2state'' ''p2state'' QPAGE ''p2'' s;
          s = set_up ''p3state'' ''p2state'' QPAGE ''p3'' s;
          s = set_up ''p4state'' ''p3state'' QPAGE ''p4'' s;
          s = set_up ''p5state'' ''p4state'' (2 * QPAGE) ''p5'' s;
          s = s\<lparr>p5Stack := sp_of ''p5state'' s\<rparr>;
          s = set_up ''p6state'' ''p5state'' (2 * QPAGE) ''p6'' s;
          s = set_up ''p7state'' ''p6state'' QPAGE ''p7'' s;
          s = set_up ''p8rootstate'' ''p7state'' QPAGE ''p8root'' s;
          s = set_up ''child1state'' ''p8rootstate'' QPAGE ''child1'' s;
          s = set_up ''child2state'' ''child1state'' QPAGE ''child2'' s;
          s = set_up ''gchild1state'' ''child2state'' QPAGE ''p8leaf'' s;
          s = set_up ''gchild2state'' ''gchild1state'' QPAGE ''p8leaf'' s;
          s = set_up ''gchild3state'' ''gchild2state'' QPAGE ''p8leaf'' s
      in set_up ''gchild4state'' ''gchild3state'' QPAGE ''p8leaf'' s)"

definition set_context :: "nat \<Rightarrow> string \<Rightarrow> 'a p2mem_scheme \<Rightarrow> 'a p2mem_scheme" where
  "set_context n f s = upd_support (var_addr s ''pFiveSupport'') (\<lambda>sp. sp\<lparr>sup_exceptContext :=
     (sup_exceptContext sp)(n := \<lparr>c_stackPtr = p5Stack s, c_status = IEPBITON OR CAUSEINTMASK OR TEBITON,
        c_pc = fn_addr s f\<rparr>)\<rparr>) s"

partial_function (option) p8_loop :: "'a p2mem_scheme calls \<Rightarrow> 'a p2mem_scheme \<Rightarrow> 'a p2mem_scheme outcome" where
  "p8_loop K s =
     (if sint (p8inc s) < 4 then do {
        (c, s) \<leftarrow> K CREATETHREAD (var_addr s ''p8rootstate'') NULL 0 s;
        let s = s\<lparr>creation := c\<rparr>;
        if creation s = -1 then block [print K (line ''error in process termination''), panic] s
        else do {
          (_, s) \<leftarrow> K PASSERN (var_addr s ''endp8'') 0 0 s;
          p8_loop K (s\<lparr>p8inc := p8inc s + 1\<rparr>) } }
      else Some (None, s))"

definition p2_root :: "'a p2mem_scheme calls \<Rightarrow> 'a p2mem_scheme stores \<Rightarrow> 'a p2mem_scheme \<Rightarrow> 'a p2mem_scheme outcome" where
  "p2_root K W = block [
     V_sem K ''testsem'',
     print K (line ''p1 v(testsem)''),
     assign p2_states,
     start K ''p2state'' NULL,
     print K (line ''p2 was started''),
     V_sem K ''startp2'',
     P_sem K ''endp2'',
     \<lambda>s. if p1p2synch s = 0 then print K (line ''error: p1/p2 synchronization bad'') s else Some (None, s),
     start K ''p3state'' NULL,
     print K (line ''p3 is started''),
     P_sem K ''endp3'',
     start K ''p4state'' NULL,
     assign (set_context GENERALEXCEPT ''p5gen''),
     assign (set_context PGFAULTEXCEPT ''p5mm''),
     \<lambda>s. start K ''p5state'' (var_addr s ''pFiveSupport'') s,
     start K ''p6state'' NULL,
     start K ''p7state'' NULL,
     P_sem K ''endp5'',
     print K (line ''p1 knows p5 ended''),
     P_sem K ''blkp4'',
     assign (\<lambda>s. s\<lparr>p8inc := 0\<rparr>),
     p8_loop K,
     print K (line ''p1 finishes OK -- TTFN''),
     store_word W BADADDR 0,
     print K (line ''error: p1 still alive after progtrap & no trap vector''),
     panic]"

end
