(* ===== verification/P2run.thy ===== *)
theory P2run
  imports P2test Syscalls
begin

text \<open>
  The process \<open>p2\<close> of the test program of phase 2 on the kernel. \<open>process_calls\<close> is what \<open>p2\<close> relies on:
  what P, V, the reading of the processor time and the wait for the terminal do, seen by the process that
  calls them. \<open>world\<close> is \<^verbatim>\<open>SYSCALL\<close> made of \<open>exception_handler\<close> itself, for the calls that come straight back,
  and of a parameter that says what the others do while the process waits; it keeps the contract.
\<close>

section \<open>What a process relies on\<close>

abbreviation printed :: "8 word list p2mem_scheme \<Rightarrow> 8 word list" where "printed \<equiv> p2mem.more"

definition own :: "'a p2mem_scheme \<Rightarrow> nat \<Rightarrow> u32" where
  "own s i = (if i \<le> MAXSEM then mem s (s_sem i s) else 0)"

text \<open>From \<open>s\<close> to \<open>s'\<close> the values of the process's own semaphores have become \<open>v\<close>, it has printed \<open>w\<close>, and
  nothing else that concerns it has changed.\<close>

definition went :: "(8 word list p2mem_scheme \<Rightarrow> bool) \<Rightarrow> 8 word list p2mem_scheme \<Rightarrow> (nat \<Rightarrow> u32) \<Rightarrow> 8 word list \<Rightarrow>
    8 word list p2mem_scheme \<Rightarrow> bool" where
  "went J s v w s' \<longleftrightarrow> J s' \<and> var_addr s' = var_addr s \<and> p1p2synch s' = p1p2synch s \<and>
     mem s' TIMESCALEADDR = mem s TIMESCALEADDR \<and> own s' = v \<and> printed s' = printed s @ w"

lemma went_trans: "went J s v w s' \<Longrightarrow> went J s' v' w' s'' \<Longrightarrow> went J s v' (w @ w') s''"
  by (simp add: went_def)

lemma went_trans0: "went J s v [] s' \<Longrightarrow> went J s' v' w' s'' \<Longrightarrow> went J s v' w' s''"
  using went_trans [of J s v "[]" s' v' w' s''] by simp

lemma went_s_sem: "went J s v w s' \<Longrightarrow> s_sem i s' = s_sem i s"
  by (simp add: went_def s_sem_def)

lemma own_upd [simp]:
  "own (upd_dev a f s) = own s" "own (s\<lparr>p1p2synch := n\<rparr>) = own s" "own (s\<lparr>tod_reads := m\<rparr>) = own s"
  by (simp_all add: own_def s_sem_def fun_eq_iff upd_dev_def)

lemma s_sem_inj: "i \<le> MAXSEM \<Longrightarrow> j \<le> MAXSEM \<Longrightarrow> s_sem i s = s_sem j s \<longleftrightarrow> i = j"
proof -
  assume "i \<le> MAXSEM" "j \<le> MAXSEM"
  then have "i < 21" "j < 21" by (simp_all add: MAXSEM_def)
  then have "unat (4 * of_nat i :: u32) = 4 * i" "unat (4 * of_nat j :: u32) = 4 * j"
    by (simp_all add: unat_word_ariths unat_of_nat)
  then have "4 * of_nat i = (4 * of_nat j :: u32) \<longleftrightarrow> i = j" by (metis mult_left_cancel zero_neq_numeral)
  then show ?thesis by (simp add: s_sem_def)
qed

lemma poke_upper [simp]:
  "var_addr (poke a v s) = var_addr s" "p1p2synch (poke a v s) = p1p2synch s" "p2mem.more (poke a v s) = p2mem.more s"
  "s_sem i (poke a v s) = s_sem i s" "cpu (poke a v s) = cpu s"
  by (simp_all add: poke_def s_sem_def)

lemma own_poke: "i \<le> MAXSEM \<Longrightarrow> own (poke (s_sem i s) v s) = (own s)(i := v)"
  by (auto simp: own_def s_sem_inj)

lemma upd_dev_upper [simp]:
  "var_addr (upd_dev a f s) = var_addr s" "p1p2synch (upd_dev a f s) = p1p2synch s" "p2mem.more (upd_dev a f s) = p2mem.more s"
  "devregs (upd_dev a f s) a = f (devregs s a)" "mem (upd_dev a f s) = mem s" "cpu (upd_dev a f s) = cpu s"
  "currentP (upd_dev a f s) = currentP s"
  by (simp_all add: upd_dev_def)

text \<open>The word for the terminal holds the command and the character.\<close>

lemma print_word:
  fixes w :: "8 word"
  shows "(PRINTCHR OR push_bit BYTELEN (scast w)) AND 0xFF = PRINTCHR"
    and "ucast (drop_bit 8 (PRINTCHR OR push_bit BYTELEN (scast w :: u32))) = w"
proof -
  let ?c = "push_bit 8 (scast w) :: u32"
  have "?c AND mask 8 = 0" by (rule bit_word_eqI) (auto simp: bit_simps)
  moreover have "(2 :: u32) AND mask 8 = 2" by (simp add: mask_eq_exp_minus_1)
  ultimately have "(2 OR ?c) AND mask 8 = 2" by (simp only: bit.conj_disj_distrib2) simp
  moreover have "(0xFF :: u32) = mask 8" by (simp add: mask_eq_exp_minus_1)
  ultimately show "(PRINTCHR OR push_bit BYTELEN (scast w)) AND 0xFF = PRINTCHR"
    by (simp only: PRINTCHR_def BYTELEN_def)
  have "drop_bit 8 (2 :: u32) = 0" by simp
  then have "drop_bit 8 (2 OR ?c) = drop_bit 8 ?c" by (simp only: drop_bit_or) simp
  moreover have "ucast (drop_bit 8 ?c) = w" by (rule bit_word_eqI) (auto simp: bit_simps)
  ultimately show "ucast (drop_bit 8 (PRINTCHR OR push_bit BYTELEN (scast w :: u32))) = w"
    by (simp only: PRINTCHR_def BYTELEN_def)
qed

text \<open>What \<open>p2\<close> says of the times that it has measured.\<close>

definition verdict :: "u32 \<Rightarrow> u32 \<Rightarrow> u32 \<Rightarrow> string" where
  "verdict real used m =
     (if sint used \<le> sint real \<and> sint m \<le> sint used then line ''p2 is OK''
      else (if sint real < sint used then line ''error: more cpu time than real time'' else []) @
           (if sint used < sint m then line ''error: not enough cpu time went by'' else []) @ line ''p2 blew it!'')"

locale process_calls =
  fixes K :: "8 word list p2mem_scheme calls" and J :: "8 word list p2mem_scheme \<Rightarrow> bool"
  assumes P_returns: "J s \<Longrightarrow> x \<in> {''term_mut'', ''startp2''} \<Longrightarrow>
      \<exists>r s'. K PASSERN (var_addr s x) 0 0 s = Some (r, s') \<and> went J s (own s) [] s'"
    and V_returns: "J s \<Longrightarrow> x \<in> {''term_mut'', ''endp2''} \<Longrightarrow>
      \<exists>r s'. K VERHO (var_addr s x) 0 0 s = Some (r, s') \<and> went J s (own s) [] s'"
    and V_own: "J s \<Longrightarrow> i \<le> MAXSEM \<Longrightarrow>
      \<exists>r s'. K VERHO (s_sem i s) 0 0 s = Some (r, s') \<and> went J s ((own s)(i := own s i + 1)) [] s'"
    and P_own: "J s \<Longrightarrow> i \<le> MAXSEM \<Longrightarrow> 0 < sint (own s i) \<Longrightarrow>
      \<exists>r s'. K PASSERN (s_sem i s) 0 0 s = Some (r, s') \<and> went J s ((own s)(i := own s i - 1)) [] s'"
    and cpu_time: "J s \<Longrightarrow> \<exists>r s'. K GETCPU 0 0 0 s = Some (r, s') \<and> went J s (own s) [] s'"
    and sends: "J s \<Longrightarrow> d_data1 (devregs s TERM0ADDR) AND 0xFF = PRINTCHR \<Longrightarrow>
      \<exists>r s'. K IOWAIT TERMINT 0 0 s = Some (r, s') \<and> r AND TERMSTATMASK = RECVD \<and>
        went J s (own s) [ucast (drop_bit 8 (d_data1 (devregs s TERM0ADDR)))] s'"
    and stores: "J s \<Longrightarrow> J (upd_dev a f s)" "J s \<Longrightarrow> J (s\<lparr>p1p2synch := n\<rparr>)" "J s \<Longrightarrow> J (s\<lparr>tod_reads := m\<rparr>)"
      "J s \<Longrightarrow> i \<le> MAXSEM \<Longrightarrow> J (poke (s_sem i s) n s)"
    and timescale: "J s \<Longrightarrow> mem s TIMESCALEADDR \<noteq> 0" "J s \<Longrightarrow> i \<le> MAXSEM \<Longrightarrow> s_sem i s \<noteq> TIMESCALEADDR"
begin

lemma P_stmt: "J s \<Longrightarrow> x \<in> {''term_mut'', ''startp2''} \<Longrightarrow> \<exists>s'. P_sem K x s = Some (None, s') \<and> went J s (own s) [] s'"
  using P_returns [of s x] by (auto simp: P_sem_def syscall_def)

lemma V_stmt: "J s \<Longrightarrow> x \<in> {''term_mut'', ''endp2''} \<Longrightarrow> \<exists>s'. V_sem K x s = Some (None, s') \<and> went J s (own s) [] s'"
  using V_returns [of s x] by (auto simp: V_sem_def syscall_def)

lemma print_chars_out: "J s \<Longrightarrow> \<exists>s'. print_chars K msg s = Some (None, s') \<and> went J s (own s) (map of_char msg) s'"
proof (induction msg arbitrary: s)
  case Nil
  then show ?case by (simp add: went_def)
next
  case (Cons c msg)
  let ?s = "upd_dev TERM0ADDR (t_transm_command_update (\<lambda>_. PRINTCHR OR push_bit BYTELEN (scast (of_char c :: 8 word)))) s"
  have d: "d_data1 (devregs ?s TERM0ADDR) = PRINTCHR OR push_bit BYTELEN (scast (of_char c :: 8 word))" by simp
  from sends [OF stores(1) [OF Cons.prems], of TERM0ADDR "t_transm_command_update (\<lambda>_. PRINTCHR OR push_bit BYTELEN (scast (of_char c :: 8 word)))"]
  obtain r s1 where s1: "K IOWAIT TERMINT 0 0 ?s = Some (r, s1)" "r AND TERMSTATMASK = RECVD" "went J ?s (own s) [of_char c] s1"
    unfolding d print_word by auto
  from s1(3) have w: "went J s (own s) [of_char c] s1" by (simp add: went_def)
  then have "J s1" "own s1 = own s" by (simp_all add: went_def)
  with Cons.IH obtain s' where "print_chars K msg s1 = Some (None, s')" "went J s1 (own s) (map of_char msg) s'" by fastforce
  with s1(1,2) went_trans [OF w] show ?case by (auto simp: Let_def)
qed

lemma print_out: "J s \<Longrightarrow> \<exists>s'. print K msg s = Some (None, s') \<and> went J s (own s) (map of_char msg) s'"
proof -
  assume "J s"
  from P_stmt [OF this, of "''term_mut''"] obtain s1 where 1: "P_sem K ''term_mut'' s = Some (None, s1)" "went J s (own s) [] s1" by auto
  then have "J s1" "own s1 = own s" by (simp_all add: went_def)
  with print_chars_out [of s1 msg] obtain s2 where
    2: "print_chars K msg s1 = Some (None, s2)" "went J s1 (own s) (map of_char msg) s2" by auto
  then have "J s2" "own s2 = own s" by (simp_all add: went_def)
  with V_stmt [of s2 "''term_mut''"] obtain s' where 3: "V_sem K ''term_mut'' s2 = Some (None, s')" "went J s2 (own s) [] s'" by auto
  from went_trans [OF went_trans0 [OF 1(2) 2(2)] 3(2)] show ?thesis using 1(1) 2(1) 3(1) by (simp add: print_def)
qed

text \<open>V and then P on a semaphore with the value 0 passes, and leaves 0.\<close>

lemma pair_passes:
  assumes j: "J s" and i: "i \<le> MAXSEM" and z: "own s = (\<lambda>_. 0)"
  shows "\<exists>s'. p2_pair K i s = Some (None, s') \<and> went J s (\<lambda>_. 0) [] s'"
proof -
  from V_own [OF j i] obtain r s1 where
    1: "K VERHO (s_sem i s) 0 0 s = Some (r, s1)" "went J s ((\<lambda>_. 0)(i := 1)) [] s1" using z by auto
  then have j1: "J s1" "own s1 = (\<lambda>_. 0)(i := 1)" by (simp_all add: went_def)
  have "(own s1)(i := own s1 i - 1) = (\<lambda>_. 0)" using j1(2) by auto
  with P_own [OF j1(1) i] obtain r' s2 where
    2: "K PASSERN (s_sem i s1) 0 0 s1 = Some (r', s2)" "went J s1 (\<lambda>_. 0) [] s2" using j1(2) by auto
  then have "mem s2 (s_sem i s2) = 0" using i by (auto simp: went_def own_def dest: fun_cong [where x = i])
  with 1 2 went_trans0 [OF 1(2) 2(2)] show ?thesis by (simp add: p2_pair_def syscall_def)
qed

lemma pairs_pass:
  "J s \<Longrightarrow> set xs \<subseteq> {..MAXSEM} \<Longrightarrow> own s = (\<lambda>_. 0) \<Longrightarrow>
   \<exists>s'. block (map (p2_pair K) xs) s = Some (None, s') \<and> went J s (\<lambda>_. 0) [] s'"
proof (induction xs arbitrary: s)
  case Nil
  then show ?case by (simp add: went_def)
next
  case (Cons i xs)
  with pair_passes [of s i] obtain s1 where 1: "p2_pair K i s = Some (None, s1)" "went J s (\<lambda>_. 0) [] s1" by auto
  then have "J s1" "own s1 = (\<lambda>_. 0)" by (simp_all add: went_def)
  with Cons obtain s2 where "block (map (p2_pair K) xs) s1 = Some (None, s2)" "went J s1 (\<lambda>_. 0) [] s2" by auto
  with 1 went_trans0 [OF 1(2)] show ?case by auto
qed

lemma readings_go: "J s \<Longrightarrow> \<exists>real used s'. p2_readings K s = Some (real, used, s') \<and> went J s (own s) [] s'"
proof -
  have stck: "\<exists>t s'. STCK s = Some (t, s') \<and> went J s (own s) [] s'" if "J s" for s
    using stores(3) [OF that] timescale(1) [OF that] by (simp add: STCK_def went_def)
  have cpu: "\<exists>t s'. K GETCPU 0 0 0 s = Some (t, s') \<and> went J s (own s) [] s'" if "J s" for s
    by (rule cpu_time [OF that])
  have j: "J s'" "own s' = own s" if "went J s (own s) [] s'" for s s' using that by (simp_all add: went_def)
  assume "J s"
  from stck [OF this] obtain t1 s1 where 1: "STCK s = Some (t1, s1)" "went J s (own s) [] s1" by blast
  from cpu [OF j(1) [OF 1(2)]] obtain t2 s2 where
    2: "K GETCPU 0 0 0 s1 = Some (t2, s2)" "went J s1 (own s1) [] s2" by blast
  from cpu [OF j(1) [OF 2(2)]] obtain t3 s3 where
    3: "K GETCPU 0 0 0 s2 = Some (t3, s3)" "went J s2 (own s2) [] s3" by blast
  from stck [OF j(1) [OF 3(2)]] obtain t4 s4 where 4: "STCK s3 = Some (t4, s4)" "went J s3 (own s3) [] s4" by blast
  have "went J s (own s) [] s4"
    using went_trans0 [OF 1(2) went_trans0 [OF 2(2) went_trans0 [OF 3(2) 4(2)]]] j(2) [OF 1(2)] j(2) [OF 2(2)] j(2) [OF 3(2)]
    by simp
  then show ?thesis using 1(1) 2(1) 3(1) 4(1) by (simp add: p2_readings_def)
qed

lemma prints_if:
  "J s \<Longrightarrow> \<exists>s'. (if b then print K msg s else Some (None, s)) = Some (None, s') \<and>
     went J s (own s) (map of_char (if b then msg else [])) s'"
  using print_out [of s msg] by (auto simp: went_def)

lemma blew_out:
  assumes j: "J s"
  shows "\<exists>s'. p2_blew K real used s = Some (None, s') \<and> went J s (own s)
     (map of_char ((if sint real < sint used then line ''error: more cpu time than real time'' else []) @
       (if sint used < sint (cdiv MINLOOPTIME (mem s TIMESCALEADDR)) then line ''error: not enough cpu time went by'' else []) @
       line ''p2 blew it!'')) s'"
proof -
  from prints_if [OF j, of "sint real < sint used"] obtain s1 where
    1: "(if sint real < sint used then print K (line ''error: more cpu time than real time'') s else Some (None, s)) = Some (None, s1)"
      "went J s (own s) (map of_char (if sint real < sint used then line ''error: more cpu time than real time'' else [])) s1"
    by blast
  then have j1: "J s1" "own s1 = own s" "mem s1 TIMESCALEADDR = mem s TIMESCALEADDR" by (simp_all add: went_def)
  let ?b = "sint used < sint (cdiv MINLOOPTIME (mem s TIMESCALEADDR))"
  from prints_if [OF j1(1), of ?b] obtain s2 where
    2: "(if ?b then print K (line ''error: not enough cpu time went by'') s1 else Some (None, s1)) = Some (None, s2)"
      "went J s1 (own s) (map of_char (if ?b then line ''error: not enough cpu time went by'' else [])) s2"
    unfolding j1(2) by blast
  then have j2: "J s2" "own s2 = own s" by (simp_all add: went_def)
  from print_out [OF j2(1)] obtain s3 where
    3: "print K (line ''p2 blew it!'') s2 = Some (None, s3)" "went J s2 (own s) (map of_char (line ''p2 blew it!'')) s3"
    unfolding j2(2) by blast
  have "min_time MINLOOPTIME s1 = Some (cdiv MINLOOPTIME (mem s TIMESCALEADDR))"
    using timescale(1) [OF j] j1(3) by (simp add: min_time_def)
  then have "p2_blew K real used s = Some (None, s3)" using 1(1) 2(1) 3(1) by (simp add: p2_blew_def)
  then show ?thesis using went_trans [OF 1(2) went_trans [OF 2(2) 3(2)]] by (intro exI [of _ s3]) (simp only: map_append simp_thms)
qed

lemma times_out:
  assumes j: "J s"
  shows "\<exists>real used s1 s'. p2_readings K s = Some (real, used, s1) \<and> p2_times K s = Some (None, s') \<and>
     went J s (own s) (map of_char (verdict real used (cdiv MINLOOPTIME (mem s TIMESCALEADDR)))) s'"
proof -
  from readings_go [OF j] obtain real used s1 where
    1: "p2_readings K s = Some (real, used, s1)" "went J s (own s) [] s1" by blast
  then have j1: "J s1" "own s1 = own s" "mem s1 TIMESCALEADDR = mem s TIMESCALEADDR" by (simp_all add: went_def)
  let ?m = "cdiv MINLOOPTIME (mem s TIMESCALEADDR)"
  have m: "min_time MINLOOPTIME s1 = Some ?m" using timescale(1) [OF j] j1(3) by (simp add: min_time_def)
  have "\<exists>s'. p2_times K s = Some (None, s') \<and> went J s1 (own s1) (map of_char (verdict real used ?m)) s'"
  proof (cases "sint used \<le> sint real \<and> sint ?m \<le> sint used")
    case True
    then show ?thesis using print_out [OF j1(1)] 1(1) m by (simp add: p2_times_def verdict_def)
  next
    case False
    then have "p2_times K s = p2_blew K real used s1" using 1(1) m by (auto simp: p2_times_def)
    moreover have "verdict real used ?m = (if sint real < sint used then line ''error: more cpu time than real time'' else []) @
       (if sint used < sint ?m then line ''error: not enough cpu time went by'' else []) @ line ''p2 blew it!''"
      using False unfolding verdict_def by (simp only: if_False)
    ultimately show ?thesis using blew_out [OF j1(1), of real used] unfolding j1(3) by (simp only:)
  qed
  then show ?thesis using 1 went_trans0 [OF 1(2)] j1(2) by metis
qed

lemma clears_some:
  "J s \<Longrightarrow> set xs \<subseteq> {..MAXSEM} \<Longrightarrow>
   went J s (\<lambda>i. if i \<in> set xs then 0 else own s i) [] (fold (\<lambda>i s. poke (s_sem i s) 0 s) xs s)"
proof (induction xs arbitrary: s)
  case Nil
  then show ?case by (simp add: went_def)
next
  case (Cons i xs)
  then have i: "i \<le> MAXSEM" by simp
  let ?s = "poke (s_sem i s) 0 s"
  have 1: "went J s ((own s)(i := 0)) [] ?s"
    using stores(4) [OF Cons.prems(1) i] timescale(2) [OF Cons.prems(1) i] i by (simp add: went_def own_poke)
  have 2: "went J ?s (\<lambda>j. if j \<in> set xs then 0 else own ?s j) [] (fold (\<lambda>i s. poke (s_sem i s) 0 s) xs ?s)"
    using Cons.IH [OF stores(4) [OF Cons.prems(1) i]] Cons.prems(2) by simp
  have 3: "(\<lambda>j. if j \<in> set xs then 0 else own ?s j) = (\<lambda>j. if j \<in> set (i # xs) then 0 else own s j)"
    using i by (auto simp: own_poke)
  show ?case using went_trans0 [OF 1 2] unfolding 3 by (simp only: fold_simps)
qed

lemma clears: "J s \<Longrightarrow> went J s (\<lambda>_. 0) [] (fold (\<lambda>i s. poke (s_sem i s) 0 s) [0..<Suc MAXSEM] s)"
proof -
  assume "J s"
  moreover have "set [0..<Suc MAXSEM] \<subseteq> {..MAXSEM}" by (simp only: set_upt) auto
  ultimately have "went J s (\<lambda>i. if i \<in> set [0..<Suc MAXSEM] then 0 else own s i) []
      (fold (\<lambda>i s. poke (s_sem i s) 0 s) [0..<Suc MAXSEM] s)"
    by (rule clears_some)
  moreover have "(\<lambda>i. if i \<in> set [0..<Suc MAXSEM] then 0 else own s i) = (\<lambda>_. 0)"
    by (simp only: set_upt) (auto simp: own_def)
  ultimately show ?thesis by (simp only:)
qed

lemma p2_ends:
  assumes j: "J s"
  shows "\<exists>t real used t1 s'. went J s (\<lambda>_. 0) (map of_char (line ''p2 starts'' @ line ''p2 v's successfully'')) t \<and>
     p2_readings K t = Some (real, used, t1) \<and>
     p2 K s = block [finish K, print K (line ''error: p2 didn't terminate''), panic] s' \<and>
     went J (t\<lparr>p1p2synch := 1\<rparr>) (\<lambda>_. 0) (map of_char (verdict real used (cdiv MINLOOPTIME (mem s TIMESCALEADDR)))) s'"
proof -
  from P_stmt [OF j] obtain s1 where 1: "P_sem K ''startp2'' s = Some (None, s1)" "went J s (own s) [] s1" by blast
  then have j1: "J s1" by (simp add: went_def)
  from print_out [OF j1] obtain s2 where
    2: "print K (line ''p2 starts'') s1 = Some (None, s2)" "went J s1 (own s1) (map of_char (line ''p2 starts'')) s2" by blast
  then have j2: "J s2" by (simp add: went_def)
  define s3 where "s3 = fold (\<lambda>i s. poke (s_sem i s) 0 s) [0..<Suc MAXSEM] s2"
  have 3: "went J s2 (\<lambda>_. 0) [] s3" unfolding s3_def by (rule clears [OF j2])
  then have j3: "J s3" "own s3 = (\<lambda>_. 0)" by (simp_all add: went_def)
  have "set [0..<Suc MAXSEM] \<subseteq> {..MAXSEM}" by auto
  from pairs_pass [OF j3(1) this j3(2)] obtain s4 where
    4: "block (map (p2_pair K) [0..<Suc MAXSEM]) s3 = Some (None, s4)" "went J s3 (\<lambda>_. 0) [] s4" by blast
  then have j4: "J s4" "own s4 = (\<lambda>_. 0)" by (simp_all add: went_def)
  from print_out [OF j4(1)] obtain t where
    5: "print K (line ''p2 v's successfully'') s4 = Some (None, t)" "went J s4 (\<lambda>_. 0) (map of_char (line ''p2 v's successfully'')) t"
    unfolding j4(2) by blast
  have t: "went J s (\<lambda>_. 0) (map of_char (line ''p2 starts'' @ line ''p2 v's successfully'')) t"
    using went_trans0 [OF 1(2) went_trans [OF 2(2) went_trans0 [OF 3 went_trans0 [OF 4(2) 5(2)]]]] by (simp only: map_append)
  then have jt: "J t" "own t = (\<lambda>_. 0)" "mem t TIMESCALEADDR = mem s TIMESCALEADDR" by (simp_all add: went_def)
  from times_out [OF jt(1)] obtain real used t1 s6 where
    6: "p2_readings K t = Some (real, used, t1)" "p2_times K t = Some (None, s6)"
      "went J t (\<lambda>_. 0) (map of_char (verdict real used (cdiv MINLOOPTIME (mem s TIMESCALEADDR)))) s6"
    unfolding jt(2,3) by blast
  let ?s7 = "s6\<lparr>p1p2synch := 1\<rparr>"
  have 7: "went J (t\<lparr>p1p2synch := 1\<rparr>) (\<lambda>_. 0) (map of_char (verdict real used (cdiv MINLOOPTIME (mem s TIMESCALEADDR)))) ?s7"
    using 6(3) stores(2) by (simp add: went_def)
  then have j7: "J ?s7" "own ?s7 = (\<lambda>_. 0)" by (simp_all add: went_def)
  from V_stmt [OF j7(1)] obtain s' where 8: "V_sem K ''endp2'' ?s7 = Some (None, s')" "went J ?s7 (\<lambda>_. 0) [] s'"
    unfolding j7(2) by blast
  have "p2 K s = block [finish K, print K (line ''error: p2 didn't terminate''), panic] s'"
    unfolding p2_def using 1(1) 2(1) 4(1) 5(1) 6(2) 8(1) by (simp add: assign_def s3_def)
  moreover have "went J (t\<lparr>p1p2synch := 1\<rparr>) (\<lambda>_. 0) (map of_char (verdict real used (cdiv MINLOOPTIME (mem s TIMESCALEADDR)))) s'"
    using went_trans [OF 7 8(2)] by simp
  ultimately show ?thesis using t 6(1) by blast
qed

end

section \<open>The kernel as the provider\<close>

text \<open>A \<^verbatim>\<open>SYSCALL\<close>: the processor state with the arguments is saved for the kernel, which is entered.\<close>

definition trap :: "u32 \<Rightarrow> u32 \<Rightarrow> u32 \<Rightarrow> u32 \<Rightarrow> 'a p2mem_scheme \<Rightarrow> 'a p2mem_scheme" where
  "trap n a1 a2 a3 s = upd_bios (\<lambda>_. (set_reg R_a0 n (set_reg R_a1 a1 (set_reg R_a2 a2 (set_reg R_a3 a3
     (cpu s (cpu_reads s))))))\<lparr>s_cause := 32\<rparr>) (s\<lparr>cpu_reads := Suc (cpu_reads s)\<rparr>)"

text \<open>What comes back at once to the process that asked.\<close>

definition at_once :: "'a p2mem_scheme calls" where
  "at_once n a1 a2 a3 s =
     (case exception_handler (trap n a1 a2 a3 s) of
        Some (LDST st, s') \<Rightarrow> if currentP s' = currentP s then Some (s_reg st R_v0, s') else None
      | _ \<Rightarrow> None)"

text \<open>\<^verbatim>\<open>SYSCALL\<close> in a system with other processes. \<open>between\<close> is what they and the devices do between two
  instructions of the process, \<open>wait\<close> the state in which it goes on after a call that makes it wait: one for a
  device or the clock, its end, or P on a semaphore that is not positive.\<close>

definition must_wait :: "u32 \<Rightarrow> u32 \<Rightarrow> 'a p2mem_scheme \<Rightarrow> bool" where
  "must_wait n a1 s \<longleftrightarrow> n = TERMINATETHREAD \<or> n = IOWAIT \<or> n = CLOCKWAIT \<or> n = PASSERN \<and> sint (mem s a1) \<le> 0"

definition world :: "('a p2mem_scheme \<Rightarrow> 'a p2mem_scheme) \<Rightarrow> 'a p2mem_scheme calls \<Rightarrow> 'a p2mem_scheme calls" where
  "world between wait n a1 a2 a3 s =
     (let s = between s in if must_wait n a1 s then wait n a1 a2 a3 s else at_once n a1 a2 a3 s)"

text \<open>What the kernel leaves alone above itself.\<close>

definition upper :: "'a p2mem_scheme \<Rightarrow> 'a p2mem_scheme \<Rightarrow> bool" where
  "upper s s' \<longleftrightarrow> var_addr s' = var_addr s \<and> p1p2synch s' = p1p2synch s \<and> cpu s' = cpu s \<and> p2mem.more s' = p2mem.more s"

lemma upper_more: "kstate.more s' = kstate.more s \<Longrightarrow> upper s s'"
  unfolding upper_def by (cases s; cases s'; simp)

lemma trap_simps [simp]:
  "kst (trap n a1 a2 a3 s) cur rd fr Q K = kst s cur rd fr Q K" "currentP (trap n a1 a2 a3 s) = currentP s"
  "mem (trap n a1 a2 a3 s) = mem s" "lastSemd (trap n a1 a2 a3 s) = lastSemd s" "pcbs (trap n a1 a2 a3 s) = pcbs s"
  "upper (trap n a1 a2 a3 s) t = upper s t"
  "s_reg (bios (trap n a1 a2 a3 s)) R_a0 = n" "s_reg (bios (trap n a1 a2 a3 s)) R_a1 = a1"
  "s_cause (bios (trap n a1 a2 a3 s)) = 32" "s_status (bios (trap n a1 a2 a3 s)) = s_status (cpu s (cpu_reads s))"
proof -
  show "kst (trap n a1 a2 a3 s) cur rd fr Q K = kst s cur rd fr Q K"
    by (rule same_struct_kst) (simp add: same_struct_def trap_def upd_bios_def)
qed (simp_all add: trap_def upper_def, simp_all add: lastSemd_def upd_bios_def)

definition kernel_mode :: "'a p2mem_scheme \<Rightarrow> bool" where
  "kernel_mode s \<longleftrightarrow> (\<forall>n. s_status (cpu s n) AND 8 = 0)"

lemma trap_call:
  "kernel_mode s \<Longrightarrow> exception_handler (trap PASSERN a1 a2 a3 s) = PASSEREN (trap PASSERN a1 a2 a3 s)"
  "kernel_mode s \<Longrightarrow> exception_handler (trap VERHO a1 a2 a3 s) =
     do { (_, s) \<leftarrow> VERHOGEN (trap VERHO a1 a2 a3 s); helper_non_blocking_syscall_handler s }"
  "kernel_mode s \<Longrightarrow> exception_handler (trap GETCPU a1 a2 a3 s) =
     do { s \<leftarrow> GETCPUTIME (trap GETCPU a1 a2 a3 s); helper_non_blocking_syscall_handler s }"
proof -
  have c: "CauseExcCode 32 = 8" by code_simp
  show "kernel_mode s \<Longrightarrow> exception_handler (trap PASSERN a1 a2 a3 s) = PASSEREN (trap PASSERN a1 a2 a3 s)"
    "kernel_mode s \<Longrightarrow> exception_handler (trap VERHO a1 a2 a3 s) =
     do { (_, s) \<leftarrow> VERHOGEN (trap VERHO a1 a2 a3 s); helper_non_blocking_syscall_handler s }"
    "kernel_mode s \<Longrightarrow> exception_handler (trap GETCPU a1 a2 a3 s) =
     do { s \<leftarrow> GETCPUTIME (trap GETCPU a1 a2 a3 s); helper_non_blocking_syscall_handler s }"
    by (simp_all add: exception_handler_def SYSCALL_handler_def check_KU_mode_bit_def kernel_mode_def c PASSERN_def VERHO_def GETCPU_def)
qed

lemma charged_upper [simp]: "upper s (charged c t) = upper s t" "upper s (poke a v t) = upper s t" "upper s s"
  "upper s (upd_bios f t) = upper s t" "upper s (trap n a1 a2 a3 t) = upper s t" "upper s (t\<lparr>plt_reads := k\<rparr>) = upper s t"
  by (simp_all add: upper_def charged_def upd_pcb_def trap_def upd_bios_def)

lemma kernel_V:
  assumes k: "kst s [c] rd fr Q K" and c: "currentP s = Some c" and nl: "NULL \<noteq> lastSemd s" and m: "kernel_mode s"
    and a: "a \<noteq> lastSemd s"
  shows "\<exists>r s' rd' Q'. at_once VERHO a 0 0 s = Some (r, s') \<and> kst s' [c] rd' fr Q' K \<and> mem s' = (mem s)(a := mem s a + 1) \<and>
     currentP s' = Some c \<and> lastSemd s' = lastSemd s \<and> upper s s' \<and> (\<forall>b. b \<noteq> a \<or> Q a = [] \<longrightarrow> Q' b = Q b)"
proof (cases "0 < sint (mem s a + 1) \<or> Q a = []")
  case True
  let ?t = "trap VERHO a 0 0 s"
  have "VERHOGEN ?t = Some (None, poke a (mem ?t a + 1) ?t)"
    using V_idle [of ?t "[c]" rd fr Q K a] k a True by simp
  then have "exception_handler ?t = Some (LDST (after_call (bios ?t)), charged c (poke a (mem s a + 1) ?t))"
    using c by (simp add: trap_call [OF m] non_blocking_exit)
  then show ?thesis using k c by (auto simp: at_once_def)
next
  case False
  let ?t = "trap VERHO a 0 0 s"
  obtain p ps where q: "Q a = p # ps" using False by (cases "Q a") auto
  from V_wake [of ?t "[c]" rd fr Q K a p ps] k nl False q obtain s1 where
    s1: "VERHOGEN ?t = Some (Some p, s1)" "kst s1 [c] (rd @ [p]) fr (Q(a := ps)) K"
      "quiet (poke a (mem s a + 1) ?t) s1" "currentP s1 = Some c" using c by auto
  then have "exception_handler ?t = Some (LDST (after_call (bios s1)), charged c s1)"
    by (simp add: trap_call [OF m] non_blocking_exit)
  moreover have "mem s1 = (mem s)(a := mem s a + 1)" "lastSemd s1 = lastSemd s" using quietD(6,13) [OF s1(3)] by simp_all
  moreover have "upper s s1" using upper_more [OF quietD(18) [OF s1(3)]] by (simp add: upper_def trap_def upd_bios_def poke_def)
  ultimately have "at_once VERHO a 0 0 s = Some (s_reg (after_call (bios s1)) R_v0, charged c s1)" "kst (charged c s1) [c] (rd @ [p]) fr (Q(a := ps)) K"
    "mem (charged c s1) = (mem s)(a := mem s a + 1)" "currentP (charged c s1) = Some c" "lastSemd (charged c s1) = lastSemd s"
    "upper s (charged c s1)" using s1(2,4) c by (simp_all add: at_once_def)
  moreover have "\<forall>b. b \<noteq> a \<or> Q a = [] \<longrightarrow> (Q(a := ps)) b = Q b" using q by simp
  ultimately show ?thesis by blast
qed

lemma kernel_P:
  assumes k: "kst s [c] rd fr Q K" and c: "currentP s = Some c" and m: "kernel_mode s" and p: "0 < sint (mem s a)"
  shows "\<exists>r s'. at_once PASSERN a 0 0 s = Some (r, s') \<and> kst s' [c] rd fr Q K \<and> mem s' = (mem s)(a := mem s a - 1) \<and>
     currentP s' = Some c \<and> lastSemd s' = lastSemd s \<and> upper s s'"
proof -
  let ?t = "trap PASSERN a 0 0 s"
  have "PASSEREN ?t = Some (LDST (after_call (bios ?t)), charged c (poke a (mem s a - 1) ?t))"
    using p sint_pred [of "mem s a"] c by (simp add: PASSEREN_def Let_def non_blocking_exit)
  then show ?thesis using k c by (auto simp: at_once_def trap_call [OF m])
qed

lemma kernel_time:
  assumes k: "kst s [c] rd fr Q K" and c: "currentP s = Some c" and m: "kernel_mode s"
  shows "\<exists>r s'. at_once GETCPU 0 0 0 s = Some (r, s') \<and> kst s' [c] rd fr Q K \<and> mem s' = mem s \<and>
     currentP s' = Some c \<and> lastSemd s' = lastSemd s \<and> upper s s'"
proof -
  let ?t = "trap GETCPU 0 0 0 s"
  have "GETCPUTIME ?t = Some (upd_bios (set_reg R_v0 (p_time (pcbs s c) + 5000 - (plt ?t - plt_lag ?t (plt_reads ?t)))) (?t\<lparr>plt_reads := Suc (plt_reads ?t)\<rparr>))"
    using c by (simp add: GETCPUTIME_def getTIMER_def)
  then show ?thesis using k c by (auto simp: at_once_def trap_call [OF m] non_blocking_exit)
qed

section \<open>The contract is kept\<close>

text \<open>The process \<open>c\<close> runs in kernel mode, the kernel's tables are in order, nobody waits on the
  semaphores of \<open>s[]\<close>, and the semaphores have addresses of their own.\<close>

definition apart :: "'a p2mem_scheme \<Rightarrow> bool" where
  "apart s \<longleftrightarrow> (\<forall>i\<le>MAXSEM. s_sem i s \<noteq> lastSemd s \<and> s_sem i s \<noteq> TIMESCALEADDR) \<and>
     (\<forall>x\<in>{''term_mut'', ''startp2'', ''endp2''}. var_addr s x \<noteq> lastSemd s \<and> var_addr s x \<noteq> TIMESCALEADDR \<and>
        (\<forall>i\<le>MAXSEM. var_addr s x \<noteq> s_sem i s))"

definition runs :: "nat \<Rightarrow> 'a p2mem_scheme \<Rightarrow> bool" where
  "runs c s \<longleftrightarrow> (\<exists>rd fr Q K. kst s [c] rd fr Q K \<and> (\<forall>i\<le>MAXSEM. Q (s_sem i s) = [])) \<and> currentP s = Some c \<and>
     NULL \<noteq> lastSemd s \<and> kernel_mode s \<and> apart s \<and> mem s TIMESCALEADDR \<noteq> 0"

text \<open>What is assumed of the others: they leave the process's semaphores and output alone, and
  the register of the terminal while it holds a command; a process that waits for a character to be transmitted or in a P
  goes on some time, and the terminal does what it is told.\<close>

definition others_ok :: "nat \<Rightarrow> (8 word list p2mem_scheme \<Rightarrow> 8 word list p2mem_scheme) \<Rightarrow> 8 word list p2mem_scheme calls \<Rightarrow> bool" where
  "others_ok c between wait \<longleftrightarrow> (\<forall>s. runs c s \<longrightarrow>
     went (runs c) s (own s) [] (between s) \<and> d_data1 (devregs (between s) TERM0ADDR) = d_data1 (devregs s TERM0ADDR) \<and>
     (\<forall>x\<in>{''term_mut'', ''startp2''}. \<exists>r s'. wait PASSERN (var_addr s x) 0 0 s = Some (r, s') \<and> went (runs c) s (own s) [] s') \<and>
     (d_data1 (devregs s TERM0ADDR) AND 0xFF = PRINTCHR \<longrightarrow>
        (\<exists>r s'. wait IOWAIT TERMINT 0 0 s = Some (r, s') \<and> r AND TERMSTATMASK = RECVD \<and>
           went (runs c) s (own s) [ucast (drop_bit 8 (d_data1 (devregs s TERM0ADDR)))] s')))"

lemma runsE:
  assumes "runs c s"
  obtains rd fr Q K where "kst s [c] rd fr Q K" "\<forall>i\<le>MAXSEM. Q (s_sem i s) = []" "currentP s = Some c"
    "NULL \<noteq> lastSemd s" "kernel_mode s" "apart s" "mem s TIMESCALEADDR \<noteq> 0"
  using assms unfolding runs_def by blast

lemma runs_step:
  assumes r: "runs c s" and k: "kst s' [c] rd fr Q K" and q: "\<forall>i\<le>MAXSEM. Q (s_sem i s) = []" and c: "currentP s' = Some c"
    and l: "lastSemd s' = lastSemd s" and u: "upper s s'" and m: "mem s' TIMESCALEADDR = mem s TIMESCALEADDR"
  shows "runs c s'"
proof -
  have a: "var_addr s' = var_addr s" "cpu s' = cpu s" using u by (simp_all add: upper_def)
  then have "s_sem i s' = s_sem i s" for i by (simp add: s_sem_def)
  then show ?thesis using r k q c l m a unfolding runs_def apart_def kernel_mode_def by auto
qed

text \<open>A V that \<open>world\<close> takes to the kernel.\<close>

lemma world_V:
  assumes r: "runs c s" and a: "a \<noteq> lastSemd s" "a \<noteq> TIMESCALEADDR"
  shows "\<exists>r s'. at_once VERHO a 0 0 s = Some (r, s') \<and> runs c s' \<and> mem s' = (mem s)(a := mem s a + 1) \<and> upper s s'"
proof -
  obtain rd fr Q K where k: "kst s [c] rd fr Q K" "\<forall>i\<le>MAXSEM. Q (s_sem i s) = []" "currentP s = Some c"
    "NULL \<noteq> lastSemd s" "kernel_mode s" by (rule runsE [OF r])
  from kernel_V [OF k(1,3,4,5) a(1)] obtain x s' rd' Q' where s':
    "at_once VERHO a 0 0 s = Some (x, s')" "kst s' [c] rd' fr Q' K" "mem s' = (mem s)(a := mem s a + 1)"
    "currentP s' = Some c" "lastSemd s' = lastSemd s" "upper s s'" "\<forall>b. b \<noteq> a \<or> Q a = [] \<longrightarrow> Q' b = Q b" by blast
  have "\<forall>i\<le>MAXSEM. Q' (s_sem i s) = []" using s'(7) k(2) by metis
  with runs_step [OF r s'(2) _ s'(4,5,6)] s'(1,3,6) a(2) show ?thesis by auto
qed

lemma world_P:
  assumes r: "runs c s" and a: "a \<noteq> TIMESCALEADDR" "0 < sint (mem s a)"
  shows "\<exists>r s'. at_once PASSERN a 0 0 s = Some (r, s') \<and> runs c s' \<and> mem s' = (mem s)(a := mem s a - 1) \<and> upper s s'"
proof -
  obtain rd fr Q K where k: "kst s [c] rd fr Q K" "\<forall>i\<le>MAXSEM. Q (s_sem i s) = []" "currentP s = Some c" "kernel_mode s"
    by (rule runsE [OF r])
  from kernel_P [OF k(1,3,4) a(2)] obtain x s' where s':
    "at_once PASSERN a 0 0 s = Some (x, s')" "kst s' [c] rd fr Q K" "mem s' = (mem s)(a := mem s a - 1)"
    "currentP s' = Some c" "lastSemd s' = lastSemd s" "upper s s'" by blast
  with runs_step [OF r s'(2) k(2) s'(4,5,6)] a(1) show ?thesis by auto
qed

lemma world_time:
  assumes r: "runs c s"
  shows "\<exists>r s'. at_once GETCPU 0 0 0 s = Some (r, s') \<and> runs c s' \<and> mem s' = mem s \<and> upper s s'"
proof -
  obtain rd fr Q K where k: "kst s [c] rd fr Q K" "\<forall>i\<le>MAXSEM. Q (s_sem i s) = []" "currentP s = Some c" "kernel_mode s"
    by (rule runsE [OF r])
  from kernel_time [OF k(1,3,4)] obtain x s' where s':
    "at_once GETCPU 0 0 0 s = Some (x, s')" "kst s' [c] rd fr Q K" "mem s' = mem s"
    "currentP s' = Some c" "lastSemd s' = lastSemd s" "upper s s'" by blast
  with runs_step [OF r s'(2) k(2) s'(4,5,6)] show ?thesis by auto
qed

text \<open>What the process sees of such a step.\<close>

lemma went_upper:
  "runs c s' \<Longrightarrow> upper s s' \<Longrightarrow> mem s' TIMESCALEADDR = mem s TIMESCALEADDR \<Longrightarrow> own s' = v \<Longrightarrow> went (runs c) s v [] s'"
  by (simp add: went_def upper_def)

lemma own_upper: "upper s s' \<Longrightarrow> (\<And>i. i \<le> MAXSEM \<Longrightarrow> mem s' (s_sem i s) = v i) \<Longrightarrow> (\<And>i. \<not> i \<le> MAXSEM \<Longrightarrow> v i = 0) \<Longrightarrow> own s' = v"
  by (auto simp: own_def upper_def s_sem_def fun_eq_iff)

lemma calls_numbers:
  "must_wait VERHO a s = False" "must_wait GETCPU a s = False" "must_wait IOWAIT a s = True"
  "must_wait PASSERN a s \<longleftrightarrow> sint (mem s a) \<le> 0"
  by (simp_all add: must_wait_def PASSERN_def VERHO_def TERMINATETHREAD_def IOWAIT_def CLOCKWAIT_def GETCPU_def)

lemma others_between:
  assumes "others_ok c between wait" "runs c s"
  shows "went (runs c) s (own s) [] (between s)" "runs c (between s)" "own (between s) = own s"
    "var_addr (between s) = var_addr s" "s_sem i (between s) = s_sem i s"
    "i \<le> MAXSEM \<Longrightarrow> mem (between s) (s_sem i s) = own s i" "\<not> i \<le> MAXSEM \<Longrightarrow> own s i = 0"
proof -
  show w: "went (runs c) s (own s) [] (between s)" using assms by (simp add: others_ok_def)
  then show "runs c (between s)" "own (between s) = own s" "var_addr (between s) = var_addr s" by (simp_all add: went_def)
  show i: "s_sem i (between s) = s_sem i s" using went_s_sem [OF w] .
  have "own (between s) i = own s i" using w by (simp add: went_def)
  then show "i \<le> MAXSEM \<Longrightarrow> mem (between s) (s_sem i s) = own s i" using i by (simp add: own_def)
qed (simp add: own_def)

lemma runs_apart:
  assumes "runs c s"
  shows "x \<in> {''term_mut'', ''startp2'', ''endp2''} \<Longrightarrow> var_addr s x \<noteq> lastSemd s \<and> var_addr s x \<noteq> TIMESCALEADDR"
    "x \<in> {''term_mut'', ''startp2'', ''endp2''} \<Longrightarrow> i \<le> MAXSEM \<Longrightarrow> s_sem i s \<noteq> var_addr s x"
    "i \<le> MAXSEM \<Longrightarrow> s_sem i s \<noteq> lastSemd s \<and> s_sem i s \<noteq> TIMESCALEADDR"
proof -
  have a: "apart s" using assms by (simp add: runs_def)
  show "x \<in> {''term_mut'', ''startp2'', ''endp2''} \<Longrightarrow> var_addr s x \<noteq> lastSemd s \<and> var_addr s x \<noteq> TIMESCALEADDR"
    "x \<in> {''term_mut'', ''startp2'', ''endp2''} \<Longrightarrow> i \<le> MAXSEM \<Longrightarrow> s_sem i s \<noteq> var_addr s x"
    using conjunct2 [OF a [unfolded apart_def]] by (metis (no_types))+
  show "i \<le> MAXSEM \<Longrightarrow> s_sem i s \<noteq> lastSemd s \<and> s_sem i s \<noteq> TIMESCALEADDR"
    using conjunct1 [OF a [unfolded apart_def]] by blast
qed

text \<open>The calls on any semaphore \<open>a\<close> that the kernel serves at once.\<close>

lemma world_V_went:
  assumes o: "others_ok c between wait" and r: "runs c s" and a: "a \<noteq> lastSemd (between s)" "a \<noteq> TIMESCALEADDR"
  shows "\<exists>r s'. world between wait VERHO a 0 0 s = Some (r, s') \<and>
     went (runs c) s (\<lambda>i. if i \<le> MAXSEM \<and> s_sem i s = a then own s i + 1 else own s i) [] s'"
proof -
  note b = others_between [OF o r]
  from world_V [OF b(2) a] obtain r s' where s': "at_once VERHO a 0 0 (between s) = Some (r, s')" "runs c s'"
    "mem s' = (mem (between s))(a := mem (between s) a + 1)" "upper (between s) s'" by blast
  have "own s' = (\<lambda>i. if i \<le> MAXSEM \<and> s_sem i s = a then own s i + 1 else own s i)"
    by (rule own_upper [OF s'(4)]) (use b(6) in \<open>auto simp: s'(3) b(5,7)\<close>)
  with went_trans0 [OF b(1) went_upper [OF s'(2,4)]] s'(1,3) a(2) show ?thesis by (auto simp: world_def calls_numbers)
qed

lemma world_P_went:
  assumes o: "others_ok c between wait" and r: "runs c s" and a: "a \<noteq> TIMESCALEADDR" "0 < sint (mem (between s) a)"
  shows "\<exists>r s'. world between wait PASSERN a 0 0 s = Some (r, s') \<and>
     went (runs c) s (\<lambda>i. if i \<le> MAXSEM \<and> s_sem i s = a then own s i - 1 else own s i) [] s'"
proof -
  note b = others_between [OF o r]
  from world_P [OF b(2) a] obtain r s' where s': "at_once PASSERN a 0 0 (between s) = Some (r, s')" "runs c s'"
    "mem s' = (mem (between s))(a := mem (between s) a - 1)" "upper (between s) s'" by blast
  have "own s' = (\<lambda>i. if i \<le> MAXSEM \<and> s_sem i s = a then own s i - 1 else own s i)"
    by (rule own_upper [OF s'(4)]) (use b(6) in \<open>auto simp: s'(3) b(5,7)\<close>)
  with went_trans0 [OF b(1) went_upper [OF s'(2,4)]] s'(1,3) a show ?thesis by (auto simp: world_def calls_numbers)
qed

lemma kst_upper [simp]:
  "kst (s\<lparr>p1p2synch := n\<rparr>) cur rd fr Q K = kst s cur rd fr Q K" "kst (s\<lparr>tod_reads := m\<rparr>) cur rd fr Q K = kst s cur rd fr Q K"
  by (rule same_struct_kst; simp add: same_struct_def)+

lemma runs_stores:
  assumes r: "runs c s"
  shows "runs c (upd_dev a f s)" "runs c (s\<lparr>p1p2synch := n\<rparr>)" "runs c (s\<lparr>tod_reads := m\<rparr>)"
    "i \<le> MAXSEM \<Longrightarrow> runs c (poke (s_sem i s) v s)"
proof -
  obtain rd fr Q K where k: "kst s [c] rd fr Q K" "\<forall>i\<le>MAXSEM. Q (s_sem i s) = []" "currentP s = Some c" "apart s"
    by (rule runsE [OF r])
  show "runs c (upd_dev a f s)"
    by (rule runs_step [OF r _ k(2)]) (use k in \<open>simp_all add: upper_def\<close>)
  show "runs c (s\<lparr>p1p2synch := n\<rparr>)" using r k unfolding runs_def apart_def kernel_mode_def
    by (simp add: s_sem_def lastSemd_def)
  show "runs c (s\<lparr>tod_reads := m\<rparr>)"
    by (rule runs_step [OF r _ k(2)]) (use k in \<open>simp_all add: upper_def lastSemd_def\<close>)
  assume "i \<le> MAXSEM"
  with k(4) have "TIMESCALEADDR \<noteq> s_sem i s" by (auto simp: apart_def)
  then show "runs c (poke (s_sem i s) v s)"
    by (intro runs_step [OF r _ k(2)]) (use k in \<open>simp_all add: upper_def\<close>)
qed

text \<open>The kernel and the others together keep the contract.\<close>

definition p2_runs :: "nat \<Rightarrow> (8 word list p2mem_scheme \<Rightarrow> 8 word list p2mem_scheme) \<Rightarrow> 8 word list p2mem_scheme calls \<Rightarrow>
    8 word list p2mem_scheme \<Rightarrow> bool" where
  "p2_runs c between wait s \<longleftrightarrow> others_ok c between wait \<and> runs c s"

lemma went_p2_runs: "others_ok c between wait \<Longrightarrow> went (p2_runs c between wait) s v w s' = went (runs c) s v w s'"
  by (simp add: went_def p2_runs_def)

interpretation nucleus: process_calls "world between wait" "p2_runs c between wait" for c between wait
proof
  fix s assume j: "p2_runs c between wait s"
  then have o: "others_ok c between wait" and r: "runs c s" by (simp_all add: p2_runs_def)
  note w = went_p2_runs [OF o] and b = others_between [OF o r]
  have T: "own s = (\<lambda>i. if i \<le> MAXSEM \<and> s_sem i s = a then f i else own s i)" if "\<And>i. i \<le> MAXSEM \<Longrightarrow> s_sem i s \<noteq> a" for a f
    by (rule ext) (simp add: that cong: conj_cong)
  show "\<exists>r s'. world between wait VERHO (var_addr s x) 0 0 s = Some (r, s') \<and> went (p2_runs c between wait) s (own s) [] s'"
    if "x \<in> {''term_mut'', ''endp2''}" for x
  proof -
    have x: "x \<in> {''term_mut'', ''startp2'', ''endp2''}" using that by blast
    show ?thesis using world_V_went [OF o r, of "var_addr s x"] runs_apart(1) [OF b(2) x] runs_apart(2) [OF r x]
        T [of "var_addr s x" "\<lambda>i. own s i + 1"] b(4) w by simp
  qed
  show "\<exists>r s'. world between wait PASSERN (var_addr s x) 0 0 s = Some (r, s') \<and> went (p2_runs c between wait) s (own s) [] s'"
    if x': "x \<in> {''term_mut'', ''startp2''}" for x
  proof -
    have x: "x \<in> {''term_mut'', ''startp2'', ''endp2''}" using that by blast
    show ?thesis
    proof (cases "sint (mem (between s) (var_addr s x)) \<le> 0")
      case True
      have "\<exists>r s'. wait PASSERN (var_addr (between s) x) 0 0 (between s) = Some (r, s') \<and>
          went (runs c) (between s) (own (between s)) [] s'"
        using o b(2) x' unfolding others_ok_def by blast
      with True went_trans0 [OF b(1)] show ?thesis using b(3,4) w by (auto simp: world_def calls_numbers)
    next
      case False
      then show ?thesis using world_P_went [OF o r, of "var_addr s x"] runs_apart(1) [OF b(2) x] runs_apart(2) [OF r x]
        T [of "var_addr s x" "\<lambda>i. own s i - 1"] b(4) w by simp
    qed
  qed
  show "\<exists>r s'. world between wait VERHO (s_sem i s) 0 0 s = Some (r, s') \<and>
      went (p2_runs c between wait) s ((own s)(i := own s i + 1)) [] s'" if i: "i \<le> MAXSEM" for i
  proof -
    have "(\<lambda>j. if j \<le> MAXSEM \<and> s_sem j s = s_sem i s then own s j + 1 else own s j) = (own s)(i := own s i + 1)"
      using i by (intro ext) (simp add: s_sem_inj cong: conj_cong)
    then show ?thesis using world_V_went [OF o r, of "s_sem i s"] runs_apart(3) [OF b(2) i] b(5) w by simp
  qed
  show "\<exists>r s'. world between wait PASSERN (s_sem i s) 0 0 s = Some (r, s') \<and>
      went (p2_runs c between wait) s ((own s)(i := own s i - 1)) [] s'" if i: "i \<le> MAXSEM" and p: "0 < sint (own s i)" for i
  proof -
    have "(\<lambda>j. if j \<le> MAXSEM \<and> s_sem j s = s_sem i s then own s j - 1 else own s j) = (own s)(i := own s i - 1)"
      using i by (intro ext) (simp add: s_sem_inj cong: conj_cong)
    then show ?thesis using world_P_went [OF o r, of "s_sem i s"] runs_apart(3) [OF b(2) i] b(5) b(6) [OF i] p w by simp
  qed
  show "\<exists>r s'. world between wait GETCPU 0 0 0 s = Some (r, s') \<and> went (p2_runs c between wait) s (own s) [] s'"
  proof -
    from world_time [OF b(2)] obtain r s' where s': "at_once GETCPU 0 0 0 (between s) = Some (r, s')" "runs c s'"
      "mem s' = mem (between s)" "upper (between s) s'" by blast
    have "own s' = own s" by (rule own_upper [OF s'(4)]) (simp_all add: s'(3) b(5,6,7))
    with went_trans0 [OF b(1) went_upper [OF s'(2,4)]] s'(1,3) w show ?thesis by (auto simp: world_def calls_numbers)
  qed
  show "\<exists>r s'. world between wait IOWAIT TERMINT 0 0 s = Some (r, s') \<and> r AND TERMSTATMASK = RECVD \<and>
      went (p2_runs c between wait) s (own s) [ucast (drop_bit 8 (d_data1 (devregs s TERM0ADDR)))] s'"
    if "d_data1 (devregs s TERM0ADDR) AND 0xFF = PRINTCHR"
  proof -
    have d: "d_data1 (devregs (between s) TERM0ADDR) = d_data1 (devregs s TERM0ADDR)" using o r by (simp add: others_ok_def)
    with that have "\<exists>r s'. wait IOWAIT TERMINT 0 0 (between s) = Some (r, s') \<and> r AND TERMSTATMASK = RECVD \<and>
        went (runs c) (between s) (own (between s)) [ucast (drop_bit 8 (d_data1 (devregs (between s) TERM0ADDR)))] s'"
      using o b(2) unfolding others_ok_def by metis
    with went_trans0 [OF b(1)] show ?thesis using b(3) d w by (auto simp: world_def calls_numbers)
  qed
  show "p2_runs c between wait (upd_dev a f s)" "p2_runs c between wait (s\<lparr>p1p2synch := n\<rparr>)"
    "p2_runs c between wait (s\<lparr>tod_reads := m\<rparr>)" for a f n m
    using runs_stores(1-3) [OF r] o by (simp_all add: p2_runs_def)
  show "p2_runs c between wait (poke (s_sem i s) n s)" if "i \<le> MAXSEM" for i n
    using runs_stores(4) [OF r that] o by (simp add: p2_runs_def)
  show "mem s TIMESCALEADDR \<noteq> 0" using r by (simp add: runs_def)
  show "s_sem i s \<noteq> TIMESCALEADDR" if "i \<le> MAXSEM" for i using runs_apart(3) [OF r that] by simp
qed

end
