(* ===== verification/Props_Test.thy ===== *)
theory Props_Test
  imports Props_Startup P2run
begin

text \<open>
  The property of the test program of phase 2: its process \<open>p2\<close> on the kernel.
\<close>

text \<open>C40: The process \<open>p2\<close> of the test of phase 2 passes on the kernel. P, V and the reading of the processor time are done by
  \<open>exception_handler\<close> itself, with any other processes and devices at work in between that leave
  the semaphores \<open>s[]\<close> alone (\<open>others_ok\<close>). None of the 21 pairs of V and P on \<open>s[]\<close> blocks or leaves a value
  other than 0: \<open>p2\<close> prints no error for them and then what follows from the times it has measured. It comes to its last
  call, the one that ends it, with \<open>p1p2synch\<close> set, as the running process in a kernel whose tables are in order.\<close>

theorem phase2_test_p2:
  assumes "others_ok c between wait" "runs c s"
  shows "\<exists>t real used t1 s'. printed t = printed s @ map of_char (line ''p2 starts'' @ line ''p2 v's successfully'') \<and>
     runs c t \<and> p2_readings (world between wait) t = Some (real, used, t1) \<and>
     p2 (world between wait) s = block [finish (world between wait), print (world between wait) (line ''error: p2 didn't terminate''), panic] s' \<and>
     runs c s' \<and> p1p2synch s' = 1 \<and> (\<forall>i\<le>MAXSEM. mem s' (s_sem i s') = 0) \<and>
     printed s' = printed t @ map of_char (verdict real used (cdiv MINLOOPTIME (mem s TIMESCALEADDR)))"
proof -
  have j: "p2_runs c between wait s" using assms by (simp add: p2_runs_def)
  note w = went_p2_runs [OF assms(1)]
  from nucleus.p2_ends [OF j] obtain t real used t1 s' where
    t: "went (runs c) s (\<lambda>_. 0) (map of_char (line ''p2 starts'' @ line ''p2 v's successfully'')) t"
      "p2_readings (world between wait) t = Some (real, used, t1)"
      "p2 (world between wait) s = block [finish (world between wait), print (world between wait) (line ''error: p2 didn't terminate''), panic] s'"
      "went (runs c) (t\<lparr>p1p2synch := 1\<rparr>) (\<lambda>_. 0) (map of_char (verdict real used (cdiv MINLOOPTIME (mem s TIMESCALEADDR)))) s'"
    unfolding w by blast
  have "mem s' (s_sem i s') = own s' i" if "i \<le> MAXSEM" for i using that by (simp add: own_def)
  with t show ?thesis unfolding went_def
    by (intro exI [of _ t] exI [of _ real] exI [of _ used] exI [of _ t1] exI [of _ s']) simp
qed

text \<open>The booted machine with the semaphores of the test at addresses of their own, and a terminal that
  transmits every character.\<close>

definition transmitting :: "8 word list p2mem_scheme calls" where
  "transmitting n a1 a2 a3 s = (if n = IOWAIT
     then Some (5, p2mem.more_update (\<lambda>w. w @ [ucast (drop_bit 8 (d_data1 (devregs s TERM0ADDR)))]) s) else Some (0, s))"

lemma runs_printed [simp]: "runs c (p2mem.more_update f s) = runs c s"
proof -
  have "kst (p2mem.more_update f s) cur rd fr Q K = kst s cur rd fr Q K" for cur rd fr Q K
    by (rule same_struct_kst) (simp add: same_struct_def)
  then show ?thesis by (simp add: runs_def apart_def kernel_mode_def s_sem_def lastSemd_def)
qed

lemma transmitting_ok: "others_ok c (\<lambda>s. s) transmitting"
proof -
  have "own (p2mem.more_update f s) = own s" for f and s :: "8 word list p2mem_scheme" by (simp add: own_def s_sem_def fun_eq_iff)
  moreover have "PASSERN \<noteq> IOWAIT" by (simp add: PASSERN_def IOWAIT_def)
  moreover have "5 AND TERMSTATMASK = RECVD" by (simp add: TERMSTATMASK_def RECVD_def)
  ultimately show ?thesis by (simp add: others_ok_def transmitting_def went_def)
qed

lemma s_addresses:
  "i \<le> MAXSEM \<Longrightarrow> (0x20005000 + 4 * of_nat i :: u32) \<notin> {0x200200FC, TIMESCALEADDR, 0x20006000}"
proof -
  have "list_all (\<lambda>i. (0x20005000 + 4 * of_nat i :: u32) \<notin> {0x200200FC, TIMESCALEADDR, 0x20006000}) [0..<Suc MAXSEM]"
    by code_simp
  moreover assume "i \<le> MAXSEM"
  then have "i \<in> set [0..<Suc MAXSEM]" by (simp only: set_upt) auto
  ultimately show ?thesis unfolding list_all_iff by blast
qed

lemma test_machine: "\<exists>s :: 8 word list p2mem_scheme. runs 0 s \<and> printed s = []"
proof -
  let ?st = "\<lparr>s_entryHI = 0, s_cause = 0, s_status = 0, s_pc = 0, s_reg = (\<lambda>_. 0)\<rparr>"
  let ?va = "\<lambda>x. if x = ''s'' then 0x20005000 else 0x20006000 :: u32"
  let ?r = "support0 (p2mem_ext ?va 0 0 1 0 0 0 (\<lambda>_. ?st) 0 ([] :: 8 word list))"
  have "layout ?r" by (simp add: layout_def support0_def in_devs_def device_sem_def lastSemd_def RAMSTART_def MAXPROC_def)
  from main_eval [OF this] obtain s' :: "8 word list p2mem_scheme" where s': "kst s' [0] [] [1..<MAXPROC] (\<lambda>_. []) (\<lambda>_. [])" "currentP s' = Some 0"
    and t: "semdTable_addr s' = semdTable_addr ?r" by blast
  then have a: "semdTable_addr s' = 0x20020000" by (simp add: support0_def)
  let ?s = "s'\<lparr>mem := (mem s')(TIMESCALEADDR := 1), var_addr := ?va, cpu := (\<lambda>_. ?st), p2mem.more := []\<rparr>"
  have k: "kst ?s [0] [] [1..<MAXPROC] (\<lambda>_. []) (\<lambda>_. [])"
    using s'(1) by (subst same_struct_kst [of s']) (simp_all add: same_struct_def)
  have l: "lastSemd ?s = 0x200200FC" using a by (simp add: lastSemd_def MAXPROC_def)
  have "apart ?s" unfolding apart_def l using s_addresses by (auto simp: s_sem_def TIMESCALEADDR_def)
  then have "runs 0 ?s" using k s'(2) l unfolding runs_def kernel_mode_def by (auto simp: NULL_def)
  then show ?thesis by (intro exI [of _ ?s]) simp
qed

theorem phase2_test_p2_witness:
  "\<exists>s s' v. p2 (world (\<lambda>s. s) transmitting) s =
       block [finish (world (\<lambda>s. s) transmitting), print (world (\<lambda>s. s) transmitting) (line ''error: p2 didn't terminate''), panic] s' \<and>
     runs 0 s' \<and> p1p2synch s' = 1 \<and> printed s' = map of_char (line ''p2 starts'' @ line ''p2 v's successfully'' @ v)"
proof -
  from test_machine obtain s :: "8 word list p2mem_scheme" where s: "runs 0 s" "printed s = []" by blast
  from phase2_test_p2 [OF transmitting_ok s(1)] s(2) show ?thesis unfolding map_append by (metis append_Nil append_assoc)
qed

end
