(* ===== verification/Spec2Isabelle.thy ===== *)
theory Spec2Isabelle
  imports Props_Kernel Props_Devices Props_Tables Props_Support Props_IO Props_Startup Props_Test
begin

text \<open>
  \<^bold>\<open>The Pandos operating system\<close>

  \<^bold>\<open>The program.\<close> A small operating system in C for a 32-bit MIPS machine, in five phases that are built on each
  other.

  \<^item> Phase 1: the tables of the kernel. \<^verbatim>\<open>phase1/pcb.c\<close> has the pool of process control blocks, the process
    queues (circular, doubly linked, named by their tail) and the process trees; \<^verbatim>\<open>phase1/asl.c\<close> has the
    sorted list of the semaphores on which processes wait.
  \<^item> Phase 2: the nucleus. \<^verbatim>\<open>initial.c\<close> boots it, \<^verbatim>\<open>scheduler.c\<close> is a round robin scheduler, \<^verbatim>\<open>exceptions.c\<close>
    serves system calls 1 to 8 and passes other exceptions up, \<^verbatim>\<open>interrupts.c\<close> serves timers and devices.
  \<^item> Phase 3: the support level, which runs as processes. \<^verbatim>\<open>initProc.c\<close> is the first process, which sets
    up and starts the user processes, \<^verbatim>\<open>vmSupport.c\<close> the TLB refill and the pager, \<^verbatim>\<open>sysSupport.c\<close> the system
    calls of user processes on printers and terminals.
  \<^item> Phase 4, \<^verbatim>\<open>devSupport.c\<close>: system calls that transfer blocks of disks and flash devices. Phase 5,
    \<^verbatim>\<open>delayDaemon.c\<close>: the call that delays a process and the daemon that wakes the sleepers.

  The nucleus is entered by exceptions only, with interrupts off, and leaves by loading a processor state; the
  phases share its global variables. The support level asks the nucleus by the SYSCALL instruction and
  shares its own tables under semaphores.

  \<^bold>\<open>How the code is modelled.\<close> The state is one record per phase, each an extension of the one below: \<open>pcbmem\<close>
  (pcb table), \<open>aslmem\<close> (descriptors), \<open>kstate\<close> (kernel variables, memory, saved processor states, support
  structures, device registers, timers), \<open>supstate\<close> (swap pool, sleepers, TLB, clock). A field has the name of
  the global variable of the code. A pointer into a table is an optional index; an address of memory, of a
  support structure or of a semaphore is a word. A function of the code is a definition of the same name that
  passes the state on; a result \<open>None\<close> says that the code has no defined continuation (it follows a
  NULL pointer, divides by zero) or does not return. A function that leaves the kernel has a result of
  type \<open>exit\<close>: the argument of \<^verbatim>\<open>LDST\<close> or \<^verbatim>\<open>LDCXT\<close>, or \<^verbatim>\<open>HALT\<close>, \<^verbatim>\<open>PANIC\<close>, \<^verbatim>\<open>WAIT\<close>. Integers are 32-bit words,
  compared by \<open>sint\<close> where the code's type is signed.

  \<^bold>\<open>The theories.\<close>

  \<^item> \<open>Prelude\<close>, \<open>Types\<close>, \<open>Interfaces\<close>: chains and rings of pointers; the data of \<^verbatim>\<open>h/types.h\<close> and
    \<^verbatim>\<open>h/const.h\<close>; three contracts, \<open>fifo\<close> (a queue of pcbs), \<open>sorted_walk\<close> (the search of a sorted list with
    a dummy at each end) and \<open>send_loop\<close> (a loop that sends a string to a device). \<open>fifo\<close> is met by the process queues
    and by the queue of a semaphore, \<open>sorted_walk\<close> by the list of the semaphores and by that of the sleepers,
    \<open>send_loop\<close> by the loops of the printer and of the terminal.
  \<^item> \<open>Pcb\<close>, \<open>Asl\<close>: phase 1, with what each operation does to the lists its structures stand for (\<open>procQ\<close>,
    \<open>children\<close>, \<open>pcbFree\<close>, \<open>asl\<close>) and what it leaves alone (the frames \<open>qframe\<close>, \<open>tframe\<close>, \<open>bframe\<close>).
  \<^item> \<open>Nucleus\<close> (\<^verbatim>\<open>initial.c\<close>, \<^verbatim>\<open>scheduler.c\<close>), \<open>Interrupts\<close>, \<open>Exceptions\<close>: the code of phase 2.
  \<^item> \<open>Kernel\<close>: the abstract state \<open>kst s cur rd fr Q K\<close> of the nucleus (running, ready, free and blocked
    processes, children) and what each part of the code does to it. \<open>Boot\<close>, \<open>Syscalls\<close>, \<open>Terminate\<close>,
    \<open>Devices\<close>: boot and scheduler, the system calls, the termination of a subtree, the interrupts.
  \<^item> \<open>OsSpec\<close>: the abstract kernel, whose state is the running process, the ready queue, the free pcbs, the queues and values of the
    semaphores and the trees, with one step (\<open>os_step\<close>) for each thing that can happen. \<open>Invariant\<close>:
    each handler implements a step of it (\<open>represents\<close>, \<open>event_of\<close>). \<open>Machine\<close>: the step relation \<open>reach\<close> from
    reset, and runs (\<open>trail\<close>) along which the events are counted.
  \<^item> \<open>Support\<close>, \<open>Vm\<close>, \<open>SysSupport\<close>, \<open>InitProc\<close>, \<open>Storage\<close>, \<open>Delay\<close>: the code of phases 3 to 5.
  \<^item> \<open>P1test\<close>: the test program \<^verbatim>\<open>phase1/p1test.c\<close>. \<open>P1run\<close>: it runs through. \<open>P2test\<close>: the test
    program \<^verbatim>\<open>phase2/p2test.c\<close>, the programs of its processes. \<open>P2run\<close>: the contract \<open>process_calls\<close> between its
    process \<open>p2\<close> and the kernel, and that the kernel (\<open>world\<close>) keeps it.
  \<^item> \<open>Paging\<close>, \<open>Pager\<close>, \<open>Reclaim\<close>: page tables and the choice of a frame, the pager under the invariant \<open>vm_inv\<close>
    between swap pool and page tables, the end of a user process. \<open>Adl\<close>: the list of the sleepers.
    \<open>Dispatch\<close>: the way of a system call through the handler of the support level, and the exceptions that end the
    process. \<open>Disk\<close>: the geometry of a disk and the transfer of a block; \<open>Flash\<close>: the same for a flash device. \<open>Chars\<close>: strings on printers and terminals. \<open>Startup\<close>: the first process up to the
    start of the user process.
  \<^item> \<open>Props_Kernel\<close> (C1 to C15), \<open>Props_Devices\<close> (C16 to C21), \<open>Props_Tables\<close> (C22 to C27), \<open>Props_Support\<close> (C28 to
    C34), \<open>Props_IO\<close> (C35 to C38), \<open>Props_Startup\<close> (C39), \<open>Props_Test\<close> (C40): the properties, each applied at a concrete state.

  \<^bold>\<open>What is shown.\<close> C1: the nucleus implements the abstract kernel, exception by exception. C2, C3: it boots, and from reset
  on, whatever processes and devices do, it handles every exception to its end and its tables stay consistent. C4: its
  semaphores count. C5, C6: the scheduler's choice, and that no ready process starves. C7 to C15: each system call on
  its branches, termination, pass up or die. C16 to C21: device, terminal and timer interrupts and their
  priority. C22 to C26: the tables of phase 1 as queues, pool and tree; C27: the test program of phase 1 passes on
  them. C28 to C31: refill, choice of frames, a page fault is served and keeps the swap pool consistent, a
  process that ends, by its own wish or by an exception or request that is refused, gives back its frames. C32 to
  C34: the list of the sleepers is set up, kept sorted and emptied by the daemon in time. C35 to C38: what is
  written to a disk or a flash device is read again, strings are printed,
  lines are read, each from the exception that asks for it to the return behind the call. C39: the first process
  sets all this up and starts the user process. C40: the process of the test of phase 2 that tries P and V passes on the
  kernel. C11, C12, C18, C20, C26 and C38 state what the code does where that is not what it means to do; C28 covers such a case too.

  \<^bold>\<open>Hypotheses.\<close> \<open>layout\<close>: the tables of the kernel lie apart in memory. \<open>request_ok\<close>: what the kernel assumes of an
  exception without a check (the semaphore of a P or V is not one of a device and not the dummy at the end of the
  list, a descriptor is left for a process that must wait, a wait names a device whose interrupt has
  not come before). \<open>env\<close>: processes do not
  write the kernel's tables.

  \<^bold>\<open>Parameters.\<close> The library libumps is not part of the repository. Its register operations have their documented
  effect on fields of the state. At the support level \<^verbatim>\<open>SYSCALL\<close> is a parameter \<open>K\<close>: it gives the value in
  \<open>v0\<close> and the state when the caller goes on, or \<open>None\<close> if it never does. The theorems name what they
  rely on: \<open>calls_ok\<close> (the calls of the pager return; nobody changes the memory management while the pager holds
  its semaphore), \<open>daemon_calls\<close> (V returns; others leave a well-formed list), \<open>clock_ok\<close> (the clock does
  not go back and is below the greatest int), \<open>disk_answers\<close> and
  \<open>flash_answers\<close> (the device does the commands it is given), \<open>waits_ok\<close>,
  \<open>prints\<close>, \<open>transmits\<close>, \<open>receives\<close> (calls return and leave the request alone; the device takes or delivers the
  next character), \<open>boot_calls\<close> (the calls of the first process return; processes it has started keep the
  invariants), \<open>others_ok\<close> (the other processes leave the semaphores of \<open>p2\<close> alone; there \<^verbatim>\<open>SYSCALL\<close> is the handler
  of the kernel, and only what happens while \<open>p2\<close> waits is a parameter). The timer, the clock and the status of the terminal of the test program are streams of readings.

  \<^bold>\<open>Loops.\<close> No fuel is used. Loops over a fixed range are folds or recursion on the list of indices. Loops that
  follow pointers or run until a device or the clock says so are \<open>partial_function (option)\<close>: the search of a
  queue (\<open>q_find\<close>, \<open>sib_find\<close>), of the lists (\<open>traverse_from\<close>, \<open>adl_from\<close>), the recursion of
  \<^verbatim>\<open>helper_terminate_process\<close> (\<open>kill_children\<close>), \<open>unblock_all\<close>, \<open>wake_loop\<close>, the loops over the characters of a string
  (\<open>printer_loop\<close>, \<open>transmit_loop\<close>, \<open>receive_loop\<close>), and \<open>busy_wait\<close>, \<open>half_interval\<close> and \<open>p8_loop\<close> of the test programs; that they end, but
  for the last two, is part of the lemmas that give their results. The loop of
  \<^verbatim>\<open>delay_daemon\<close> has no end; \<open>daemon_round\<close> is one turn.

  \<^bold>\<open>Not modelled.\<close> The programs under \<^verbatim>\<open>phase3/testers\<close>, \<^verbatim>\<open>diskIOtest.c\<close> and \<^verbatim>\<open>pvTestA.c\<close> are user processes: they
  exercise the system and are no part of it. The two debug functions have no effect. The processor's instruction
  execution, the TLB's choice of victims and the contents of user programs are left open (\<open>env\<close>, \<open>tlb\<close>). Of the
  test of phase 2 the processes are modelled one by one; that all of them together end is not shown.
\<close>

end
